(* ===== verification/Prelude.thy ===== *)
theory Prelude
  imports Main "HOL-Library.Word"
begin

unbundle bit_operations_syntax

text \<open>
  Shared vocabulary of the AOS kernel development.

  \<^item> the machine integers of the C sources (\<open>uint8_t\<close> to \<open>uint64_t\<close>) as words;
  \<^item> the byte-array operations the kernel writes as \<open>local_memcpy\<close> loops: reading a slice of an
    array and overwriting a slice of it;
  \<^item> the search for the first table slot that satisfies a condition, the shape of every
    allocation loop of the kernel;
  \<^item> C strings. A C string is the list of its characters before the terminating NUL, so the
    tests \<open>src[i] != 0\<close> of the loops are the end of the list;
  \<^item> little-endian byte encodings of the packed structures that are written to disk.

  An out-parameter of a C function is a component of its result in the model. A pointer
  parameter that the code compares with NULL and that callers really pass as NULL is an option.
\<close>

named_theorems arr_simps "reading and overwriting byte arrays"
named_theorems slot_simps "first slot of a table"
named_theorems cstr_simps "C string helpers"
named_theorems le_simps "little-endian encodings"

type_synonym u8 = "8 word"
type_synonym u16 = "16 word"
type_synonym u32 = "32 word"
type_synonym u64 = "64 word"
type_synonym bytes = "u8 list"

section \<open>Words\<close>

lemma unat_add_small:
  fixes a b :: "'a::len word"
  shows "unat a + unat b < 2 ^ LENGTH('a) \<Longrightarrow> unat (a + b) = unat a + unat b"
  using unat_add_lem by blast

lemma unat_sub_small:
  fixes a b :: "'a::len word"
  shows "b \<le> a \<Longrightarrow> unat (a - b) = unat a - unat b"
  by (simp add: unat_sub)

lemma unat_Suc_small:
  fixes a :: "'a::len word"
  assumes "Suc (unat a) < 2 ^ LENGTH('a)"
  shows "unat (a + 1) = Suc (unat a)"
proof -
  have "unat (1::'a word) = 1" by simp
  then show ?thesis using assms unat_add_small [of a 1] by simp
qed

lemma unat_pred:
  fixes a :: "'a::len word"
  assumes "a \<noteq> 0"
  shows "unat (a - 1) = unat a - 1"
  using assms by (metis unat_minus_one)

lemma unat_of_nat_small:
  "n < 2 ^ LENGTH('a) \<Longrightarrow> unat (of_nat n :: 'a::len word) = n"
  by (simp add: unat_of_nat take_bit_nat_eq_self)

lemma unat_less: "unat (a :: 'a::len word) < 2 ^ LENGTH('a)"
  by (rule unsigned_less)

lemma unat_mult_small:
  fixes a b :: "'a::len word"
  shows "unat a * unat b < 2 ^ LENGTH('a) \<Longrightarrow> unat (a * b) = unat a * unat b"
  using unat_mult_lem by blast

lemma unat_ucast_u64: "unat (ucast (x :: u32) :: u64) = unat x"
proof -
  have "unat x < 2 ^ 64" using unat_less [of x] by simp
  then show ?thesis by (simp add: unsigned_ucast_eq take_bit_nat_eq_self)
qed

lemma and_not_mask_eq: "(a :: 'a::len word) AND NOT (mask n) = push_bit n (drop_bit n a)"
  by (rule bit_word_eqI) (auto simp: bit_simps)

text \<open>Rounding an address down to its page, and the page-alignment test.\<close>

lemma page_mask: "(0xFFF :: u64) = mask 12"
  by (simp add: mask_eq_exp_minus_1)

lemma unat_page_down: "unat ((a :: u64) AND NOT 0xFFF) = unat a div 4096 * 4096"
proof -
  have "a AND NOT 0xFFF = push_bit 12 (drop_bit 12 a)"
    unfolding page_mask by (rule and_not_mask_eq)
  then have "a AND NOT 0xFFF = a div 4096 * 4096"
    by (simp add: push_bit_eq_mult drop_bit_eq_div)
  moreover have "unat a div 4096 * 4096 < 2 ^ 64"
    using unat_less [of a] by simp
  ultimately show ?thesis
    by (simp add: unat_mult_small unat_div_distrib)
qed

lemma page_aligned_iff: "(a :: u64) AND 0xFFF = 0 \<longleftrightarrow> unat a mod 4096 = 0"
proof -
  have "a AND 0xFFF = take_bit 12 a" unfolding page_mask by (simp add: take_bit_eq_mask)
  moreover have "unat (take_bit 12 a) = unat a mod 4096"
    by (simp add: take_bit_eq_mod unat_mod_distrib)
  ultimately show ?thesis by (metis unat_0 unat_eq_zero)
qed

section \<open>Byte arrays\<close>

definition subarr :: "nat \<Rightarrow> nat \<Rightarrow> 'a list \<Rightarrow> 'a list" where
  "subarr off n xs = take n (drop off xs)"

definition overwrite :: "nat \<Rightarrow> 'a list \<Rightarrow> 'a list \<Rightarrow> 'a list" where
  "overwrite off ys xs = take off xs @ ys @ drop (off + length ys) xs"

lemma length_subarr [arr_simps]: "off + n \<le> length xs \<Longrightarrow> length (subarr off n xs) = n"
  by (simp add: subarr_def)

lemma nth_subarr [arr_simps]: "off + n \<le> length xs \<Longrightarrow> i < n \<Longrightarrow> subarr off n xs ! i = xs ! (off + i)"
  by (simp add: subarr_def)

lemma subarr_0 [simp]: "subarr off 0 xs = []"
  by (simp add: subarr_def)

lemma length_overwrite [arr_simps]:
  "off + length ys \<le> length xs \<Longrightarrow> length (overwrite off ys xs) = length xs"
  by (simp add: overwrite_def)

lemma nth_overwrite [arr_simps]:
  assumes "off + length ys \<le> length xs" and "i < length xs"
  shows "overwrite off ys xs ! i =
    (if off \<le> i \<and> i < off + length ys then ys ! (i - off) else xs ! i)"
  using assms by (auto simp: overwrite_def nth_append)

lemma subarr_overwrite_same [arr_simps]:
  "off + length ys \<le> length xs \<Longrightarrow> subarr off (length ys) (overwrite off ys xs) = ys"
  by (simp add: subarr_def overwrite_def)

lemma subarr_overwrite_disjoint [arr_simps]:
  assumes "off + length ys \<le> length xs" and "off' + n \<le> length xs"
    and "off' + n \<le> off \<or> off + length ys \<le> off'"
  shows "subarr off' n (overwrite off ys xs) = subarr off' n xs"
proof (rule nth_equalityI)
  show "length (subarr off' n (overwrite off ys xs)) = length (subarr off' n xs)"
    using assms by (simp add: arr_simps)
next
  fix i assume "i < length (subarr off' n (overwrite off ys xs))"
  then have i: "i < n" using assms by (simp add: arr_simps)
  then show "subarr off' n (overwrite off ys xs) ! i = subarr off' n xs ! i"
    using assms by (auto simp: arr_simps)
qed

lemma overwrite_Nil [simp]: "off \<le> length xs \<Longrightarrow> overwrite off [] xs = xs"
  by (simp add: overwrite_def)

lemma overwrite_overwrite [arr_simps]:
  assumes "off + length ys + length zs \<le> length xs"
  shows "overwrite (off + length ys) zs (overwrite off ys xs) = overwrite off (ys @ zs) xs"
  using assms by (auto simp: overwrite_def ac_simps)

lemma subarr_subarr [arr_simps]:
  "a + n \<le> m \<Longrightarrow> subarr a n (subarr b m xs) = subarr (b + a) n xs"
  by (simp add: subarr_def drop_take min_def add.commute)

lemma subarr_take [arr_simps]: "off + n \<le> k \<Longrightarrow> subarr off n (take k xs) = subarr off n xs"
  by (simp add: subarr_def drop_take min_def)

lemma take_overwrite [arr_simps]:
  "off + length ys \<le> k \<Longrightarrow> k \<le> length xs \<Longrightarrow> take k (overwrite off ys xs) = overwrite off ys (take k xs)"
  by (rule nth_equalityI) (auto simp: arr_simps nth_overwrite)

text \<open>Writing into an array of which the first \<open>n\<close> elements are a file.\<close>

lemma take_overwrite_extend:
  assumes "off \<le> n" "n \<le> length xs" "off + length ys \<le> length xs"
  shows "take (max n (off + length ys)) (overwrite off ys xs) = overwrite off ys (take n xs)"
proof (cases "off + length ys \<le> n")
  case True
  then show ?thesis using assms by (simp add: max_def take_overwrite)
next
  case False
  then show ?thesis using assms by (simp add: max_def overwrite_def)
qed

text \<open>Reading a block, changing part of it and writing it back changes only that part.\<close>

lemma overwrite_inner [arr_simps]:
  assumes "off + length ys \<le> n" "base + n \<le> length xs"
  shows "overwrite base (overwrite off ys (subarr base n xs)) xs = overwrite (base + off) ys xs"
proof (rule nth_equalityI)
  have l: "length (overwrite off ys (subarr base n xs)) = n"
    using assms by (simp add: arr_simps)
  show len: "length (overwrite base (overwrite off ys (subarr base n xs)) xs) = length (overwrite (base + off) ys xs)"
    using assms l by (simp add: arr_simps)
  fix i assume "i < length (overwrite base (overwrite off ys (subarr base n xs)) xs)"
  then have "i < length xs" using assms l by (simp add: arr_simps)
  then show "overwrite base (overwrite off ys (subarr base n xs)) xs ! i = overwrite (base + off) ys xs ! i"
    using assms l by (auto simp: arr_simps nth_overwrite)
qed

lemma subarr_skip [arr_simps]: "length xs \<le> off \<Longrightarrow> subarr off n (xs @ ys) = subarr (off - length xs) n ys"
  by (simp add: subarr_def)

lemma subarr_Cons [arr_simps]: "0 < off \<Longrightarrow> subarr off n (x # xs) = subarr (off - 1) n xs"
  by (cases off) (simp_all add: subarr_def)

lemma subarr_head [arr_simps]: "length xs = n \<Longrightarrow> subarr 0 n (xs @ ys) = xs"
  by (simp add: subarr_def)

lemma subarr_whole [arr_simps]: "length xs = n \<Longrightarrow> subarr 0 n xs = xs"
  by (simp add: subarr_def)

text \<open>The \<open>i\<close>-th record of a table of fixed-size records.\<close>

lemma length_concat_records: "(\<And>x. x \<in> set xs \<Longrightarrow> length (f x) = k) \<Longrightarrow> length (concat (map f xs)) = length xs * k"
  by (induction xs) auto

lemma subarr_concat_records:
  "(\<And>x. x \<in> set xs \<Longrightarrow> length (f x) = k) \<Longrightarrow> i < length xs \<Longrightarrow> subarr (i * k) k (concat (map f xs)) = f (xs ! i)"
proof (induction xs arbitrary: i)
  case (Cons x xs)
  show ?case
  proof (cases i)
    case 0
    then show ?thesis using Cons.prems by (simp add: subarr_head)
  next
    case (Suc j)
    then show ?thesis using Cons by (simp add: subarr_skip)
  qed
qed simp

lemma subarr_append_next:
  "subarr off m xs @ subarr (off + m) n xs = subarr off (m + n) xs"
  by (simp add: subarr_def take_add add.commute)

lemma subarr_overwrite_inner:
  assumes "off + length ys \<le> n" "base + n \<le> length xs"
  shows "subarr base n (overwrite (base + off) ys xs) = overwrite off ys (subarr base n xs)"
proof -
  have "overwrite (base + off) ys xs = overwrite base (overwrite off ys (subarr base n xs)) xs"
    using assms by (simp add: overwrite_inner)
  moreover have "length (overwrite off ys (subarr base n xs)) = n" using assms by (simp add: arr_simps)
  ultimately show ?thesis
    using subarr_overwrite_same [of base "overwrite off ys (subarr base n xs)" xs] assms(2) by simp
qed

text \<open>Bytes behind the end of a file that a write covers do not matter.\<close>

lemma overwrite_pad:
  "off \<le> length d \<Longrightarrow> length pad = off + length ys - length d \<Longrightarrow> overwrite off ys (d @ pad) = overwrite off ys d"
  by (cases "off + length ys \<le> length d") (simp_all add: overwrite_def)

section \<open>Table slots\<close>

text \<open>
  The allocation loops of the kernel scan a fixed table for the first slot with a given
  property. \<open>find_slot\<close> is that scan.
\<close>

fun find_slot :: "('a \<Rightarrow> bool) \<Rightarrow> 'a list \<Rightarrow> nat option" where
  "find_slot P [] = None"
| "find_slot P (x # xs) = (if P x then Some 0 else map_option Suc (find_slot P xs))"

lemma find_slot_None [slot_simps]: "find_slot P xs = None \<longleftrightarrow> (\<forall>x \<in> set xs. \<not> P x)"
  by (induction xs) auto

lemma find_slot_SomeD:
  "find_slot P xs = Some i \<Longrightarrow> i < length xs \<and> P (xs ! i) \<and> (\<forall>j < i. \<not> P (xs ! j))"
proof (induction xs arbitrary: i)
  case Nil
  then show ?case by simp
next
  case (Cons x xs)
  show ?case
  proof (cases "P x")
    case True
    with Cons.prems show ?thesis by simp
  next
    case False
    with Cons.prems obtain k where k: "find_slot P xs = Some k" "i = Suc k" by auto
    from Cons.IH [OF k(1)] k(2) False show ?thesis
      by (auto simp: less_Suc_eq_0_disj)
  qed
qed

lemma find_slot_SomeI:
  assumes "i < length xs" "P (xs ! i)" "\<And>j. j < i \<Longrightarrow> \<not> P (xs ! j)"
  shows "find_slot P xs = Some i"
proof -
  have "find_slot P xs \<noteq> None" using assms(1,2) by (auto simp: find_slot_None)
  then obtain k where k: "find_slot P xs = Some k" by blast
  then have "k = i"
    using find_slot_SomeD [OF k] assms by (cases k i rule: linorder_cases) auto
  with k show ?thesis by simp
qed

lemma find_slot_Some_iff [slot_simps]:
  "find_slot P xs = Some i \<longleftrightarrow> i < length xs \<and> P (xs ! i) \<and> (\<forall>j < i. \<not> P (xs ! j))"
proof
  assume "find_slot P xs = Some i"
  then show "i < length xs \<and> P (xs ! i) \<and> (\<forall>j < i. \<not> P (xs ! j))" by (rule find_slot_SomeD)
next
  assume "i < length xs \<and> P (xs ! i) \<and> (\<forall>j < i. \<not> P (xs ! j))"
  then show "find_slot P xs = Some i" by (intro find_slot_SomeI) auto
qed

lemma find_slot_replicate [slot_simps]:
  "find_slot P (replicate n z) = (if 0 < n \<and> P z then Some 0 else None)"
  by (cases n) (auto simp: find_slot_None)

lemma find_slot_unique:
  assumes "i < length xs" "P (xs ! i)"
    and "\<And>j. j < length xs \<Longrightarrow> P (xs ! j) \<Longrightarrow> j = i"
  shows "find_slot P xs = Some i"
proof (rule find_slot_SomeI [of i])
  show "i < length xs" by (rule assms(1))
  show "P (xs ! i)" by (rule assms(2))
  fix j assume j: "j < i"
  show "\<not> P (xs ! j)"
  proof
    assume "P (xs ! j)"
    with j assms(1) have "j = i" by (intro assms(3)) simp_all
    with j show False by simp
  qed
qed

section \<open>C strings\<close>

text \<open>
  \<open>copy_string dst_size src\<close> is what ends up in a buffer of \<open>dst_size\<close> bytes after the loop
  \<open>while (src[i] && i + 1 < dst_size) { dst[i] = src[i]; i++; } dst[i] = 0;\<close>, which the
  kernel repeats in most of its files.
\<close>

fun copy_string :: "nat \<Rightarrow> string \<Rightarrow> string" where
  "copy_string dst_size [] = []"
| "copy_string dst_size (c # cs) =
     (if 1 < dst_size then c # copy_string (dst_size - 1) cs else [])"

text \<open>The comparison loop \<open>path_equals\<close> (also \<open>string_equals\<close>, \<open>local_streq\<close>).\<close>

fun path_equals :: "string \<Rightarrow> string \<Rightarrow> bool" where
  "path_equals (a # as) (b # bs) = (if a \<noteq> b then False else path_equals as bs)"
| "path_equals as bs = (as = [] \<and> bs = [])"

lemma copy_string_take [cstr_simps]: "copy_string n s = take (n - 1) s"
proof (induction n s rule: copy_string.induct)
  case (2 n c cs)
  show ?case
  proof (cases "1 < n")
    case True
    then obtain m where "n = Suc (Suc m)" by (metis One_nat_def less_imp_Suc_add plus_1_eq_Suc)
    with 2 show ?thesis by simp
  qed simp
qed simp

lemma copy_string_fits: "length s < n \<Longrightarrow> copy_string n s = s"
  by (simp add: cstr_simps)

lemma length_copy_string: "0 < n \<Longrightarrow> length (copy_string n s) < n"
  by (simp add: cstr_simps)

lemma path_equals_eq [cstr_simps]: "path_equals a b \<longleftrightarrow> a = b"
  by (induction a b rule: path_equals.induct) auto

section \<open>Little-endian encodings\<close>

fun le_enc :: "nat \<Rightarrow> nat \<Rightarrow> bytes" where
  "le_enc 0 k = []"
| "le_enc (Suc n) k = of_nat k # le_enc n (k div 256)"

fun le_dec :: "bytes \<Rightarrow> nat" where
  "le_dec [] = 0"
| "le_dec (b # bs) = unat b + 256 * le_dec bs"

lemma length_le_enc [le_simps, simp]: "length (le_enc n k) = n"
  by (induction n arbitrary: k) auto

lemma unat_of_nat_u8: "unat (of_nat k :: u8) = k mod 256"
  by (simp add: unat_of_nat take_bit_eq_mod)

lemma le_dec_enc: "le_dec (le_enc n k) = k mod 256 ^ n"
proof (induction n arbitrary: k)
  case 0
  then show ?case by simp
next
  case (Suc n)
  have "k mod 256 ^ Suc n = k mod 256 + 256 * (k div 256 mod 256 ^ n)"
    using mod_mult2_eq [of k 256 "256 ^ n"] by (simp only: power_Suc add.commute)
  with Suc show ?case by (simp only: le_enc.simps le_dec.simps unat_of_nat_u8)
qed

lemma le_dec_enc_id [le_simps]: "k < 256 ^ n \<Longrightarrow> le_dec (le_enc n k) = k"
  by (simp add: le_dec_enc)

lemma of_nat_le_dec_enc [le_simps]:
  "LENGTH('a::len) = 8 * n \<Longrightarrow> (of_nat (le_dec (le_enc n (unat (x :: 'a word)))) :: 'a word) = x"
  using unat_less [of x] by (simp add: le_dec_enc_id power_mult)

section \<open>Character arrays\<close>

lemma of_char_u8: "unat (of_char c :: u8) = of_char c"
proof -
  have "(of_char c :: u8) = of_nat (of_char c)" by (simp add: of_nat_of_char)
  moreover have "(of_char c :: nat) < 256" by simp
  ultimately show ?thesis by (simp add: unat_of_nat_small)
qed

lemma of_char_u8_0: "(of_char c :: u8) = 0 \<longleftrightarrow> c = CHR 0x00"
proof -
  have "(of_char c :: u8) = 0 \<longleftrightarrow> unat (of_char c :: u8) = 0" by (simp only: unat_eq_zero)
  also have "\<dots> \<longleftrightarrow> (of_char c :: nat) = of_char (CHR 0x00)" by (simp add: of_char_u8)
  also have "\<dots> \<longleftrightarrow> c = CHR 0x00" by (simp only: of_char_eq_iff)
  finally show ?thesis .
qed

text \<open>A character array read as a C string, and a C string stored in an array of zeros.\<close>

definition cstr :: "bytes \<Rightarrow> string" where
  "cstr bs = map (\<lambda>b. char_of (unat b)) (takeWhile (\<lambda>b. b \<noteq> 0) bs)"

definition name_field :: "nat \<Rightarrow> string \<Rightarrow> bytes" where
  "name_field n s = (let c = copy_string n s in map of_char c @ replicate (n - length c) 0)"

lemma length_name_field: "0 < n \<Longrightarrow> length (name_field n s) = n"
  using length_copy_string [of n s] by (simp add: name_field_def Let_def)

lemma cstr_name_field:
  assumes "length s < n" "CHR 0x00 \<notin> set s"
  shows "cstr (name_field n s) = s"
proof -
  have 1: "takeWhile (\<lambda>b. b \<noteq> 0) (map of_char s @ replicate k (0 :: u8)) = map of_char s" for k
    using assms(2) by (induction s) (auto simp: of_char_u8_0)
  show ?thesis
    using assms(1) by (simp add: cstr_def name_field_def Let_def copy_string_fits 1 of_char_u8 comp_def)
qed

end
