(* ===== verification/Fifo.thy ===== *)
theory Fifo
  imports Prelude
begin

text \<open>
  Bounded first-in first-out queues: the contract that the input layer gives its readers, and the
  arithmetic of the ring buffers (an array, a head and a tail index, one slot kept empty) that
  implement it in \<open>kernel/input.c\<close>.
\<close>

section \<open>The contract\<close>

locale bounded_fifo =
  fixes contents :: "'s \<Rightarrow> 'a list"
    and invar :: "'s \<Rightarrow> bool"
    and cap :: nat
    and push :: "'a \<Rightarrow> 's \<Rightarrow> 's"
    and pop :: "'s \<Rightarrow> 'a option \<times> 's"
  assumes push_invar: "invar s \<Longrightarrow> invar (push x s)"
    and pop_invar: "invar s \<Longrightarrow> invar (snd (pop s))"
    and length_contents: "invar s \<Longrightarrow> length (contents s) \<le> cap"
    and push_room: "invar s \<Longrightarrow> length (contents s) < cap \<Longrightarrow> contents (push x s) = contents s @ [x]"
    and push_full: "invar s \<Longrightarrow> length (contents s) = cap \<Longrightarrow> contents (push x s) = contents s"
    and pop_empty: "invar s \<Longrightarrow> contents s = [] \<Longrightarrow> pop s = (None, s)"
    and pop_first: "invar s \<Longrightarrow> contents s = x # xs \<Longrightarrow>
      fst (pop s) = Some x \<and> contents (snd (pop s)) = xs"
begin

text \<open>Elements beyond the capacity are dropped, everything else is kept in order.\<close>

lemma push_all:
  assumes "invar s"
  shows "invar (fold push xs s)"
    and "contents (fold push xs s) = contents s @ take (cap - length (contents s)) xs"
proof -
  have "invar (fold push xs s) \<and>
      contents (fold push xs s) = contents s @ take (cap - length (contents s)) xs"
    using assms
  proof (induction xs arbitrary: s)
    case Nil
    then show ?case by simp
  next
    case (Cons x xs)
    show ?case
    proof (cases "length (contents s) < cap")
      case True
      have "take (cap - length (contents s)) (x # xs) = x # take (cap - Suc (length (contents s))) xs"
        using True by (simp add: take_Cons')
      with Cons True push_room [OF Cons.prems] push_invar show ?thesis by simp
    next
      case False
      with length_contents [OF Cons.prems] have "length (contents s) = cap" by simp
      with Cons push_full [OF Cons.prems] push_invar show ?thesis by simp
    qed
  qed
  then show "invar (fold push xs s)"
    and "contents (fold push xs s) = contents s @ take (cap - length (contents s)) xs"
    by simp_all
qed

fun pops :: "nat \<Rightarrow> 's \<Rightarrow> 'a list \<times> 's" where
  "pops 0 s = ([], s)"
| "pops (Suc n) s =
     (case pop s of (None, s') \<Rightarrow> ([], s') | (Some x, s') \<Rightarrow> (let (xs, t) = pops n s' in (x # xs, t)))"

lemma pops_take:
  assumes "invar s"
  shows "fst (pops n s) = take n (contents s)" "invar (snd (pops n s))"
    "contents (snd (pops n s)) = drop n (contents s)"
proof -
  have "fst (pops n s) = take n (contents s) \<and> invar (snd (pops n s)) \<and>
    contents (snd (pops n s)) = drop n (contents s)"
    using assms
  proof (induction n arbitrary: s)
    case 0
    then show ?case by simp
  next
    case (Suc n)
    show ?case
    proof (cases "contents s")
      case Nil
      with Suc.prems pop_empty show ?thesis by simp
    next
      case (Cons x xs)
      obtain s' where s': "pop s = (Some x, s')" "contents s' = xs"
        using pop_first [OF Suc.prems Cons] by (metis prod.collapse)
      have "invar s'" using pop_invar [OF Suc.prems] s' by simp
      with Suc.IH [of s'] s' Cons show ?thesis by (simp add: split_beta Let_def)
    qed
  qed
  then show "fst (pops n s) = take n (contents s)" "invar (snd (pops n s))"
    "contents (snd (pops n s)) = drop n (contents s)"
    by auto
qed

end

section \<open>Ring buffers\<close>

definition ring_count :: "nat \<Rightarrow> nat \<Rightarrow> nat \<Rightarrow> nat" where
  "ring_count n head tail = (head + n - tail) mod n"

definition ring_contents :: "nat \<Rightarrow> 'a list \<Rightarrow> nat \<Rightarrow> nat \<Rightarrow> 'a list" where
  "ring_contents n buf head tail = map (\<lambda>k. buf ! ((tail + k) mod n)) [0..<ring_count n head tail]"

definition ring_ok :: "nat \<Rightarrow> 'a list \<Rightarrow> nat \<Rightarrow> nat \<Rightarrow> bool" where
  "ring_ok n buf head tail \<longleftrightarrow> 1 < n \<and> length buf = n \<and> head < n \<and> tail < n"

lemma ring_count_alt:
  assumes "head < n" "tail < n"
  shows "ring_count n head tail = (if tail \<le> head then head - tail else n - tail + head)"
proof (cases "tail \<le> head")
  case True
  then have "head + n - tail = n + (head - tail)" using assms by simp
  then have "(head + n - tail) mod n = (head - tail) mod n" by (metis mod_add_self1)
  then show ?thesis using True assms by (simp add: ring_count_def)
next
  case False
  then show ?thesis using assms by (simp add: ring_count_def add.commute)
qed

lemma ring_count_lt: "0 < n \<Longrightarrow> ring_count n head tail < n"
  by (simp add: ring_count_def)

lemma ring_next:
  fixes head n :: nat
  assumes "head < n"
  shows "(head + 1) mod n = (if head + 1 = n then 0 else head + 1)"
  using assms by auto

lemma ring_full_iff:
  assumes "head < n" "tail < n"
  shows "(head + 1) mod n = tail \<longleftrightarrow> ring_count n head tail = n - 1"
  unfolding ring_next [OF assms(1)] ring_count_alt [OF assms] using assms by auto

lemma ring_empty_iff:
  assumes "head < n" "tail < n"
  shows "head = tail \<longleftrightarrow> ring_count n head tail = 0"
  using assms by (auto simp: ring_count_alt)

lemma ring_index_head:
  assumes "head < n" "tail < n"
  shows "(tail + ring_count n head tail) mod n = head"
  using assms by (auto simp: ring_count_alt)

lemma ring_index:
  fixes t k n :: nat
  assumes "t < n" "k < n"
  shows "(t + k) mod n = (if t + k < n then t + k else t + k - n)"
  using assms by (simp add: mod_if)

lemma ring_index_inj:
  fixes t k l n :: nat
  assumes "t < n" "k < n" "l < n" "(t + k) mod n = (t + l) mod n"
  shows "k = l"
  using assms by (auto simp: ring_index split: if_splits)

lemma ring_contents_push:
  assumes "ring_ok n buf head tail" "(head + 1) mod n \<noteq> tail"
  shows "ring_contents n (buf[head := x]) ((head + 1) mod n) tail = ring_contents n buf head tail @ [x]"
proof -
  let ?c = "ring_count n head tail"
  have ok: "1 < n" "length buf = n" "head < n" "tail < n" using assms(1) by (auto simp: ring_ok_def)
  have c: "?c < n - 1"
    using ring_count_lt [of n head tail] ring_full_iff [OF ok(3,4)] assms(2) ok(1) by linarith
  have count: "ring_count n ((head + 1) mod n) tail = Suc ?c"
    using ok assms(2) unfolding ring_next [OF ok(3)] by (auto simp: ring_count_alt)
  have old: "buf[head := x] ! ((tail + k) mod n) = buf ! ((tail + k) mod n)" if "k < ?c" for k
  proof -
    have "(tail + k) mod n \<noteq> (tail + ?c) mod n"
      using that c ok ring_index_inj [of tail n k ?c] by linarith
    then have "(tail + k) mod n \<noteq> head" using ring_index_head [OF ok(3,4)] by simp
    then show ?thesis by simp
  qed
  have new: "buf[head := x] ! ((tail + ?c) mod n) = x"
    using ok ring_index_head [OF ok(3,4)] by simp
  show ?thesis
    unfolding ring_contents_def count using old new by simp
qed

lemma ring_contents_pop:
  assumes "ring_ok n buf head tail" "head \<noteq> tail"
  shows "ring_contents n buf head tail = buf ! tail # ring_contents n buf head ((tail + 1) mod n)"
proof -
  have ok: "1 < n" "length buf = n" "head < n" "tail < n" using assms(1) by (auto simp: ring_ok_def)
  have count: "ring_count n head tail = Suc (ring_count n head ((tail + 1) mod n))"
    using ok assms(2) unfolding ring_next [OF ok(4)] by (auto simp: ring_count_alt)
  have "((tail + 1) mod n + k) mod n = (tail + Suc k) mod n" for k
    by (simp add: mod_add_left_eq)
  then show ?thesis
    using ok by (simp add: ring_contents_def count upt_conv_Cons map_Suc_upt [symmetric] del: upt_Suc)
qed

lemma ring_contents_empty: "ring_ok n buf head tail \<Longrightarrow> ring_contents n buf head tail = [] \<longleftrightarrow> head = tail"
  using ring_empty_iff [of head n tail] by (auto simp: ring_contents_def ring_ok_def)

lemma length_ring_contents: "length (ring_contents n buf head tail) = ring_count n head tail"
  by (simp add: ring_contents_def)

text \<open>The newest element sits just below the head index, and can be rewritten in place.\<close>

lemma ring_contents_last:
  assumes "ring_ok n buf head tail" "head \<noteq> tail"
  shows "ring_contents n buf head tail \<noteq> []"
    and "last (ring_contents n buf head tail) = buf ! ((head + n - 1) mod n)"
    and "ring_contents n (buf[(head + n - 1) mod n := x]) head tail =
      butlast (ring_contents n buf head tail) @ [x]"
proof -
  obtain c where c: "ring_count n head tail = Suc c"
    using ring_empty_iff [of head n tail] assms by (auto simp: ring_ok_def gr0_conv_Suc)
  have ok: "1 < n" "length buf = n" "head < n" "tail < n" using assms(1) by (auto simp: ring_ok_def)
  have "(head + n - 1) mod n = (if head = 0 then n - 1 else head - 1)"
    using ok by (auto simp: mod_if)
  then have p: "(head + n - 1) mod n = (tail + c) mod n"
    using ring_index_head [OF ok(3,4)] ring_count_lt [of n head tail] ok
    unfolding c by (auto simp: mod_if split: if_splits)
  have cn: "c < n" using ring_count_lt [of n head tail] ok(1) unfolding c by simp
  have old: "buf[(tail + c) mod n := x] ! ((tail + k) mod n) = buf ! ((tail + k) mod n)" if "k < c" for k
    using that cn ok ring_index_inj [of tail n k c] by (metis less_irrefl less_trans nth_list_update_neq)
  show "ring_contents n buf head tail \<noteq> []"
    and "last (ring_contents n buf head tail) = buf ! ((head + n - 1) mod n)"
    unfolding p by (simp_all add: ring_contents_def c)
  show "ring_contents n (buf[(head + n - 1) mod n := x]) head tail =
      butlast (ring_contents n buf head tail) @ [x]"
    unfolding ring_contents_def c p using ok old by (simp add: butlast_append)
qed

end
