(* ===== verification/Input.thy ===== *)
theory Input
  imports Fifo
begin

text \<open>
  The kernel input layer, \<open>kernel/input.c\<close>: a ring of 128 input events and a ring of 1024
  terminal bytes. Both keep one slot empty, drop the newest element when full, and are filled by
  the keyboard, USB and mouse drivers. Pointer motion is merged into the last queued event.

  The indices are \<open>uint32_t\<close> in the code; they stay below the queue sizes, so no arithmetic on
  them wraps. Pointer coordinates are 32-bit words: the additions wrap as the machine's do.
\<close>

definition INPUT_EVENT_QUEUE_SIZE :: nat where "INPUT_EVENT_QUEUE_SIZE = 128"
definition INPUT_TTY_QUEUE_SIZE :: nat where "INPUT_TTY_QUEUE_SIZE = 1024"
definition AOS_KEY_POINTER :: u16 where "AOS_KEY_POINTER = 0x100"

record aos_input_event =
  key :: u16
  ascii :: char
  pressed :: u8
  modifiers :: u8
  source :: u8
  pointer_x :: u32
  pointer_y :: u32
  pointer_dx :: u32
  pointer_dy :: u32
  pointer_buttons :: u32

record input_state =
  event_queue :: "aos_input_event list"
  event_head :: nat
  event_tail :: nat
  tty_queue :: "char list"
  tty_head :: nat
  tty_tail :: nat

definition NUL :: char where "NUL = CHR 0x00"

definition input_init :: "input_state \<Rightarrow> input_state" where
  "input_init s = s\<lparr>event_head := 0, event_tail := 0, tty_head := 0, tty_tail := 0\<rparr>"

definition input_queue_event :: "aos_input_event \<Rightarrow> input_state \<Rightarrow> input_state" where
  "input_queue_event event s =
     (let next = (event_head s + 1) mod INPUT_EVENT_QUEUE_SIZE
      in if next \<noteq> event_tail s
         then s\<lparr>event_queue := (event_queue s)[event_head s := event], event_head := next\<rparr>
         else s)"

text \<open>The result is the C return value: whether the event was merged.\<close>

definition input_coalesce_pointer :: "aos_input_event \<Rightarrow> input_state \<Rightarrow> bool \<times> input_state" where
  "input_coalesce_pointer event s =
     (if event_head s = event_tail s then (False, s)
      else let previous_index = (event_head s + INPUT_EVENT_QUEUE_SIZE - 1) mod INPUT_EVENT_QUEUE_SIZE;
               previous = event_queue s ! previous_index
           in if key previous \<noteq> AOS_KEY_POINTER \<or> source previous \<noteq> source event \<or>
                 pointer_buttons previous \<noteq> pointer_buttons event
              then (False, s)
              else (True, s\<lparr>event_queue := (event_queue s)[previous_index :=
                      previous\<lparr>pointer_dx := pointer_dx previous + pointer_dx event,
                               pointer_dy := pointer_dy previous + pointer_dy event,
                               pointer_x := pointer_x event, pointer_y := pointer_y event\<rparr>]\<rparr>))"

definition input_queue_tty_byte :: "char \<Rightarrow> input_state \<Rightarrow> input_state" where
  "input_queue_tty_byte c s =
     (let next = (tty_head s + 1) mod INPUT_TTY_QUEUE_SIZE
      in if next \<noteq> tty_tail s
         then s\<lparr>tty_queue := (tty_queue s)[tty_head s := c], tty_head := next\<rparr>
         else s)"

definition key_event :: "u8 \<Rightarrow> u16 \<Rightarrow> char \<Rightarrow> u8 \<Rightarrow> u8 \<Rightarrow> aos_input_event" where
  "key_event src k c prs mods =
     \<lparr>key = k, ascii = c, pressed = (if prs \<noteq> 0 then 1 else 0), modifiers = mods, source = src,
      pointer_x = 0, pointer_y = 0, pointer_dx = 0, pointer_dy = 0, pointer_buttons = 0\<rparr>"

definition input_push_key :: "u8 \<Rightarrow> u16 \<Rightarrow> char \<Rightarrow> u8 \<Rightarrow> u8 \<Rightarrow> input_state \<Rightarrow> input_state" where
  "input_push_key src k c prs mods s =
     (let event = key_event src k c prs mods;
          s = input_queue_event event s
      in if pressed event \<noteq> 0 \<and> c \<noteq> NUL then input_queue_tty_byte c s else s)"

definition input_push_char :: "u8 \<Rightarrow> char \<Rightarrow> input_state \<Rightarrow> input_state" where
  "input_push_char src c s = input_push_key src (of_char c) c 1 0 s"

definition pointer_event :: "u8 \<Rightarrow> u32 \<Rightarrow> u32 \<Rightarrow> u32 \<Rightarrow> u32 \<Rightarrow> u32 \<Rightarrow> aos_input_event" where
  "pointer_event src x y dx dy buttons =
     \<lparr>key = AOS_KEY_POINTER, ascii = NUL, pressed = (if buttons \<noteq> 0 then 1 else 0), modifiers = 0,
      source = src, pointer_x = x, pointer_y = y, pointer_dx = dx, pointer_dy = dy,
      pointer_buttons = buttons\<rparr>"

definition input_push_pointer :: "u8 \<Rightarrow> u32 \<Rightarrow> u32 \<Rightarrow> u32 \<Rightarrow> u32 \<Rightarrow> u32 \<Rightarrow> input_state \<Rightarrow> input_state" where
  "input_push_pointer src x y dx dy buttons s =
     (let event = pointer_event src x y dx dy buttons
      in case input_coalesce_pointer event s of
           (True, s') \<Rightarrow> s'
         | (False, s') \<Rightarrow> input_queue_event event s')"

text \<open>The first argument says whether the caller's pointer \<open>out\<close> is non-null; the event it receives
  and the return value are one \<open>option\<close>.\<close>

definition input_pop_event :: "bool \<Rightarrow> input_state \<Rightarrow> aos_input_event option \<times> input_state" where
  "input_pop_event out s =
     (if event_head s = event_tail s \<or> \<not> out then (None, s)
      else (Some (event_queue s ! event_tail s),
            s\<lparr>event_tail := (event_tail s + 1) mod INPUT_EVENT_QUEUE_SIZE\<rparr>))"

definition input_clear_events :: "input_state \<Rightarrow> input_state" where
  "input_clear_events s = s\<lparr>event_tail := event_head s\<rparr>"

definition input_read_tty_byte :: "input_state \<Rightarrow> char \<times> input_state" where
  "input_read_tty_byte s =
     (if tty_head s = tty_tail s then (NUL, s)
      else (tty_queue s ! tty_tail s, s\<lparr>tty_tail := (tty_tail s + 1) mod INPUT_TTY_QUEUE_SIZE\<rparr>))"

definition input_tty_pending :: "input_state \<Rightarrow> nat" where
  "input_tty_pending s =
     (if tty_head s \<ge> tty_tail s then tty_head s - tty_tail s
      else INPUT_TTY_QUEUE_SIZE - tty_tail s + tty_head s)"

section \<open>Queue contents and invariant\<close>

definition event_list :: "input_state \<Rightarrow> aos_input_event list" where
  "event_list s = ring_contents INPUT_EVENT_QUEUE_SIZE (event_queue s) (event_head s) (event_tail s)"

definition tty_list :: "input_state \<Rightarrow> char list" where
  "tty_list s = ring_contents INPUT_TTY_QUEUE_SIZE (tty_queue s) (tty_head s) (tty_tail s)"

definition input_ok :: "input_state \<Rightarrow> bool" where
  "input_ok s \<longleftrightarrow>
     ring_ok INPUT_EVENT_QUEUE_SIZE (event_queue s) (event_head s) (event_tail s) \<and>
     ring_ok INPUT_TTY_QUEUE_SIZE (tty_queue s) (tty_head s) (tty_tail s)"

text \<open>Popping a terminal byte, with the empty queue told apart from a stored NUL.\<close>

definition tty_pop :: "input_state \<Rightarrow> char option \<times> input_state" where
  "tty_pop s = (if tty_head s = tty_tail s then None else Some (fst (input_read_tty_byte s)),
                snd (input_read_tty_byte s))"

lemmas queue_sizes = INPUT_EVENT_QUEUE_SIZE_def INPUT_TTY_QUEUE_SIZE_def

lemma ring_ok_step:
  "ring_ok n buf h t \<Longrightarrow> ring_ok n (buf[h := x]) ((h + 1) mod n) t"
  "ring_ok n buf h t \<Longrightarrow> ring_ok n buf h ((t + 1) mod n)"
  "ring_ok n buf h t \<Longrightarrow> ring_ok n (buf[i := x]) h t"
  by (simp_all add: ring_ok_def)

lemma input_ok_steps:
  assumes "input_ok s"
  shows "input_ok (input_queue_event e s)" "input_ok (input_queue_tty_byte c s)"
    "input_ok (snd (input_pop_event out s))" "input_ok (snd (input_read_tty_byte s))"
    "input_ok (snd (input_coalesce_pointer e s))" "input_ok (input_clear_events s)"
  using assms
  by (auto simp: input_ok_def input_queue_event_def input_queue_tty_byte_def input_pop_event_def
      input_read_tty_byte_def input_coalesce_pointer_def input_clear_events_def Let_def
      intro: ring_ok_step simp: ring_ok_def)

interpretation evq: bounded_fifo event_list input_ok "INPUT_EVENT_QUEUE_SIZE - 1" input_queue_event "input_pop_event True"
proof
  fix s :: input_state and x :: aos_input_event and xs
  assume ok: "input_ok s"
  then have r: "ring_ok INPUT_EVENT_QUEUE_SIZE (event_queue s) (event_head s) (event_tail s)"
    by (simp add: input_ok_def)
  then have bounds: "event_head s < INPUT_EVENT_QUEUE_SIZE" "event_tail s < INPUT_EVENT_QUEUE_SIZE"
    by (simp_all add: ring_ok_def)
  note full = ring_full_iff [OF bounds]
  show "input_ok (input_queue_event x s)" "input_ok (snd (input_pop_event True s))"
    by (simp_all add: input_ok_steps [OF ok])
  show "length (event_list s) \<le> INPUT_EVENT_QUEUE_SIZE - 1"
    using ring_count_lt [of INPUT_EVENT_QUEUE_SIZE "event_head s" "event_tail s"]
    by (simp add: event_list_def length_ring_contents queue_sizes)
  show "length (event_list s) < INPUT_EVENT_QUEUE_SIZE - 1 \<Longrightarrow>
      event_list (input_queue_event x s) = event_list s @ [x]"
    using full ring_contents_push [OF r]
    by (auto simp: event_list_def length_ring_contents input_queue_event_def Let_def)
  show "length (event_list s) = INPUT_EVENT_QUEUE_SIZE - 1 \<Longrightarrow>
      event_list (input_queue_event x s) = event_list s"
    using full by (auto simp: event_list_def length_ring_contents input_queue_event_def Let_def)
  show "event_list s = [] \<Longrightarrow> input_pop_event True s = (None, s)"
    using ring_contents_empty [OF r] by (simp add: event_list_def input_pop_event_def)
  show "event_list s = x # xs \<Longrightarrow>
      fst (input_pop_event True s) = Some x \<and> event_list (snd (input_pop_event True s)) = xs"
    using ring_contents_pop [OF r] ring_contents_empty [OF r]
    by (auto simp: event_list_def input_pop_event_def)
qed

interpretation ttyq: bounded_fifo tty_list input_ok "INPUT_TTY_QUEUE_SIZE - 1" input_queue_tty_byte tty_pop
proof
  fix s :: input_state and x :: char and xs
  assume ok: "input_ok s"
  then have r: "ring_ok INPUT_TTY_QUEUE_SIZE (tty_queue s) (tty_head s) (tty_tail s)"
    by (simp add: input_ok_def)
  then have bounds: "tty_head s < INPUT_TTY_QUEUE_SIZE" "tty_tail s < INPUT_TTY_QUEUE_SIZE"
    by (simp_all add: ring_ok_def)
  note full = ring_full_iff [OF bounds]
  show "input_ok (input_queue_tty_byte x s)" "input_ok (snd (tty_pop s))"
    by (simp_all add: input_ok_steps [OF ok] tty_pop_def)
  show "length (tty_list s) \<le> INPUT_TTY_QUEUE_SIZE - 1"
    using ring_count_lt [of INPUT_TTY_QUEUE_SIZE "tty_head s" "tty_tail s"]
    by (simp add: tty_list_def length_ring_contents queue_sizes)
  show "length (tty_list s) < INPUT_TTY_QUEUE_SIZE - 1 \<Longrightarrow>
      tty_list (input_queue_tty_byte x s) = tty_list s @ [x]"
    using full ring_contents_push [OF r]
    by (auto simp: tty_list_def length_ring_contents input_queue_tty_byte_def Let_def)
  show "length (tty_list s) = INPUT_TTY_QUEUE_SIZE - 1 \<Longrightarrow>
      tty_list (input_queue_tty_byte x s) = tty_list s"
    using full by (auto simp: tty_list_def length_ring_contents input_queue_tty_byte_def Let_def)
  show "tty_list s = [] \<Longrightarrow> tty_pop s = (None, s)"
    using ring_contents_empty [OF r] by (simp add: tty_list_def tty_pop_def input_read_tty_byte_def)
  show "tty_list s = x # xs \<Longrightarrow> fst (tty_pop s) = Some x \<and> tty_list (snd (tty_pop s)) = xs"
    using ring_contents_pop [OF r] ring_contents_empty [OF r]
    by (auto simp: tty_list_def tty_pop_def input_read_tty_byte_def)
qed

lemma queue_independent:
  "tty_list (input_queue_event e s) = tty_list s"
  "event_list (input_queue_tty_byte c s) = event_list s"
  "tty_list (snd (input_pop_event out s)) = tty_list s"
  "event_list (snd (input_read_tty_byte s)) = event_list s"
  by (simp_all add: tty_list_def event_list_def input_queue_event_def input_queue_tty_byte_def
      input_pop_event_def input_read_tty_byte_def Let_def)

lemma input_tty_pending_length:
  "input_ok s \<Longrightarrow> input_tty_pending s = length (tty_list s)"
  by (auto simp: input_ok_def tty_list_def length_ring_contents input_tty_pending_def ring_count_alt
      ring_ok_def)

section \<open>Typing\<close>

definition char_event :: "u8 \<Rightarrow> char \<Rightarrow> aos_input_event" where
  "char_event src c = key_event src (of_char c) c 1 0"

lemma input_push_char_split:
  "c \<noteq> NUL \<Longrightarrow> input_push_char src c s = input_queue_tty_byte c (input_queue_event (char_event src c) s)"
  by (simp add: input_push_char_def input_push_key_def Let_def key_event_def char_event_def)

lemma queue_commute:
  "input_queue_event e (input_queue_tty_byte c s) = input_queue_tty_byte c (input_queue_event e s)"
  by (simp add: input_queue_event_def input_queue_tty_byte_def Let_def)

lemma queue_event_fold_tty:
  "input_queue_event e (fold input_queue_tty_byte cs s) = fold input_queue_tty_byte cs (input_queue_event e s)"
  by (induction cs arbitrary: s) (simp_all add: queue_commute)

lemma fold_input_push_char:
  assumes "NUL \<notin> set cs"
  shows "fold (input_push_char src) cs s =
    fold input_queue_tty_byte cs (fold input_queue_event (map (char_event src) cs) s)"
  using assms
proof (induction cs arbitrary: s)
  case (Cons c cs)
  have "fold input_queue_event es (input_queue_tty_byte c t) =
      input_queue_tty_byte c (fold input_queue_event es t)" for es t
    by (induction es arbitrary: t) (simp_all add: queue_commute)
  moreover have "c \<noteq> NUL" using Cons.prems by auto
  ultimately show ?case using Cons by (simp add: input_push_char_split)
qed simp

lemma fold_queue_independent:
  "tty_list (fold input_queue_event es s) = tty_list s"
  "event_list (fold input_queue_tty_byte cs s) = event_list s"
  by (induction es arbitrary: s, simp_all add: queue_independent)
    (induction cs arbitrary: s, simp_all add: queue_independent)

definition empty_input :: input_state where
  "empty_input = \<lparr>event_queue = replicate 128 (key_event 0 0 NUL 0 0), event_head = 0, event_tail = 0,
     tty_queue = replicate 1024 NUL, tty_head = 0, tty_tail = 0\<rparr>"

lemma empty_input_ok [simp]: "input_ok empty_input" "tty_list empty_input = []" "event_list empty_input = []"
  by (simp_all add: empty_input_def input_ok_def ring_ok_def queue_sizes tty_list_def event_list_def
      ring_contents_def ring_count_def)

text \<open>
  C25. Typed characters reach both queues in typing order. Whatever was queued stays first, the
  newest characters are the ones dropped when a queue is full (127 events, 1023 bytes), and the
  pending count reported to readers is the number of bytes queued.\<close>

theorem input_typed_in_order:
  assumes "input_ok s" and "NUL \<notin> set cs"
  shows "input_ok (fold (input_push_char src) cs s) \<and>
    tty_list (fold (input_push_char src) cs s) = tty_list s @ take (1023 - length (tty_list s)) cs \<and>
    event_list (fold (input_push_char src) cs s) =
      event_list s @ take (127 - length (event_list s)) (map (char_event src) cs) \<and>
    input_tty_pending (fold (input_push_char src) cs s) = min 1023 (length (tty_list s) + length cs)"
proof -
  define t where "t = fold input_queue_event (map (char_event src) cs) s"
  have ok: "input_ok t" "event_list t = event_list s @ take (127 - length (event_list s)) (map (char_event src) cs)"
    using evq.push_all [OF assms(1)] by (simp_all add: t_def queue_sizes)
  have tl: "tty_list t = tty_list s" by (simp add: t_def fold_queue_independent)
  have eq: "fold (input_push_char src) cs s = fold input_queue_tty_byte cs t"
    using fold_input_push_char [OF assms(2)] by (simp add: t_def)
  have r: "input_ok (fold input_queue_tty_byte cs t)"
    "tty_list (fold input_queue_tty_byte cs t) = tty_list s @ take (1023 - length (tty_list s)) cs"
    using ttyq.push_all [OF ok(1)] by (simp_all add: queue_sizes tl)
  have "length (tty_list s) \<le> 1023" using ttyq.length_contents [OF assms(1)] by (simp add: queue_sizes)
  then have "length (tty_list s @ take (1023 - length (tty_list s)) cs) = min 1023 (length (tty_list s) + length cs)"
    by auto
  with r show ?thesis
    by (simp only: eq ok(2) fold_queue_independent input_tty_pending_length simp_thms)
qed

theorem input_typed_in_order_witness:
  "tty_list (fold (input_push_char 1) ''ls'' empty_input) = ''ls'' \<and>
   input_tty_pending (fold (input_push_char 1) ''ls'' empty_input) = 2"
  using input_typed_in_order [of empty_input "''ls''" 1] by (simp add: NUL_def)

section \<open>Pointer motion\<close>

lemma coalesce_step:
  assumes "input_ok s"
  shows "fst (input_coalesce_pointer e s) \<longleftrightarrow>
      event_list s \<noteq> [] \<and> (let p = last (event_list s) in key p = AOS_KEY_POINTER \<and>
        source p = source e \<and> pointer_buttons p = pointer_buttons e)" (is "_ \<longleftrightarrow> ?c")
    and "\<not> fst (input_coalesce_pointer e s) \<Longrightarrow> snd (input_coalesce_pointer e s) = s"
    and "fst (input_coalesce_pointer e s) \<Longrightarrow>
      event_list (snd (input_coalesce_pointer e s)) = butlast (event_list s) @
        [(last (event_list s))\<lparr>pointer_dx := pointer_dx (last (event_list s)) + pointer_dx e,
            pointer_dy := pointer_dy (last (event_list s)) + pointer_dy e,
            pointer_x := pointer_x e, pointer_y := pointer_y e\<rparr>]"
proof -
  have r: "ring_ok INPUT_EVENT_QUEUE_SIZE (event_queue s) (event_head s) (event_tail s)"
    using assms by (simp add: input_ok_def)
  note last = ring_contents_last [OF r]
  show "fst (input_coalesce_pointer e s) \<longleftrightarrow> ?c"
    using last(1,2) ring_contents_empty [OF r]
    by (auto simp: input_coalesce_pointer_def event_list_def Let_def)
  show "\<not> fst (input_coalesce_pointer e s) \<Longrightarrow> snd (input_coalesce_pointer e s) = s"
    by (auto simp: input_coalesce_pointer_def Let_def split: if_splits)
  show "fst (input_coalesce_pointer e s) \<Longrightarrow>
      event_list (snd (input_coalesce_pointer e s)) = butlast (event_list s) @
        [(last (event_list s))\<lparr>pointer_dx := pointer_dx (last (event_list s)) + pointer_dx e,
            pointer_dy := pointer_dy (last (event_list s)) + pointer_dy e,
            pointer_x := pointer_x e, pointer_y := pointer_y e\<rparr>]"
    using last by (auto simp: input_coalesce_pointer_def event_list_def Let_def split: if_splits)
qed

lemma input_push_pointer_cases:
  "input_push_pointer src x y dx dy b s =
    (let e = pointer_event src x y dx dy b
     in if fst (input_coalesce_pointer e s) then snd (input_coalesce_pointer e s)
        else input_queue_event e (snd (input_coalesce_pointer e s)))"
  by (simp add: input_push_pointer_def Let_def split: prod.splits bool.splits)

lemma sum_list_butlast_last:
  fixes f :: "'a \<Rightarrow> 'b :: len word"
  assumes "xs \<noteq> []"
  shows "sum_list (map f xs) = sum_list (map f (butlast xs)) + f (last xs)"
  using assms by (induction xs) auto



end
