(* ===== verification/Tty.thy ===== *)
theory Tty
  imports Input
begin

text \<open>
  The terminal, \<open>kernel/tty.c\<close>: line reads from the input layer's byte queue, and output with
  embedded colour commands to the serial port and to the console.

  The console output is the list of calls made on the text display. Writing past the end of the
  local array \<open>out\<close> of \<open>tty_console_write\<close> is the value \<open>None\<close>. Waiting for a key
  (\<open>keyboard_handler_main\<close> followed by a halt) is an action on the hardware: it is a parameter
  that takes a hardware state \<open>'h\<close> and the queues to new ones.
\<close>

definition TTY_ESC :: char where "TTY_ESC = CHR 0x1B"
definition TTY_CMD_COLOR :: char where "TTY_CMD_COLOR = CHR ''C''"
definition TTY_CMD_RESET :: char where "TTY_CMD_RESET = CHR ''R''"
definition TTY_CMD_CLEAR :: char where "TTY_CMD_CLEAR = CHR ''L''"
definition AOS_INPUT_SOURCE_PS2 :: u8 where "AOS_INPUT_SOURCE_PS2 = 1"

lemmas tty_consts = TTY_ESC_def TTY_CMD_COLOR_def TTY_CMD_RESET_def TTY_CMD_CLEAR_def

datatype vga_op = Vga_clear u8 | Vga_write string u8

type_synonym 'h key_wait = "'h \<Rightarrow> input_state \<Rightarrow> 'h \<times> input_state"

definition tty_default_color :: u8 where "tty_default_color = 0x0F"

definition tty_init :: "u8 \<Rightarrow> u8" where
  "tty_init tty_output_color = 0x0F"

definition tty_keyboard_input :: "char \<Rightarrow> input_state \<Rightarrow> input_state" where
  "tty_keyboard_input c s = input_push_char AOS_INPUT_SOURCE_PS2 c s"

definition tty_read_byte :: "input_state \<Rightarrow> char \<times> input_state" where
  "tty_read_byte s = input_read_tty_byte s"

definition tty_pending :: "input_state \<Rightarrow> nat" where
  "tty_pending s = input_tty_pending s"

definition is_eol :: "char \<Rightarrow> bool" where
  "is_eol c \<longleftrightarrow> c = CHR 0x0A \<or> c = CHR 0x0D"

partial_function (option) tty_read_loop ::
  "'h key_wait \<Rightarrow> nat \<Rightarrow> string \<Rightarrow> 'h \<Rightarrow> input_state \<Rightarrow> (string \<times> 'h \<times> input_state) option" where
  "tty_read_loop wait len buf h s =
     (if length buf < len
      then case tty_read_byte s of (c, s') \<Rightarrow>
        if c = NUL
        then (if buf = [] then (case wait h s' of (h', s'') \<Rightarrow> tty_read_loop wait len buf h' s'')
              else Some (buf, h, s'))
        else if is_eol c then Some (buf @ [c], h, s')
        else tty_read_loop wait len (buf @ [c]) h s'
      else Some (buf, h, s))"

text \<open>The bytes stored in the caller's buffer, whose number is the return value.\<close>

definition tty_read :: "'h key_wait \<Rightarrow> bool \<Rightarrow> nat \<Rightarrow> 'h \<Rightarrow> input_state \<Rightarrow> (string \<times> 'h \<times> input_state) option" where
  "tty_read wait buf len h s = (if \<not> buf \<or> len = 0 then Some ([], h, s) else tty_read_loop wait len [] h s)"

fun tty_serial_write :: "string \<Rightarrow> string" where
  "tty_serial_write [] = []"
| "tty_serial_write (c # rest) =
     (if c = NUL then []
      else if c = TTY_ESC \<and> rest \<noteq> [] then
        (let cmd = hd rest; rest' = tl rest
         in if cmd = TTY_CMD_COLOR then tty_serial_write (tl rest')
            else if cmd = TTY_CMD_RESET \<or> cmd = TTY_CMD_CLEAR then tty_serial_write rest'
            else c # tty_serial_write rest')
      else c # tty_serial_write rest)"

definition TTY_OUT_SIZE :: nat where "TTY_OUT_SIZE = 128"

text \<open>The inner loop of \<open>tty_console_write\<close>: the unread input, the array \<open>out\<close> filled so far, the
  colour, and the display calls made. \<open>out[out_len++] = c\<close> beyond the array is \<open>None\<close>.\<close>

fun console_fill :: "string \<Rightarrow> string \<Rightarrow> u8 \<Rightarrow> vga_op list \<Rightarrow> (string \<times> string \<times> u8 \<times> vga_op list) option" where
  "console_fill [] out col ops = Some ([], out, col, ops)"
| "console_fill (c # rest) out col ops =
     (if \<not> length out + 1 < TTY_OUT_SIZE then Some (c # rest, out, col, ops)
      else if c = NUL then Some (rest, out, col, ops)
      else if c = TTY_ESC \<and> rest \<noteq> [] then
        (let cmd = hd rest; rest' = tl rest
         in if cmd = TTY_CMD_COLOR then
              console_fill (tl rest') out (if rest' \<noteq> [] then of_char (hd rest') else col) ops
            else if cmd = TTY_CMD_RESET then console_fill rest' out 0x0F ops
            else if cmd = TTY_CMD_CLEAR then console_fill rest' out 0x0F (ops @ [Vga_clear col])
            else if length out + 2 > TTY_OUT_SIZE then None
            else console_fill rest' (out @ [c, cmd]) col ops)
      else console_fill rest (out @ [c]) col ops)"

lemma console_fill_length:
  "console_fill buf out col ops = Some (rest, out', col', ops') \<Longrightarrow> length rest \<le> length buf"
  by (induction buf out col ops rule: console_fill.induct)
    (fastforce split: if_splits list.splits simp: Let_def)+

lemma console_fill_progress:
  assumes "console_fill (c # buf) [] col ops = Some (rest, out', col', ops')"
  shows "length rest < Suc (length buf)"
  using assms
  by (auto simp: TTY_OUT_SIZE_def Let_def split: if_splits list.splits dest!: console_fill_length)

function console_loop :: "string \<Rightarrow> u8 \<Rightarrow> vga_op list \<Rightarrow> (vga_op list \<times> u8) option" where
  "console_loop buf col ops =
     (if buf = [] then Some (ops, col)
      else case console_fill buf [] col ops of
          None \<Rightarrow> None
        | Some (rest, out, col', ops') \<Rightarrow>
            if length out > 0
            then (if length out \<ge> TTY_OUT_SIZE then None
                  else console_loop rest col' (ops' @ [Vga_write out col']))
            else console_loop rest col' ops')"
  by auto
termination
proof (relation "measure (\<lambda>(buf, _, _). length buf)", goal_cases)
  case 1
  then show ?case by simp
next
  case (2 buf col ops p rest p' out p'' col' ops')
  then show ?case by (cases buf) (auto simp del: console_fill.simps dest: console_fill_progress)
next
  case (3 buf col ops p rest p' out p'' col' ops')
  then show ?case by (cases buf) (auto simp del: console_fill.simps dest: console_fill_progress)
qed

definition tty_console_write :: "string \<Rightarrow> u8 \<Rightarrow> (vga_op list \<times> u8) option" where
  "tty_console_write buf tty_output_color = console_loop buf tty_output_color []"

text \<open>The count returned, the bytes sent to the serial port, the display calls and the new colour.
  \<open>buf\<close> is the memory the pointer refers to, at least \<open>len\<close> bytes of it.\<close>

definition tty_write :: "string option \<Rightarrow> nat \<Rightarrow> u8 \<Rightarrow> (nat \<times> string \<times> vga_op list \<times> u8) option" where
  "tty_write buf len tty_output_color =
     (case buf of None \<Rightarrow> Some (0, [], [], tty_output_color)
      | Some bytes \<Rightarrow>
          if len = 0 then Some (0, [], [], tty_output_color)
          else let len = (if len > 4096 then 4096 else len); bytes = take len bytes
               in case tty_console_write bytes tty_output_color of
                    None \<Rightarrow> None
                  | Some (ops, col) \<Rightarrow> Some (len, tty_serial_write bytes, ops, col))"

text \<open>Rows and columns of the display mode, \<open>vga_get_display_mode\<close>, cut to 16 bits.\<close>

definition tty_get_winsize :: "u32 \<Rightarrow> u32 \<Rightarrow> u16 \<times> u16" where
  "tty_get_winsize vga_mode_cols vga_mode_rows = (ucast vga_mode_rows, ucast vga_mode_cols)"

section \<open>Reading lines\<close>

text \<open>What a read of at most \<open>n\<close> bytes takes from the queued bytes: up to and including the first
  line end.\<close>

fun first_line :: "nat \<Rightarrow> string \<Rightarrow> string" where
  "first_line 0 cs = []"
| "first_line (Suc n) [] = []"
| "first_line (Suc n) (c # cs) = (if is_eol c then [c] else c # first_line n cs)"

lemma tty_read_byte_empty: "input_ok s \<Longrightarrow> tty_list s = [] \<Longrightarrow> tty_read_byte s = (NUL, s)"
  using ttyq.pop_empty [of s]
  by (auto simp: tty_read_byte_def tty_pop_def input_read_tty_byte_def split: if_splits)

lemma tty_read_byte_first:
  assumes "input_ok s" "tty_list s = c # cs"
  obtains s' where "tty_read_byte s = (c, s')" "input_ok s'" "tty_list s' = cs"
  using ttyq.pop_first [OF assms] ttyq.pop_invar [OF assms(1)]
  by (cases "input_read_tty_byte s") (auto simp: tty_read_byte_def tty_pop_def split: if_splits)

lemma tty_read_loop_line:
  assumes "input_ok s" "NUL \<notin> set (tty_list s)" "buf \<noteq> [] \<or> tty_list s \<noteq> []"
  shows "\<exists>s'. tty_read_loop wait len buf h s = Some (buf @ first_line (len - length buf) (tty_list s), h, s') \<and>
    input_ok s' \<and> tty_list s' = drop (length (first_line (len - length buf) (tty_list s))) (tty_list s)"
  using assms
proof (induction "tty_list s" arbitrary: buf s)
  case Nil
  then show ?case
    by (cases "length buf < len")
      (auto simp: tty_read_loop.simps [of wait len buf h s] tty_read_byte_empty first_line.simps neq_Nil_conv
        dest!: less_imp_Suc_add)
next
  case (Cons c cs)
  note tl = Cons.hyps(2) [symmetric]
  show ?case
  proof (cases "length buf < len")
    case False
    then show ?thesis using Cons.prems by (simp add: tty_read_loop.simps [of wait len buf h s])
  next
    case True
    then obtain n where n: "len - length buf = Suc n" by (metis Suc_diff_Suc)
    obtain s' where s': "tty_read_byte s = (c, s')" "input_ok s'" "tty_list s' = cs"
      using tty_read_byte_first [OF Cons.prems(1) tl] by blast
    have c: "c \<noteq> NUL" using Cons.prems(2) tl by auto
    have step: "tty_read_loop wait len buf h s = (if is_eol c then Some (buf @ [c], h, s')
        else tty_read_loop wait len (buf @ [c]) h s')"
      using True c by (simp add: tty_read_loop.simps [of wait len buf h s] s'(1))
    have n': "len - length (buf @ [c]) = n" using n by simp
    show ?thesis
    proof (cases "is_eol c")
      case True
      then show ?thesis using s' by (simp add: step n tl)
    next
      case False
      have "NUL \<notin> set (tty_list s')" using Cons.prems(2) tl s'(3) by auto
      from Cons.hyps(1) [OF s'(3) [symmetric] s'(2) this, of "buf @ [c]"]
      show ?thesis using False by (simp add: step n tl s'(3) n' del: length_append)
    qed
  qed
qed

text \<open>Waiting \<open>k\<close> times for a key.\<close>

fun waits :: "'h key_wait \<Rightarrow> nat \<Rightarrow> 'h \<Rightarrow> input_state \<Rightarrow> 'h \<times> input_state" where
  "waits wait 0 h s = (h, s)"
| "waits wait (Suc k) h s = (case wait h s of (h', s') \<Rightarrow> waits wait k h' s')"

text \<open>The queue stays empty during the first \<open>k\<close> waits.\<close>

fun idle :: "'h key_wait \<Rightarrow> nat \<Rightarrow> 'h \<Rightarrow> input_state \<Rightarrow> bool" where
  "idle wait 0 h s \<longleftrightarrow> True"
| "idle wait (Suc k) h s \<longleftrightarrow> input_ok s \<and> tty_list s = [] \<and> (case wait h s of (h', s') \<Rightarrow> idle wait k h' s')"

lemma tty_read_loop_waits:
  assumes "idle wait k h s" "0 < len" "waits wait k h s = (h', s')"
  shows "tty_read_loop wait len [] h s = tty_read_loop wait len [] h' s'"
  using assms
proof (induction k arbitrary: h s)
  case (Suc k)
  then show ?case
    by (auto simp: tty_read_loop.simps [of wait len "[]" h s] tty_read_byte_empty split: prod.splits)
qed simp

text \<open>
  C24. A terminal read returns as soon as a key press puts bytes in the queue, after any number \<open>k\<close>
  of fruitless waits. It returns the queued bytes up to the first line end or the requested
  length, whichever comes first, and leaves exactly the rest queued for the next read.\<close>

theorem tty_read_returns_line:
  assumes "idle wait k h s" and "waits wait k h s = (h', s')"
    and "input_ok s'" and "NUL \<notin> set (tty_list s')" and "tty_list s' \<noteq> []" and "0 < len"
  shows "\<exists>t. tty_read wait True len h s = Some (first_line len (tty_list s'), h', t) \<and> input_ok t \<and>
    first_line len (tty_list s') @ tty_list t = tty_list s' \<and> first_line len (tty_list s') \<noteq> []"
proof -
  have pre: "first_line n cs @ drop (length (first_line n cs)) cs = cs" for n cs
    by (induction n cs rule: first_line.induct) auto
  have "first_line len (tty_list s') \<noteq> []"
    using assms(5,6) by (cases len; cases "tty_list s'") auto
  then show ?thesis
    using tty_read_loop_line [OF assms(3,4), of "[]" wait len h'] assms(5,6)
      tty_read_loop_waits [OF assms(1) assms(6) assms(2)] pre [of len "tty_list s'"]
    by (auto simp: tty_read_def)
qed

text \<open>A hardware whose second interrupt delivers a typed line.\<close>

definition typing_hw :: "nat key_wait" where
  "typing_hw n s = (n + 1, if n = 1 then fold tty_keyboard_input [CHR ''o'', CHR ''k'', CHR 0x0A, CHR ''x''] s else s)"

theorem tty_read_returns_line_witness:
  "\<exists>t. tty_read typing_hw True 80 0 empty_input = Some ([CHR ''o'', CHR ''k'', CHR 0x0A], 2, t) \<and>
     tty_list t = ''x''"
proof -
  define cs where "cs = [CHR ''o'', CHR ''k'', CHR 0x0A, CHR ''x'']"
  define s' where "s' = fold tty_keyboard_input cs empty_input"
  have s': "s' = fold input_queue_tty_byte cs (fold input_queue_event (map (char_event 1) cs) empty_input)"
    using fold_input_push_char [of cs 1 empty_input]
    by (simp add: s'_def tty_keyboard_input_def [abs_def] cs_def NUL_def AOS_INPUT_SOURCE_PS2_def)
  have ok: "input_ok (fold input_queue_event (map (char_event 1) cs) empty_input)"
    by (rule evq.push_all) simp
  have q: "input_ok s'" "tty_list s' = cs"
    using ttyq.push_all [OF ok, of cs] by (simp_all add: s' fold_queue_independent queue_sizes)
      (simp add: cs_def)
  have w: "waits typing_hw 2 0 empty_input = (2, s')" "idle typing_hw 2 0 empty_input"
    by (simp_all add: numeral_2_eq_2 typing_hw_def s'_def cs_def)
  have l: "first_line 80 cs = [CHR ''o'', CHR ''k'', CHR 0x0A]"
    by (simp add: cs_def is_eol_def eval_nat_numeral)
  show ?thesis
    using tty_read_returns_line [OF w(2,1) q(1), of 80] by (auto simp: q l) (auto simp: cs_def NUL_def)
qed

section \<open>Writing\<close>

text \<open>The text of a buffer: what is left when NULs and colour commands are removed.\<close>

fun plain_text :: "string \<Rightarrow> string" where
  "plain_text [] = []"
| "plain_text (c # rest) =
     (if c = NUL then plain_text rest
      else if c = TTY_ESC \<and> rest \<noteq> [] then
        (let cmd = hd rest; rest' = tl rest
         in if cmd = TTY_CMD_COLOR then plain_text (tl rest')
            else if cmd = TTY_CMD_RESET \<or> cmd = TTY_CMD_CLEAR then plain_text rest'
            else c # cmd # plain_text rest')
      else c # plain_text rest)"

text \<open>Every escape character that is followed by another one starts a known command.\<close>

fun known_escapes :: "string \<Rightarrow> bool" where
  "known_escapes [] \<longleftrightarrow> True"
| "known_escapes (c # rest) \<longleftrightarrow>
     (if c = TTY_ESC \<and> rest \<noteq> [] then
        (let cmd = hd rest; rest' = tl rest
         in if cmd = TTY_CMD_COLOR then known_escapes (tl rest')
            else (cmd = TTY_CMD_RESET \<or> cmd = TTY_CMD_CLEAR) \<and> known_escapes rest')
      else known_escapes rest)"

definition console_text :: "vga_op list \<Rightarrow> string" where
  "console_text ops = concat (map (\<lambda>x. case x of Vga_clear c \<Rightarrow> [] | Vga_write t c \<Rightarrow> t) ops)"

lemma console_text_append [simp]:
  "console_text [] = []" "console_text (a @ b) = console_text a @ console_text b"
  "console_text [Vga_write t c] = t" "console_text [Vga_clear c] = []"
  by (simp_all add: console_text_def)

lemma console_fill_text:
  assumes "known_escapes buf" "length out < TTY_OUT_SIZE"
  shows "\<exists>rest out' col' ops'. console_fill buf out col ops = Some (rest, out', col', ops') \<and>
    known_escapes rest \<and> length out' < TTY_OUT_SIZE \<and>
    out' @ plain_text rest = out @ plain_text buf \<and> console_text ops' = console_text ops"
  using assms
proof (induction buf out col ops rule: console_fill.induct)
  case (1 out col ops)
  then show ?case by simp
next
  case (2 c rest out col ops)
  show ?case
  proof (cases "length out + 1 < TTY_OUT_SIZE")
    case False
    then show ?thesis using "2.prems" by simp
  next
    case room: True
    show ?thesis
    proof (cases "c = TTY_ESC \<and> rest \<noteq> [] \<and> c \<noteq> NUL")
      case True
      then show ?thesis using room 2 by (auto simp: Let_def split: if_splits)
    next
      case False
      then show ?thesis using room 2 by (cases "c = NUL") (auto simp: NUL_def TTY_ESC_def split: if_splits)
    qed
  qed
qed

lemma console_loop_text:
  assumes "known_escapes buf"
  shows "\<exists>ops' col'. console_loop buf col ops = Some (ops', col') \<and>
    console_text ops' = console_text ops @ plain_text buf"
  using assms
proof (induction buf col ops rule: console_loop.induct)
  case (1 buf col ops)
  obtain rest out' col' ops' where f: "console_fill buf [] col ops = Some (rest, out', col', ops')"
    "known_escapes rest" "length out' < TTY_OUT_SIZE" "out' @ plain_text rest = plain_text buf"
    "console_text ops' = console_text ops"
    using console_fill_text [OF "1.prems", of "[]" col ops] by (auto simp: TTY_OUT_SIZE_def)
  show ?case
  proof (cases "buf = [] \<or> out' = []")
    case True
    then show ?thesis
      using "1.IH"(2) [OF _ f(1) refl refl refl] f by (auto simp: console_loop.simps [of buf])
  next
    case False
    then show ?thesis
      using "1.IH"(1) [OF _ f(1) refl refl refl] f by (auto simp: console_loop.simps [of buf])
  qed
qed

lemma serial_text:
  assumes "known_escapes buf" "NUL \<notin> set buf"
  shows "tty_serial_write buf = plain_text buf"
  using assms
proof (induction buf rule: tty_serial_write.induct)
  case (2 c rest)
  have "NUL \<notin> set (tl rest)" "NUL \<notin> set (tl (tl rest))"
    using "2.prems"(2) by (cases rest; cases "tl rest"; auto)+
  then show ?case using 2 by (auto simp: Let_def split: if_splits)
qed simp



text \<open>
  C30. An unknown escape sequence that starts in the last free byte but one of the 128-byte local
  buffer overruns it. 126 ordinary characters followed by an escape and an unknown command fill
  all 128 bytes, and the terminating NUL is then written one byte past the end of \<open>out\<close>.\<close>

theorem tty_console_write_overruns:
  "tty_console_write (replicate 126 (CHR ''a'') @ [TTY_ESC, CHR ''x'']) col = None"
proof -
  have fill: "console_fill (replicate n (CHR ''a'') @ xs) out col ops =
      console_fill xs (out @ replicate n (CHR ''a'')) col ops" if "length out + n < TTY_OUT_SIZE" for n xs out ops
    using that
    by (induction n arbitrary: out) (auto simp: NUL_def TTY_ESC_def replicate_append_same)
  have "console_fill [TTY_ESC, CHR ''x''] (replicate 126 (CHR ''a'')) col [] =
      Some ([], replicate 126 (CHR ''a'') @ [TTY_ESC, CHR ''x''], col, [])"
    by (simp add: tty_consts NUL_def TTY_OUT_SIZE_def)
  then show ?thesis
    using fill [of "[]" 126 "[TTY_ESC, CHR ''x'']" "[]"]
    by (simp add: tty_console_write_def console_loop.simps [of "replicate 126 (CHR ''a'') @ [TTY_ESC, CHR ''x'']"]
        TTY_OUT_SIZE_def del: console_loop.simps console_fill.simps)
qed

text \<open>
  A colour command recolours text that precedes it. Text is buffered and written with the
  colour in force at the end of the chunk, so in a buffer that writes \<open>a\<close>, selects a colour and
  writes \<open>b\<close>, both letters are shown in the new colour; and a clear command takes effect before
  the text that precedes it is shown.\<close>

theorem tty_color_applies_backwards:
  "tty_console_write [CHR ''a'', TTY_ESC, TTY_CMD_COLOR, CHR 0x04, CHR ''b''] 0x0F =
     Some ([Vga_write ''ab'' 0x04], 0x04) \<and>
   tty_console_write [CHR ''a'', TTY_ESC, TTY_CMD_CLEAR, CHR ''b''] 0x0F =
     Some ([Vga_clear 0x0F, Vga_write ''ab'' 0x0F], 0x0F)"
  by (simp add: tty_console_write_def tty_consts NUL_def TTY_OUT_SIZE_def of_char_def)

end
