(* ===== verification/Blkdev.thy ===== *)
theory Blkdev
  imports Prelude
begin

text \<open>
  Block devices, \<open>kernel/blkdev.c\<close>: a table of 16 devices, each either a range of memory (a boot
  module) or a driver with block read and write functions. Byte reads and writes at any offset
  are built from one-block transfers through a 512-byte sector buffer.

  The state \<open>'d\<close> of the disk hardware and the driver's functions on it are parameters: a driver
  function takes a block number, a block count (and the data) and the hardware state. The
  driver's \<open>ctx\<close> pointer is part of the function. Buffers passed by callers are byte lists of
  exactly the requested length, \<open>None\<close> for a null pointer. A division by a zero block size and a
  call through a null function pointer are failures; the table never holds such a device.
\<close>

definition BLKDEV_MAX :: nat where "BLKDEV_MAX = 16"
definition BLKDEV_NAME_MAX :: nat where "BLKDEV_NAME_MAX = 16"
definition BLKDEV_INVALID_ID :: u32 where "BLKDEV_INVALID_ID = 0xFFFFFFFF"
definition SECTOR_BYTES :: nat where "SECTOR_BYTES = 512"

type_synonym 'd block_reader = "u64 \<Rightarrow> u32 \<Rightarrow> 'd \<Rightarrow> bytes option \<times> 'd"
type_synonym 'd block_writer = "u64 \<Rightarrow> u32 \<Rightarrow> bytes \<Rightarrow> 'd \<Rightarrow> bool \<times> 'd"

record 'd blkdev =
  bd_in_use :: bool
  bd_read_only :: bool
  bd_has_ops :: bool
  bd_id :: u32
  bd_block_size :: u32
  bd_size :: u64
  bd_data :: u64
  bd_read_blocks :: "'d block_reader option"
  bd_write_blocks :: "'d block_writer option"
  bd_name :: string

record 'd blk_state =
  g_blkdevs :: "'d blkdev list"
  memory :: "u64 \<Rightarrow> u8"
  disk :: 'd

definition blkdev_zero :: "'d blkdev" where
  "blkdev_zero = \<lparr>bd_in_use = False, bd_read_only = False, bd_has_ops = False, bd_id = 0,
     bd_block_size = 0, bd_size = 0, bd_data = 0, bd_read_blocks = None, bd_write_blocks = None,
     bd_name = []\<rparr>"

definition mem_load :: "u64 \<Rightarrow> nat \<Rightarrow> (u64 \<Rightarrow> u8) \<Rightarrow> bytes" where
  "mem_load a n m = map (\<lambda>i. m (a + of_nat i)) [0..<n]"

definition mem_store :: "u64 \<Rightarrow> bytes \<Rightarrow> (u64 \<Rightarrow> u8) \<Rightarrow> (u64 \<Rightarrow> u8)" where
  "mem_store a bs m = (\<lambda>x. if unat (x - a) < length bs then bs ! unat (x - a) else m x)"

definition string_equals :: "string \<Rightarrow> string option \<Rightarrow> bool" where
  "string_equals a b = (case b of None \<Rightarrow> False | Some b \<Rightarrow> path_equals a b)"

definition name_string :: "string option \<Rightarrow> string" where
  "name_string src = (case src of None \<Rightarrow> [] | Some s \<Rightarrow> s)"

definition blkdev_init :: "'d blk_state \<Rightarrow> 'd blk_state" where
  "blkdev_init s = s\<lparr>g_blkdevs := replicate BLKDEV_MAX blkdev_zero\<rparr>"

definition blkdev_register_memory ::
  "string option \<Rightarrow> u32 \<Rightarrow> u32 \<Rightarrow> u32 \<Rightarrow> u8 \<Rightarrow> 'd blk_state \<Rightarrow> u32 \<times> 'd blk_state" where
  "blkdev_register_memory name start end block_size read_only s =
     (if end \<le> start then (BLKDEV_INVALID_ID, s)
      else let block_size = (if block_size = 0 then 512 else block_size)
           in case find_slot (\<lambda>d. \<not> bd_in_use d) (g_blkdevs s) of
                None \<Rightarrow> (BLKDEV_INVALID_ID, s)
              | Some i \<Rightarrow> (of_nat i, s\<lparr>g_blkdevs := (g_blkdevs s)[i :=
                    blkdev_zero\<lparr>bd_in_use := True, bd_read_only := read_only \<noteq> 0, bd_id := of_nat i,
                      bd_block_size := block_size, bd_size := ucast end - ucast start,
                      bd_data := ucast start,
                      bd_name := copy_string BLKDEV_NAME_MAX (name_string name)\<rparr>]\<rparr>))"

definition blkdev_register_ops ::
  "string option \<Rightarrow> u64 \<Rightarrow> u32 \<Rightarrow> u8 \<Rightarrow> 'd block_reader option \<Rightarrow> 'd block_writer option \<Rightarrow>
   'd blk_state \<Rightarrow> u32 \<times> 'd blk_state" where
  "blkdev_register_ops name sz block_size read_only read_blocks write_blocks s =
     (if sz = 0 \<or> read_blocks = None then (BLKDEV_INVALID_ID, s)
      else let block_size = (if block_size = 0 then 512 else block_size)
           in case find_slot (\<lambda>d. \<not> bd_in_use d) (g_blkdevs s) of
                None \<Rightarrow> (BLKDEV_INVALID_ID, s)
              | Some i \<Rightarrow> (of_nat i, s\<lparr>g_blkdevs := (g_blkdevs s)[i :=
                    blkdev_zero\<lparr>bd_in_use := True, bd_read_only := read_only \<noteq> 0, bd_has_ops := True,
                      bd_id := of_nat i, bd_block_size := block_size, bd_size := sz,
                      bd_read_blocks := read_blocks, bd_write_blocks := write_blocks,
                      bd_name := copy_string BLKDEV_NAME_MAX (name_string name)\<rparr>]\<rparr>))"

definition blkdev_get :: "u32 \<Rightarrow> 'd blk_state \<Rightarrow> 'd blkdev option" where
  "blkdev_get bid s =
     (if unat bid \<ge> BLKDEV_MAX \<or> \<not> bd_in_use (g_blkdevs s ! unat bid) then None
      else Some (g_blkdevs s ! unat bid))"

fun get_index_loop :: "nat \<Rightarrow> nat \<Rightarrow> 'd blkdev list \<Rightarrow> 'd blkdev option" where
  "get_index_loop seen index [] = None"
| "get_index_loop seen index (d # ds) =
     (if \<not> bd_in_use d then get_index_loop seen index ds
      else if seen = index then Some d else get_index_loop (seen + 1) index ds)"

definition blkdev_get_index :: "nat \<Rightarrow> 'd blk_state \<Rightarrow> 'd blkdev option" where
  "blkdev_get_index index s = get_index_loop 0 index (g_blkdevs s)"

definition blkdev_find :: "string option \<Rightarrow> 'd blk_state \<Rightarrow> 'd blkdev option" where
  "blkdev_find name s =
     map_option (\<lambda>i. g_blkdevs s ! i)
       (find_slot (\<lambda>d. bd_in_use d \<and> string_equals (bd_name d) name) (g_blkdevs s))"

text \<open>The loops of \<open>blkdev_read\<close> and \<open>blkdev_write\<close> over a driver. The range check before them keeps
  offset and length below the device size, so the 64-bit arithmetic does not wrap.\<close>

definition sector_chunk :: "nat \<Rightarrow> nat \<Rightarrow> nat \<Rightarrow> nat" where
  "sector_chunk bs offset len = (let chunk = bs - offset mod bs in if chunk > len then len else chunk)"

lemma sector_chunk_bounds:
  assumes "0 < bs" "0 < len"
  shows "0 < sector_chunk bs offset len" "sector_chunk bs offset len \<le> len"
    "offset mod bs + sector_chunk bs offset len \<le> bs"
  using assms mod_less_divisor [of bs offset] by (auto simp: sector_chunk_def Let_def)

function blkdev_read_loop :: "'d blkdev \<Rightarrow> nat \<Rightarrow> nat \<Rightarrow> 'd \<Rightarrow> bytes option \<times> 'd" where
  "blkdev_read_loop dev offset len d =
     (if len = 0 then (Some [], d)
      else if bd_block_size dev = 0 then (None, d)
      else let bs = unat (bd_block_size dev); lba = offset div bs; sector_offset = offset mod bs;
               chunk = sector_chunk bs offset len
           in if bs > SECTOR_BYTES then (None, d)
              else case bd_read_blocks dev of None \<Rightarrow> (None, d)
                | Some rd \<Rightarrow> (case rd (of_nat lba) 1 d of
                    (None, d') \<Rightarrow> (None, d')
                  | (Some sector, d') \<Rightarrow>
                      (case blkdev_read_loop dev (offset + chunk) (len - chunk) d' of
                         (None, d'') \<Rightarrow> (None, d'')
                       | (Some rest, d'') \<Rightarrow> (Some (subarr sector_offset chunk sector @ rest), d''))))"
  by pat_completeness auto
termination
  by (relation "measure (\<lambda>(dev, offset, len, d). len)")
    (auto simp: sector_chunk_bounds unat_gt_0)

function blkdev_write_loop :: "'d blkdev \<Rightarrow> nat \<Rightarrow> bytes \<Rightarrow> 'd \<Rightarrow> bool \<times> 'd" where
  "blkdev_write_loop dev offset buf d =
     (if buf = [] then (True, d)
      else if bd_block_size dev = 0 then (False, d)
      else let bs = unat (bd_block_size dev); lba = offset div bs; sector_offset = offset mod bs;
               chunk = sector_chunk bs offset (length buf)
           in if bs > SECTOR_BYTES then (False, d)
              else case (bd_read_blocks dev, bd_write_blocks dev) of
                  (Some rd, Some wr) \<Rightarrow> (case rd (of_nat lba) 1 d of
                    (None, d') \<Rightarrow> (False, d')
                  | (Some sector, d') \<Rightarrow>
                      (case wr (of_nat lba) 1 (overwrite sector_offset (take chunk buf) sector) d' of
                         (False, d'') \<Rightarrow> (False, d'')
                       | (True, d'') \<Rightarrow> blkdev_write_loop dev (offset + chunk) (drop chunk buf) d''))
                | _ \<Rightarrow> (False, d))"
  by pat_completeness auto
termination
  by (relation "measure (\<lambda>(dev, offset, buf, d). length buf)")
    (auto simp: sector_chunk_bounds unat_gt_0)

declare blkdev_read_loop.simps [simp del] blkdev_write_loop.simps [simp del]

definition blkdev_read :: "u32 \<Rightarrow> u64 \<Rightarrow> bool \<Rightarrow> u64 \<Rightarrow> 'd blk_state \<Rightarrow> bytes option \<times> 'd blk_state" where
  "blkdev_read bid offset buffer len s =
     (case blkdev_get bid s of
        None \<Rightarrow> (None, s)
      | Some dev \<Rightarrow>
          if \<not> buffer then (None, s)
          else if offset > bd_size dev \<or> len > bd_size dev - offset then (None, s)
          else if bd_has_ops dev
          then (case blkdev_read_loop dev (unat offset) (unat len) (disk s) of
                  (r, d) \<Rightarrow> (r, s\<lparr>disk := d\<rparr>))
          else (Some (mem_load (bd_data dev + offset) (unat len) (memory s)), s))"

definition blkdev_write :: "u32 \<Rightarrow> u64 \<Rightarrow> bytes option \<Rightarrow> 'd blk_state \<Rightarrow> bool \<times> 'd blk_state" where
  "blkdev_write bid offset buffer s =
     (case (blkdev_get bid s, buffer) of
        (Some dev, Some buf) \<Rightarrow>
          let len = (of_nat (length buf) :: u64)
          in if bd_read_only dev then (False, s)
             else if offset > bd_size dev \<or> len > bd_size dev - offset then (False, s)
             else if bd_has_ops dev
             then if bd_write_blocks dev = None then (False, s)
                  else (case blkdev_write_loop dev (unat offset) buf (disk s) of
                          (r, d) \<Rightarrow> (r, s\<lparr>disk := d\<rparr>))
             else (True, s\<lparr>memory := mem_store (bd_data dev + offset) buf (memory s)\<rparr>)
      | _ \<Rightarrow> (False, s))"

definition blkdev_read_blocks :: "u32 \<Rightarrow> u64 \<Rightarrow> u32 \<Rightarrow> 'd blk_state \<Rightarrow> bytes option \<times> 'd blk_state" where
  "blkdev_read_blocks bid lba block_count s =
     (case blkdev_get bid s of
        None \<Rightarrow> (None, s)
      | Some dev \<Rightarrow>
          if bd_has_ops dev then
            (let blocks = bd_size dev div ucast (bd_block_size dev)
             in if lba > blocks \<or> ucast block_count > blocks - lba then (None, s)
                else case bd_read_blocks dev of
                       None \<Rightarrow> (None, s)
                     | Some rd \<Rightarrow> (case rd lba block_count (disk s) of (r, d) \<Rightarrow> (r, s\<lparr>disk := d\<rparr>)))
          else blkdev_read bid (lba * ucast (bd_block_size dev)) True
                 (ucast block_count * ucast (bd_block_size dev)) s)"

definition blkdev_write_blocks :: "u32 \<Rightarrow> u64 \<Rightarrow> u32 \<Rightarrow> bytes \<Rightarrow> 'd blk_state \<Rightarrow> bool \<times> 'd blk_state" where
  "blkdev_write_blocks bid lba block_count buf s =
     (case blkdev_get bid s of
        None \<Rightarrow> (False, s)
      | Some dev \<Rightarrow>
          if bd_has_ops dev then
            (case bd_write_blocks dev of
               None \<Rightarrow> (False, s)
             | Some wr \<Rightarrow>
                 if bd_read_only dev then (False, s)
                 else let blocks = bd_size dev div ucast (bd_block_size dev)
                      in if lba > blocks \<or> ucast block_count > blocks - lba then (False, s)
                         else (case wr lba block_count buf (disk s) of (r, d) \<Rightarrow> (r, s\<lparr>disk := d\<rparr>)))
          else blkdev_write bid (lba * ucast (bd_block_size dev)) (Some buf) s)"

section \<open>The contract of a byte-addressed device\<close>

locale byte_device =
  fixes invar :: "'s \<Rightarrow> bool"
    and contents :: "'s \<Rightarrow> bytes"
    and dread :: "u64 \<Rightarrow> u64 \<Rightarrow> 's \<Rightarrow> bytes option \<times> 's"
    and dwrite :: "u64 \<Rightarrow> bytes \<Rightarrow> 's \<Rightarrow> bool \<times> 's"
  assumes read_ok: "invar s \<Longrightarrow> unat off + unat len \<le> length (contents s) \<Longrightarrow>
      \<exists>s'. dread off len s = (Some (subarr (unat off) (unat len) (contents s)), s') \<and> invar s' \<and>
        contents s' = contents s"
    and read_range: "invar s \<Longrightarrow> \<not> unat off + unat len \<le> length (contents s) \<Longrightarrow> dread off len s = (None, s)"
    and write_ok: "invar s \<Longrightarrow> unat off + length buf \<le> length (contents s) \<Longrightarrow>
      \<exists>s'. dwrite off buf s = (True, s') \<and> invar s' \<and> contents s' = overwrite (unat off) buf (contents s)"
    and write_range: "invar s \<Longrightarrow> length buf < 2 ^ 64 \<Longrightarrow> \<not> unat off + length buf \<le> length (contents s) \<Longrightarrow>
      dwrite off buf s = (False, s)"
begin

lemma write_then_read:
  assumes "invar s" "unat off + length buf \<le> length (contents s)" "length buf < 2 ^ 64"
  shows "\<exists>s' t. dwrite off buf s = (True, s') \<and> dread off (of_nat (length buf)) s' = (Some buf, t)"
proof -
  obtain s' where s': "dwrite off buf s = (True, s')" "invar s'"
    "contents s' = overwrite (unat off) buf (contents s)"
    using write_ok [OF assms(1,2)] by blast
  have "unat (of_nat (length buf) :: u64) = length buf" using assms(3) by (simp add: unat_of_nat_small)
  then show ?thesis
    using read_ok [OF s'(2), of off "of_nat (length buf)"] s' assms(2) by (auto simp: arr_simps)
qed

lemma write_elsewhere_then_read:
  assumes "invar s" "unat off + length buf \<le> length (contents s)"
    and "unat off' + unat len \<le> length (contents s)"
    and "unat off' + unat len \<le> unat off \<or> unat off + length buf \<le> unat off'"
  shows "\<exists>s'. dwrite off buf s = (True, s') \<and> fst (dread off' len s') = fst (dread off' len s)"
proof -
  obtain s' where s': "dwrite off buf s = (True, s')" "invar s'"
    "contents s' = overwrite (unat off) buf (contents s)"
    using write_ok [OF assms(1,2)] by blast
  show ?thesis
    using read_ok [OF s'(2), of off' len] read_ok [OF assms(1), of off' len] s' assms(2,3,4)
    by (auto simp: arr_simps)
qed

end

section \<open>Driver transfers as flat reads and writes\<close>

text \<open>What a block driver promises: the disk holds \<open>n\<close> blocks of \<open>bs\<close> bytes, and transfers inside
  the disk succeed and read or replace exactly the blocks named.\<close>

definition driver_ok :: "nat \<Rightarrow> nat \<Rightarrow> ('d \<Rightarrow> bool) \<Rightarrow> ('d \<Rightarrow> bytes) \<Rightarrow> 'd block_reader \<Rightarrow> 'd block_writer \<Rightarrow> bool" where
  "driver_ok bs n dinv data rd wr \<longleftrightarrow>
     (\<forall>d. dinv d \<longrightarrow> length (data d) = n * bs) \<and>
     (\<forall>d lba cnt. dinv d \<and> unat lba + unat cnt \<le> n \<longrightarrow>
        (\<exists>d'. rd lba cnt d = (Some (subarr (unat lba * bs) (unat cnt * bs) (data d)), d') \<and> dinv d' \<and> data d' = data d)) \<and>
     (\<forall>d lba cnt buf. dinv d \<and> unat lba + unat cnt \<le> n \<and> length buf = unat cnt * bs \<longrightarrow>
        (\<exists>d'. wr lba cnt buf d = (True, d') \<and> dinv d' \<and> data d' = overwrite (unat lba * bs) buf (data d)))"

lemma driver_read:
  assumes "driver_ok bs n dinv data rd wr" "dinv d" "lba < n" "n \<le> 2 ^ 64"
  obtains d' where "rd (of_nat lba) 1 d = (Some (subarr (lba * bs) bs (data d)), d')" "dinv d'" "data d' = data d"
proof -
  have u: "unat (of_nat lba :: u64) = lba" using assms(3,4) by (intro unat_of_nat_small) simp
  have pre: "dinv d \<and> unat (of_nat lba :: u64) + unat (1 :: u32) \<le> n" using assms(2,3) u by simp
  have "\<exists>d'. rd (of_nat lba) 1 d = (Some (subarr (unat (of_nat lba :: u64) * bs) (unat (1 :: u32) * bs) (data d)), d') \<and>
      dinv d' \<and> data d' = data d"
    using pre assms(1) unfolding driver_ok_def by blast
  with that u show thesis by auto
qed

lemma driver_write:
  assumes "driver_ok bs n dinv data rd wr" "dinv d" "lba < n" "n \<le> 2 ^ 64" "length buf = bs"
  obtains d' where "wr (of_nat lba) 1 buf d = (True, d')" "dinv d'" "data d' = overwrite (lba * bs) buf (data d)"
proof -
  have u: "unat (of_nat lba :: u64) = lba" using assms(3,4) by (intro unat_of_nat_small) simp
  have pre: "dinv d \<and> unat (of_nat lba :: u64) + unat (1 :: u32) \<le> n \<and> length buf = unat (1 :: u32) * bs"
    using assms(2,3,5) u by simp
  have "\<exists>d'. wr (of_nat lba) 1 buf d = (True, d') \<and> dinv d' \<and>
      data d' = overwrite (unat (of_nat lba :: u64) * bs) buf (data d)"
    using pre assms(1) unfolding driver_ok_def by blast
  with that u show thesis by auto
qed

lemma driver_length: "driver_ok bs n dinv data rd wr \<Longrightarrow> dinv d \<Longrightarrow> length (data d) = n * bs"
  by (simp add: driver_ok_def)

lemma chunk_block:
  fixes bs :: nat
  assumes "0 < bs" "0 < len" "offset + len \<le> n * bs"
  shows "offset div bs < n" "offset div bs * bs + offset mod bs = offset"
    "offset div bs * bs + bs \<le> n * bs"
proof -
  have "offset < n * bs" using assms by linarith
  then show *: "offset div bs < n" by (simp add: less_mult_imp_div_less)
  show "offset div bs * bs + offset mod bs = offset" by simp
  have "(offset div bs + 1) * bs \<le> n * bs" using * by (intro mult_right_mono) simp_all
  then show "offset div bs * bs + bs \<le> n * bs" by simp
qed

lemma blkdev_read_loop_flat:
  assumes "driver_ok (unat (bd_block_size dev)) n dinv data rd wr" "bd_read_blocks dev = Some rd"
    and "0 < unat (bd_block_size dev)" "unat (bd_block_size dev) \<le> SECTOR_BYTES" "n \<le> 2 ^ 64"
    and "dinv d" "offset + len \<le> n * unat (bd_block_size dev)"
  shows "\<exists>d'. blkdev_read_loop dev offset len d = (Some (subarr offset len (data d)), d') \<and> dinv d' \<and> data d' = data d"
  using assms(6,7)
proof (induction len arbitrary: offset d rule: less_induct)
  case (less len)
  let ?bs = "unat (bd_block_size dev)" and ?c = "sector_chunk (unat (bd_block_size dev)) offset len"
  show ?case
  proof (cases "len = 0")
    case True
    with less.prems show ?thesis by (simp add: blkdev_read_loop.simps)
  next
    case False
    then have pos: "0 < len" by simp
    note b = sector_chunk_bounds [OF assms(3) pos, of offset] and k = chunk_block [OF assms(3) pos less.prems(2)]
    obtain d' where d': "rd (of_nat (offset div ?bs)) 1 d = (Some (subarr (offset div ?bs * ?bs) ?bs (data d)), d')"
      "dinv d'" "data d' = data d"
      using driver_read [OF assms(1) less.prems(1) k(1) assms(5)] by blast
    obtain d'' where d'': "blkdev_read_loop dev (offset + ?c) (len - ?c) d' =
        (Some (subarr (offset + ?c) (len - ?c) (data d')), d'')" "dinv d''" "data d'' = data d'"
      using less.IH [of "len - ?c" d' "offset + ?c"] b pos less.prems(2) d'(2) by auto
    have 1: "subarr (offset mod ?bs) ?c (subarr (offset div ?bs * ?bs) ?bs (data d)) = subarr offset ?c (data d)"
      using b(3) by (simp add: subarr_subarr k(2))
    have 2: "subarr offset ?c (data d) @ subarr (offset + ?c) (len - ?c) (data d) = subarr offset len (data d)"
      using b(2) by (simp add: subarr_append_next)
    have bs0: "bd_block_size dev \<noteq> 0" using assms(3) by (auto simp: unat_gt_0)
    show ?thesis
      using d' d'' 1 2 assms(4) pos bs0
      by (simp add: blkdev_read_loop.simps [of dev offset len d] Let_def assms(2))
  qed
qed

lemma blkdev_write_loop_flat:
  assumes "driver_ok (unat (bd_block_size dev)) n dinv data rd wr" "bd_read_blocks dev = Some rd"
    and "bd_write_blocks dev = Some wr"
    and "0 < unat (bd_block_size dev)" "unat (bd_block_size dev) \<le> SECTOR_BYTES" "n \<le> 2 ^ 64"
    and "dinv d" "offset + length buf \<le> n * unat (bd_block_size dev)"
  shows "\<exists>d'. blkdev_write_loop dev offset buf d = (True, d') \<and> dinv d' \<and> data d' = overwrite offset buf (data d)"
  using assms(7,8)
proof (induction "length buf" arbitrary: buf offset d rule: less_induct)
  case less
  let ?bs = "unat (bd_block_size dev)" and ?c = "sector_chunk (unat (bd_block_size dev)) offset (length buf)"
  show ?case
  proof (cases "buf = []")
    case True
    with less.prems driver_length [OF assms(1) less.prems(1)] show ?thesis
      by (simp add: blkdev_write_loop.simps)
  next
    case False
    then have pos: "0 < length buf" by simp
    note b = sector_chunk_bounds [OF assms(4) pos, of offset] and k = chunk_block [OF assms(4) pos less.prems(2)]
    have len: "length (data d) = n * ?bs" by (rule driver_length [OF assms(1) less.prems(1)])
    obtain d' where d': "rd (of_nat (offset div ?bs)) 1 d = (Some (subarr (offset div ?bs * ?bs) ?bs (data d)), d')"
      "dinv d'" "data d' = data d"
      using driver_read [OF assms(1) less.prems(1) k(1) assms(6)] by blast
    let ?sector = "overwrite (offset mod ?bs) (take ?c buf) (subarr (offset div ?bs * ?bs) ?bs (data d))"
    have tk: "length (take ?c buf) = ?c" using b(2) by simp
    have sl: "length ?sector = ?bs" using b(3) k(3) len tk by (simp add: arr_simps)
    obtain d'' where d'': "wr (of_nat (offset div ?bs)) 1 ?sector d' = (True, d'')" "dinv d''"
      "data d'' = overwrite (offset div ?bs * ?bs) ?sector (data d')"
      using driver_write [OF assms(1) d'(2) k(1) assms(6) sl] by blast
    have c'': "data d'' = overwrite offset (take ?c buf) (data d)"
      using d'' d'(3) b(3) k(2,3) len tk by (simp add: overwrite_inner)
    obtain d3 where d3: "blkdev_write_loop dev (offset + ?c) (drop ?c buf) d'' = (True, d3)" "dinv d3"
      "data d3 = overwrite (offset + ?c) (drop ?c buf) (data d'')"
      using less.hyps [of "drop ?c buf" d'' "offset + ?c"] b pos less.prems(2) d''(2) by auto
    have "data d3 = overwrite offset buf (data d)"
      using overwrite_overwrite [of offset "take ?c buf" "drop ?c buf" "data d"] less.prems(2) len b(2) tk
      by (simp add: d3(3) c'')
    moreover have bs0: "bd_block_size dev \<noteq> 0" using assms(4) by (auto simp: unat_gt_0)
    ultimately show ?thesis
      using d' d'' d3 assms(5) False
      by (simp add: blkdev_write_loop.simps [of dev offset buf d] Let_def assms(2,3))
  qed
qed

section \<open>Memory devices and driver devices are byte-addressed devices\<close>

definition mem_device :: "u32 \<Rightarrow> 'd blk_state \<Rightarrow> bool" where
  "mem_device bid s \<longleftrightarrow> (case blkdev_get bid s of None \<Rightarrow> False
     | Some dev \<Rightarrow> \<not> bd_has_ops dev \<and> \<not> bd_read_only dev)"

definition mem_contents :: "u32 \<Rightarrow> 'd blk_state \<Rightarrow> bytes" where
  "mem_contents bid s = (case blkdev_get bid s of None \<Rightarrow> []
     | Some dev \<Rightarrow> mem_load (bd_data dev) (unat (bd_size dev)) (memory s))"

definition ops_device :: "nat \<Rightarrow> ('d \<Rightarrow> bool) \<Rightarrow> ('d \<Rightarrow> bytes) \<Rightarrow> u32 \<Rightarrow> 'd blk_state \<Rightarrow> bool" where
  "ops_device n dinv data bid s \<longleftrightarrow>
     (\<exists>dev rd wr. blkdev_get bid s = Some dev \<and> bd_has_ops dev \<and> \<not> bd_read_only dev \<and>
        bd_read_blocks dev = Some rd \<and> bd_write_blocks dev = Some wr \<and>
        0 < unat (bd_block_size dev) \<and> unat (bd_block_size dev) \<le> SECTOR_BYTES \<and> n \<le> 2 ^ 64 \<and>
        unat (bd_size dev) \<le> n * unat (bd_block_size dev) \<and>
        driver_ok (unat (bd_block_size dev)) n dinv data rd wr \<and> dinv (disk s))"

definition ops_contents :: "('d \<Rightarrow> bytes) \<Rightarrow> u32 \<Rightarrow> 'd blk_state \<Rightarrow> bytes" where
  "ops_contents data bid s = (case blkdev_get bid s of None \<Rightarrow> []
     | Some dev \<Rightarrow> take (unat (bd_size dev)) (data (disk s)))"

lemma length_mem_load [simp]: "length (mem_load a n m) = n"
  by (simp add: mem_load_def)

lemma nth_mem_load: "i < n \<Longrightarrow> mem_load a n m ! i = m (a + of_nat i)"
  by (simp add: mem_load_def)

lemma mem_load_part: "off + k \<le> n \<Longrightarrow> mem_load (a + of_nat off) k m = subarr off k (mem_load a n m)"
  by (rule nth_equalityI) (simp_all add: arr_simps nth_mem_load add.assoc)

lemma mem_load_store:
  assumes "off + length bs \<le> n" "n \<le> 2 ^ 64"
  shows "mem_load a n (mem_store (a + of_nat off) bs m) = overwrite off bs (mem_load a n m)"
proof (rule nth_equalityI)
  show "length (mem_load a n (mem_store (a + of_nat off) bs m)) = length (overwrite off bs (mem_load a n m))"
    using assms by (simp add: arr_simps)
  fix i assume "i < length (mem_load a n (mem_store (a + of_nat off) bs m))"
  then have i: "i < n" by simp
  have u: "unat (of_nat i - of_nat off :: u64) = (if off \<le> i then i - off else i + 2 ^ 64 - off)" if "off \<le> n"
  proof (cases "off \<le> i")
    case True
    then have "of_nat i - of_nat off = (of_nat (i - off) :: u64)" by (simp add: of_nat_diff)
    moreover have "unat (of_nat (i - off) :: u64) = i - off"
      using i assms(2) by (intro unat_of_nat_small) simp
    ultimately show ?thesis using True by simp
  next
    case False
    have "of_nat i - of_nat off = (of_nat (i + 2 ^ 64 - off) :: u64)"
      using that assms(2) by (simp add: of_nat_diff)
    moreover have "unat (of_nat (i + 2 ^ 64 - off) :: u64) = i + 2 ^ 64 - off"
      using False that assms(2) by (intro unat_of_nat_small) simp
    ultimately show ?thesis using False by simp
  qed
  have "unat (of_nat i - of_nat off :: u64) < length bs \<longleftrightarrow> off \<le> i \<and> i < off + length bs"
    using u i assms by auto
  then show "mem_load a n (mem_store (a + of_nat off) bs m) ! i = overwrite off bs (mem_load a n m) ! i"
    using u i assms by (simp add: nth_mem_load mem_store_def arr_simps nth_overwrite)
qed

lemma blkdev_get_disk [simp]:
  "blkdev_get bid (s\<lparr>disk := d\<rparr>) = blkdev_get bid s" "blkdev_get bid (s\<lparr>memory := m\<rparr>) = blkdev_get bid s"
  by (simp_all add: blkdev_get_def)

text \<open>The overflow-free range check is the natural one.\<close>

lemma range_check:
  fixes offset len size :: u64
  shows "offset > size \<or> len > size - offset \<longleftrightarrow> \<not> unat offset + unat len \<le> unat size"
proof (cases "offset \<le> size")
  case True
  then show ?thesis by (auto simp: word_less_nat_alt word_le_nat_alt unat_sub_small)
next
  case False
  then show ?thesis by (auto simp: word_less_nat_alt word_le_nat_alt)
qed

lemma blkdev_read_mem:
  assumes "mem_device bid s"
  shows "blkdev_read bid off True len s =
    (if unat off + unat len \<le> length (mem_contents bid s)
     then Some (subarr (unat off) (unat len) (mem_contents bid s)) else None, s)"
  using assms mem_load_part [of "unat off" "unat len"]
  by (auto simp: mem_device_def mem_contents_def blkdev_read_def range_check split: option.splits)

lemma blkdev_write_mem:
  assumes "mem_device bid s" "length buf < 2 ^ 64"
  shows "unat off + length buf \<le> length (mem_contents bid s) \<Longrightarrow>
      \<exists>s'. blkdev_write bid off (Some buf) s = (True, s') \<and> mem_device bid s' \<and>
        mem_contents bid s' = overwrite (unat off) buf (mem_contents bid s)"
    and "\<not> unat off + length buf \<le> length (mem_contents bid s) \<Longrightarrow> blkdev_write bid off (Some buf) s = (False, s)"
proof -
  obtain dev where dev: "blkdev_get bid s = Some dev" "\<not> bd_has_ops dev" "\<not> bd_read_only dev"
    using assms(1) by (auto simp: mem_device_def split: option.splits)
  have len: "unat (of_nat (length buf) :: u64) = length buf" using assms(2) by (simp add: unat_of_nat_small)
  have size: "unat (bd_size dev) \<le> 2 ^ 64" using unat_less [of "bd_size dev"] by simp
  show "\<exists>s'. blkdev_write bid off (Some buf) s = (True, s') \<and> mem_device bid s' \<and>
        mem_contents bid s' = overwrite (unat off) buf (mem_contents bid s)"
    if "unat off + length buf \<le> length (mem_contents bid s)"
    using that dev mem_load_store [of "unat off" buf "unat (bd_size dev)" "bd_data dev" "memory s"] size
    by (simp add: blkdev_write_def range_check len mem_contents_def mem_device_def Let_def)
  show "blkdev_write bid off (Some buf) s = (False, s)" if "\<not> unat off + length buf \<le> length (mem_contents bid s)"
    using that dev by (simp add: blkdev_write_def range_check len mem_contents_def Let_def)
qed

interpretation memdev: byte_device "mem_device bid" "mem_contents bid"
  "\<lambda>off len. blkdev_read bid off True len" "\<lambda>off buf. blkdev_write bid off (Some buf)" for bid
proof
  fix s :: "'a blk_state" and off len :: u64 and buf :: bytes
  assume ok: "mem_device bid s"
  then show "unat off + unat len \<le> length (mem_contents bid s) \<Longrightarrow>
      \<exists>s'. blkdev_read bid off True len s = (Some (subarr (unat off) (unat len) (mem_contents bid s)), s') \<and>
        mem_device bid s' \<and> mem_contents bid s' = mem_contents bid s"
    and "\<not> unat off + unat len \<le> length (mem_contents bid s) \<Longrightarrow> blkdev_read bid off True len s = (None, s)"
    by (simp_all add: blkdev_read_mem)
  have small: "length (mem_contents bid s) < 2 ^ 64"
    using unat_less [where 'a = 64] by (auto simp: mem_contents_def split: option.splits)
  show "\<exists>s'. blkdev_write bid off (Some buf) s = (True, s') \<and> mem_device bid s' \<and>
        mem_contents bid s' = overwrite (unat off) buf (mem_contents bid s)"
    if "unat off + length buf \<le> length (mem_contents bid s)"
    by (rule blkdev_write_mem(1) [OF ok _ that]) (use that small in linarith)
  show "length buf < 2 ^ 64 \<Longrightarrow> \<not> unat off + length buf \<le> length (mem_contents bid s) \<Longrightarrow>
      blkdev_write bid off (Some buf) s = (False, s)"
    by (rule blkdev_write_mem(2) [OF ok])
qed

lemma ops_deviceE:
  assumes "ops_device n dinv data bid s"
  obtains dev rd wr where "blkdev_get bid s = Some dev" "bd_has_ops dev" "\<not> bd_read_only dev"
    "bd_read_blocks dev = Some rd" "bd_write_blocks dev = Some wr"
    "0 < unat (bd_block_size dev)" "unat (bd_block_size dev) \<le> SECTOR_BYTES" "n \<le> 2 ^ 64"
    "unat (bd_size dev) \<le> n * unat (bd_block_size dev)"
    "driver_ok (unat (bd_block_size dev)) n dinv data rd wr" "dinv (disk s)"
    "length (ops_contents data bid s) = unat (bd_size dev)"
    "ops_contents data bid s = take (unat (bd_size dev)) (data (disk s))"
    "length (data (disk s)) = n * unat (bd_block_size dev)"
  using assms by (auto simp: ops_device_def ops_contents_def driver_length)

lemma ops_device_disk:
  assumes "ops_device n dinv data bid s" "dinv d"
  shows "ops_device n dinv data bid (s\<lparr>disk := d\<rparr>)"
  using assms by (auto simp: ops_device_def)

interpretation opsdev: byte_device "ops_device n dinv data bid" "ops_contents data bid"
  "\<lambda>off len. blkdev_read bid off True len" "\<lambda>off buf. blkdev_write bid off (Some buf)" for n dinv data bid
proof
  fix s :: "'a blk_state" and off len :: u64 and buf :: bytes
  assume ok: "ops_device n dinv data bid s"
  then obtain dev rd wr where D: "blkdev_get bid s = Some dev" "bd_has_ops dev" "\<not> bd_read_only dev"
    "bd_read_blocks dev = Some rd" "bd_write_blocks dev = Some wr"
    "0 < unat (bd_block_size dev)" "unat (bd_block_size dev) \<le> SECTOR_BYTES" "n \<le> 2 ^ 64"
    "unat (bd_size dev) \<le> n * unat (bd_block_size dev)"
    "driver_ok (unat (bd_block_size dev)) n dinv data rd wr" "dinv (disk s)"
    "length (ops_contents data bid s) = unat (bd_size dev)"
    "ops_contents data bid s = take (unat (bd_size dev)) (data (disk s))"
    "length (data (disk s)) = n * unat (bd_block_size dev)"
    by (rule ops_deviceE)
  show "\<exists>s'. blkdev_read bid off True len s = (Some (subarr (unat off) (unat len) (ops_contents data bid s)), s') \<and>
        ops_device n dinv data bid s' \<and> ops_contents data bid s' = ops_contents data bid s"
    if "unat off + unat len \<le> length (ops_contents data bid s)"
    using blkdev_read_loop_flat [OF D(10,4,6,7,8,11), of "unat off" "unat len"] that D(1-3,9,12,13)
      ops_device_disk [OF ok]
    by (auto simp: blkdev_read_def range_check arr_simps ops_contents_def)
  show "blkdev_read bid off True len s = (None, s)" if "\<not> unat off + unat len \<le> length (ops_contents data bid s)"
    using that D(1-3,12) by (simp add: blkdev_read_def range_check)
  have len: "unat (of_nat (length buf) :: u64) = length buf" if "length buf < 2 ^ 64"
    using that by (simp add: unat_of_nat_small)
  show "\<exists>s'. blkdev_write bid off (Some buf) s = (True, s') \<and> ops_device n dinv data bid s' \<and>
        ops_contents data bid s' = overwrite (unat off) buf (ops_contents data bid s)"
    if "unat off + length buf \<le> length (ops_contents data bid s)"
  proof -
    have "length buf < 2 ^ 64" using that unat_less [of "bd_size dev"] D(12) by simp
    then show ?thesis
      using blkdev_write_loop_flat [OF D(10,4,5,6,7,8,11), of "unat off" buf] that D(1-3,5,9,12,13,14)
        ops_device_disk [OF ok] len
      by (auto simp: blkdev_write_def range_check arr_simps ops_contents_def Let_def)
  qed
  show "length buf < 2 ^ 64 \<Longrightarrow> \<not> unat off + length buf \<le> length (ops_contents data bid s) \<Longrightarrow>
      blkdev_write bid off (Some buf) s = (False, s)"
    using D(1-3,5,12) len by (simp add: blkdev_write_def range_check Let_def)
qed

text \<open>A device of either kind that can be written: what a file system or the partition manager needs.\<close>

definition rw_device :: "u32 \<Rightarrow> 'd blk_state \<Rightarrow> bool" where
  "rw_device bid s \<longleftrightarrow> mem_device bid s \<or> (\<exists>n dinv data. ops_device n dinv data bid s)"

lemma rw_device_write_read:
  assumes "rw_device bid s" "blkdev_get bid s = Some dev" "unat off + length buf \<le> unat (bd_size dev)"
  shows "\<exists>s' t. blkdev_write bid off (Some buf) s = (True, s') \<and>
    blkdev_read bid off True (of_nat (length buf)) s' = (Some buf, t)"
proof -
  have len: "length buf < 2 ^ 64" using assms(3) unat_less [of "bd_size dev"] by simp
  consider "mem_device bid s" | n dinv data where "ops_device n dinv data bid s"
    using assms(1) by (auto simp: rw_device_def)
  then show ?thesis
  proof cases
    case 1
    then show ?thesis using memdev.write_then_read [OF 1 _ len, of off] assms(2,3) by (simp add: mem_contents_def)
  next
    case 2
    then have "length (ops_contents data bid s) = unat (bd_size dev)"
      using assms(2) by (elim ops_deviceE) simp
    then show ?thesis using opsdev.write_then_read [OF 2 _ len, of off] assms(3) by simp
  qed
qed

text \<open>The contract of one entry of the device table, as a file system sees it: a byte-addressed device
  whose size is the size the table records. Transfers do not change the table.\<close>

locale byte_store = byte_device invar contents
    "\<lambda>off len. blkdev_read bid off True len" "\<lambda>off buf. blkdev_write bid off (Some buf)"
  for bid :: u32 and invar :: "'d blk_state \<Rightarrow> bool" and contents :: "'d blk_state \<Rightarrow> bytes" +
  assumes size_law: "invar s \<Longrightarrow> \<exists>dev. blkdev_get bid s = Some dev \<and> unat (bd_size dev) = length (contents s)"

interpretation memstore: byte_store bid "mem_device bid" "mem_contents bid" for bid
  by unfold_locales (auto simp: mem_device_def mem_contents_def split: option.splits)

interpretation opsstore: byte_store bid "ops_device n dinv data bid" "ops_contents data bid" for n dinv data bid
  by unfold_locales (auto elim: ops_deviceE)

lemma rw_device_store:
  assumes "rw_device bid s"
  obtains invar contents where "byte_store bid invar contents" "invar s"
  using assms memstore.byte_store_axioms opsstore.byte_store_axioms unfolding rw_device_def by blast

lemma g_blkdevs_read [simp]: "g_blkdevs (snd (blkdev_read bid off buf len s)) = g_blkdevs s"
  by (simp add: blkdev_read_def Let_def split: option.splits prod.splits)

section \<open>The device table\<close>

definition blkdev_wf :: "nat \<Rightarrow> 'd blkdev \<Rightarrow> bool" where
  "blkdev_wf i dev \<longleftrightarrow> (bd_in_use dev \<longrightarrow>
     bd_id dev = of_nat i \<and> bd_block_size dev \<noteq> 0 \<and> bd_size dev \<noteq> 0 \<and> length (bd_name dev) < BLKDEV_NAME_MAX \<and>
     (bd_has_ops dev \<longrightarrow> bd_read_blocks dev \<noteq> None) \<and>
     (\<not> bd_has_ops dev \<longrightarrow> unat (bd_data dev) + unat (bd_size dev) < 2 ^ 32))"

definition blk_ok :: "'d blk_state \<Rightarrow> bool" where
  "blk_ok s \<longleftrightarrow> length (g_blkdevs s) = BLKDEV_MAX \<and> (\<forall>i < BLKDEV_MAX. blkdev_wf i (g_blkdevs s ! i))"

lemma blk_ok_init: "blk_ok (blkdev_init s)"
  by (simp add: blk_ok_def blkdev_init_def blkdev_wf_def blkdev_zero_def)

lemma blk_ok_put:
  assumes "blk_ok s" "blkdev_wf i dev"
  shows "blk_ok (s\<lparr>g_blkdevs := (g_blkdevs s)[i := dev]\<rparr>)"
  using assms by (auto simp: blk_ok_def) (metis nth_list_update nth_list_update_neq)

lemma unat_id: "i < BLKDEV_MAX \<Longrightarrow> unat (of_nat i :: u32) = i"
  by (intro unat_of_nat_small) (simp add: BLKDEV_MAX_def)

lemma id_eq_iff: "i < BLKDEV_MAX \<Longrightarrow> (bid :: u32) = of_nat i \<longleftrightarrow> unat bid = i"
  by (metis unat_id word_unat_eq_iff)

text \<open>A device put in a free slot becomes the device of that number, and no other number changes.\<close>

lemma blkdev_get_put:
  assumes "blk_ok s" "i < BLKDEV_MAX" "bd_in_use dev"
  shows "blkdev_get bid (s\<lparr>g_blkdevs := (g_blkdevs s)[i := dev]\<rparr>) =
    (if bid = of_nat i then Some dev else blkdev_get bid s)"
  using assms by (auto simp: blkdev_get_def blk_ok_def id_eq_iff nth_list_update unat_id)

lemma free_slot:
  assumes "blk_ok s" "find_slot (\<lambda>d. \<not> bd_in_use d) (g_blkdevs s) = Some i"
  shows "i < BLKDEV_MAX" "blkdev_get (of_nat i) s = None"
  using find_slot_SomeD [OF assms(2)] assms(1) by (auto simp: blk_ok_def blkdev_get_def unat_id)

lemma table_full:
  assumes "blk_ok s"
  shows "find_slot (\<lambda>d. \<not> bd_in_use d) (g_blkdevs s) = None \<longleftrightarrow>
    (\<forall>i < BLKDEV_MAX. blkdev_get (of_nat i) s \<noteq> None)"
  using assms by (auto simp: find_slot_None blk_ok_def blkdev_get_def unat_id all_set_conv_all_nth)

lemma invalid_id: "i < BLKDEV_MAX \<Longrightarrow> (of_nat i :: u32) \<noteq> BLKDEV_INVALID_ID"
proof
  assume i: "i < BLKDEV_MAX" and "(of_nat i :: u32) = BLKDEV_INVALID_ID"
  then have "unat (of_nat i :: u32) = 0xFFFFFFFF" by (simp add: BLKDEV_INVALID_ID_def)
  with i show False by (simp add: unat_id BLKDEV_MAX_def)
qed

lemma blkdev_register_memory_step:
  assumes "blk_ok s" "blkdev_register_memory name start end bs ro s = (bid, s')"
  shows "blk_ok s' \<and>
    (if end \<le> start \<or> (\<forall>i < BLKDEV_MAX. blkdev_get (of_nat i) s \<noteq> None) then bid = BLKDEV_INVALID_ID \<and> s' = s
     else bid \<noteq> BLKDEV_INVALID_ID \<and> blkdev_get bid s = None \<and>
       (\<forall>other. other \<noteq> bid \<longrightarrow> blkdev_get other s' = blkdev_get other s) \<and> memory s' = memory s \<and> disk s' = disk s \<and>
       (\<exists>dev. blkdev_get bid s' = Some dev \<and> \<not> bd_has_ops dev \<and> bd_data dev = ucast start \<and>
          unat (bd_size dev) = unat end - unat start \<and> bd_read_only dev = (ro \<noteq> 0) \<and>
          bd_block_size dev = (if bs = 0 then 512 else bs) \<and> bd_name dev = copy_string BLKDEV_NAME_MAX (name_string name)))"
proof (cases "end \<le> start \<or> find_slot (\<lambda>d. \<not> bd_in_use d) (g_blkdevs s) = None")
  case True
  then have "bid = BLKDEV_INVALID_ID \<and> s' = s"
    using assms(2) by (auto simp: blkdev_register_memory_def Let_def split: if_splits)
  then show ?thesis using True assms(1) table_full [OF assms(1)] by simp
next
  case False
  then obtain i where i: "find_slot (\<lambda>d. \<not> bd_in_use d) (g_blkdevs s) = Some i" and less: "\<not> end \<le> start" by auto
  have size: "unat (ucast end - ucast start :: u64) = unat end - unat start"
    using less by (subst unat_sub_small) (auto simp: unat_ucast_u64 word_le_nat_alt)
  have size0: "(ucast end - ucast start :: u64) \<noteq> 0"
    using less size by (auto simp: word_le_nat_alt simp flip: unat_eq_zero)
  define dev where "dev = (blkdev_zero :: 'a blkdev)\<lparr>bd_in_use := True, bd_read_only := ro \<noteq> 0, bd_id := of_nat i,
      bd_block_size := (if bs = 0 then 512 else bs), bd_size := ucast end - ucast start,
      bd_data := ucast start, bd_name := copy_string BLKDEV_NAME_MAX (name_string name)\<rparr>"
  have eq: "bid = of_nat i" "s' = s\<lparr>g_blkdevs := (g_blkdevs s)[i := dev]\<rparr>"
    using assms(2) less i by (auto simp: blkdev_register_memory_def Let_def dev_def)
  have "unat start + (unat end - unat start) < 2 ^ 32"
    using less unat_less [of "end"] by (simp add: word_le_nat_alt)
  then have wf: "blkdev_wf i dev"
    using size0 by (simp add: blkdev_wf_def dev_def blkdev_zero_def size unat_ucast_u64 length_copy_string BLKDEV_NAME_MAX_def)
  note slot = free_slot [OF assms(1) i] and get = blkdev_get_put [OF assms(1) free_slot(1) [OF assms(1) i], of dev]
  have "find_slot (\<lambda>d. \<not> bd_in_use d) (g_blkdevs s) \<noteq> None" using i by simp
  then show ?thesis
    using less blk_ok_put [OF assms(1) wf] slot invalid_id [OF slot(1)] get table_full [OF assms(1)] size
    unfolding eq by (auto simp: dev_def blkdev_zero_def)
qed

lemma blkdev_register_ops_step:
  assumes "blk_ok s" "blkdev_register_ops name sz bs ro rd wr s = (bid, s')"
  shows "blk_ok s' \<and>
    (if sz = 0 \<or> rd = None \<or> (\<forall>i < BLKDEV_MAX. blkdev_get (of_nat i) s \<noteq> None) then bid = BLKDEV_INVALID_ID \<and> s' = s
     else bid \<noteq> BLKDEV_INVALID_ID \<and> blkdev_get bid s = None \<and>
       (\<forall>other. other \<noteq> bid \<longrightarrow> blkdev_get other s' = blkdev_get other s) \<and> memory s' = memory s \<and> disk s' = disk s \<and>
       (\<exists>dev. blkdev_get bid s' = Some dev \<and> bd_has_ops dev \<and> bd_size dev = sz \<and> bd_read_only dev = (ro \<noteq> 0) \<and>
          bd_read_blocks dev = rd \<and> bd_write_blocks dev = wr \<and>
          bd_block_size dev = (if bs = 0 then 512 else bs) \<and> bd_name dev = copy_string BLKDEV_NAME_MAX (name_string name)))"
proof (cases "sz = 0 \<or> rd = None \<or> find_slot (\<lambda>d. \<not> bd_in_use d) (g_blkdevs s) = None")
  case True
  then have "bid = BLKDEV_INVALID_ID \<and> s' = s"
    using assms(2) by (auto simp: blkdev_register_ops_def Let_def split: if_splits)
  then show ?thesis using True assms(1) table_full [OF assms(1)] by simp
next
  case False
  then obtain i where i: "find_slot (\<lambda>d. \<not> bd_in_use d) (g_blkdevs s) = Some i" and ok: "sz \<noteq> 0" "rd \<noteq> None" by auto
  define dev where "dev = (blkdev_zero :: 'a blkdev)\<lparr>bd_in_use := True, bd_read_only := ro \<noteq> 0, bd_has_ops := True,
      bd_id := of_nat i, bd_block_size := (if bs = 0 then 512 else bs), bd_size := sz,
      bd_read_blocks := rd, bd_write_blocks := wr, bd_name := copy_string BLKDEV_NAME_MAX (name_string name)\<rparr>"
  have eq: "bid = of_nat i" "s' = s\<lparr>g_blkdevs := (g_blkdevs s)[i := dev]\<rparr>"
    using assms(2) ok i by (auto simp: blkdev_register_ops_def Let_def dev_def)
  have wf: "blkdev_wf i dev"
    using ok by (simp add: blkdev_wf_def dev_def blkdev_zero_def length_copy_string BLKDEV_NAME_MAX_def)
  note slot = free_slot [OF assms(1) i] and get = blkdev_get_put [OF assms(1) free_slot(1) [OF assms(1) i], of dev]
  have "find_slot (\<lambda>d. \<not> bd_in_use d) (g_blkdevs s) \<noteq> None" using i by simp
  then show ?thesis
    using ok blk_ok_put [OF assms(1) wf] slot invalid_id [OF slot(1)] get table_full [OF assms(1)]
    unfolding eq by (auto simp: dev_def blkdev_zero_def)
qed

lemma blkdev_find_None:
  assumes "blk_ok s"
  shows "blkdev_find (Some name) s = None \<longleftrightarrow>
    (\<forall>bid dev. blkdev_get bid s = Some dev \<longrightarrow> bd_name dev \<noteq> name)"
proof -
  have "(\<forall>d \<in> set (g_blkdevs s). \<not> (bd_in_use d \<and> bd_name d = name)) \<longleftrightarrow>
      (\<forall>i < BLKDEV_MAX. \<forall>dev. blkdev_get (of_nat i) s = Some dev \<longrightarrow> bd_name dev \<noteq> name)"
    using assms by (auto simp: blk_ok_def blkdev_get_def unat_id all_set_conv_all_nth)
  moreover have "(\<forall>i < BLKDEV_MAX. \<forall>dev. blkdev_get (of_nat i) s = Some dev \<longrightarrow> bd_name dev \<noteq> name) \<longleftrightarrow>
      (\<forall>bid dev. blkdev_get bid s = Some dev \<longrightarrow> bd_name dev \<noteq> name)"
    by (metis blkdev_get_def id_eq_iff not_le_imp_less option.distinct(1))
  ultimately show ?thesis
    by (simp add: blkdev_find_def find_slot_None string_equals_def path_equals_eq)
qed

lemma blkdev_find_new:
  assumes "blk_ok s'" "blkdev_find (Some name) s = None" "blk_ok s"
    and "\<And>other. other \<noteq> bid \<Longrightarrow> blkdev_get other s' = blkdev_get other s"
    and "blkdev_get bid s' = Some dev" "bd_name dev = name"
  shows "blkdev_find (Some name) s' = Some dev"
proof -
  have bid: "unat bid < BLKDEV_MAX" "g_blkdevs s' ! unat bid = dev" "bd_in_use dev"
    using assms(5) by (auto simp: blkdev_get_def split: if_splits)
  have "find_slot (\<lambda>d. bd_in_use d \<and> string_equals (bd_name d) (Some name)) (g_blkdevs s') = Some (unat bid)"
  proof (rule find_slot_unique)
    show "unat bid < length (g_blkdevs s')" using bid(1) assms(1) by (simp add: blk_ok_def)
    show "bd_in_use (g_blkdevs s' ! unat bid) \<and> string_equals (bd_name (g_blkdevs s' ! unat bid)) (Some name)"
      using bid assms(6) by (simp add: string_equals_def path_equals_eq)
    fix j assume j: "j < length (g_blkdevs s')"
      and p: "bd_in_use (g_blkdevs s' ! j) \<and> string_equals (bd_name (g_blkdevs s' ! j)) (Some name)"
    then have jm: "j < BLKDEV_MAX" using assms(1) by (simp add: blk_ok_def)
    then have "blkdev_get (of_nat j) s' = Some (g_blkdevs s' ! j)" using p by (simp add: blkdev_get_def unat_id)
    then have "(of_nat j :: u32) = bid"
      using assms(2) assms(4) [of "of_nat j"] p blkdev_find_None [OF assms(3)]
      by (metis option.simps(5) path_equals_eq string_equals_def)
    then show "j = unat bid" using unat_id [OF jm] by metis
  qed
  then show ?thesis using bid by (simp add: blkdev_find_def)
qed

section \<open>Properties\<close>

text \<open>A driver on a disk that is a list of 4-byte blocks, for the examples.\<close>

definition ram_read :: "bytes block_reader" where
  "ram_read lba cnt d = (if unat lba + unat cnt \<le> 3 then Some (subarr (unat lba * 4) (unat cnt * 4) d) else None, d)"

definition ram_write :: "bytes block_writer" where
  "ram_write lba cnt buf d = (if unat lba + unat cnt \<le> 3 then (True, overwrite (unat lba * 4) buf d) else (False, d))"

definition ram_boot :: "bytes blk_state" where
  "ram_boot = blkdev_init \<lparr>g_blkdevs = [], memory = (\<lambda>a. 7), disk = replicate 12 0\<rparr>"

definition ram_state :: "bytes blk_state" where
  "ram_state = snd (blkdev_register_ops (Some ''ram0'') 12 4 0 (Some ram_read) (Some ram_write) ram_boot)"

lemma first_slot: "replicate 16 x = x # replicate 15 x"
  by (simp flip: replicate_Suc)

lemma ram_driver_ok: "driver_ok 4 3 (\<lambda>d. length d = 12) (\<lambda>d. d) ram_read ram_write"
  by (auto simp: driver_ok_def ram_read_def ram_write_def arr_simps)

lemma ram_boot_ok: "blk_ok ram_boot" "blkdev_get bid ram_boot = None"
  by (simp_all add: ram_boot_def blk_ok_init) (auto simp: blkdev_init_def blkdev_get_def blkdev_zero_def)

lemma ram_get: "blkdev_get 0 ram_state = Some (blkdev_zero\<lparr>bd_in_use := True, bd_has_ops := True, bd_block_size := 4,
    bd_size := 12, bd_read_blocks := Some ram_read, bd_write_blocks := Some ram_write, bd_name := ''ram0''\<rparr>)"
  by (simp add: ram_state_def ram_boot_def blkdev_init_def blkdev_register_ops_def blkdev_get_def BLKDEV_MAX_def
      BLKDEV_NAME_MAX_def blkdev_zero_def name_string_def first_slot)

lemma ram_ops_device: "ops_device 3 (\<lambda>d. length d = 12) (\<lambda>d. d) 0 ram_state"
  using ram_driver_ok
  by (simp add: ops_device_def ram_get blkdev_zero_def SECTOR_BYTES_def)
    (simp add: ram_state_def ram_boot_def blkdev_init_def blkdev_register_ops_def blkdev_zero_def BLKDEV_MAX_def
      first_slot)

lemma ram_contents: "ops_contents (\<lambda>d. d) 0 ram_state = replicate 12 0"
  by (simp add: ops_contents_def ram_get blkdev_zero_def)
    (simp add: ram_state_def ram_boot_def blkdev_init_def blkdev_register_ops_def blkdev_zero_def BLKDEV_MAX_def
      first_slot)

text \<open>
  C5. A driver-backed device behaves as one flat array of bytes. For any driver that transfers
  whole blocks correctly, a write at any offset and of any length inside the device succeeds and
  replaces exactly those bytes (the neighbouring bytes of partly covered blocks survive the
  read-modify-write), and every later read returns the resulting bytes or, out of range, fails.\<close>

theorem blkdev_driver_flat:
  assumes "ops_device n dinv data bid s"
    and "unat off + length buf \<le> length (ops_contents data bid s)"
  shows "\<exists>s'. blkdev_write bid off (Some buf) s = (True, s') \<and> ops_device n dinv data bid s' \<and>
    ops_contents data bid s' = overwrite (unat off) buf (ops_contents data bid s) \<and>
    (\<forall>off' len. fst (blkdev_read bid off' True len s') =
       (if unat off' + unat len \<le> length (ops_contents data bid s)
        then Some (subarr (unat off') (unat len) (overwrite (unat off) buf (ops_contents data bid s))) else None))"
proof -
  obtain s' where s': "blkdev_write bid off (Some buf) s = (True, s')" "ops_device n dinv data bid s'"
    "ops_contents data bid s' = overwrite (unat off) buf (ops_contents data bid s)"
    using opsdev.write_ok [OF assms] by blast
  have "fst (blkdev_read bid off' True len s') =
      (if unat off' + unat len \<le> length (ops_contents data bid s)
       then Some (subarr (unat off') (unat len) (overwrite (unat off) buf (ops_contents data bid s))) else None)"
    for off' len
    using opsdev.read_ok [OF s'(2), of off' len] opsdev.read_range [OF s'(2), of off' len] s'(3) assms(2)
    by (auto simp: length_overwrite)
  then show ?thesis using s' by blast
qed

theorem blkdev_driver_flat_witness:
  "\<exists>s'. blkdev_write 0 3 (Some [1, 2, 3]) ram_state = (True, s') \<and>
     fst (blkdev_read 0 2 True 5 s') = Some [0, 1, 2, 3, 0]"
proof -
  obtain s' where s': "blkdev_write 0 3 (Some [1, 2, 3]) ram_state = (True, s')"
    and r: "\<forall>off' len. fst (blkdev_read 0 off' True len s') =
       (if unat off' + unat len \<le> 12
        then Some (subarr (unat off') (unat len) (overwrite 3 [1, 2, 3] (replicate 12 0))) else None)"
    using blkdev_driver_flat [OF ram_ops_device, of 3 "[1, 2, 3]"] unfolding ram_contents by auto
  have "fst (blkdev_read 0 2 True 5 s') = Some [0, 1, 2, 3, 0]"
  proof -
    have "subarr 2 5 (overwrite 3 [1, 2, 3] (replicate 12 0)) = [0, 1, 2, 3, 0 :: u8]" by code_simp
    then show ?thesis using r [rule_format, of 2 5] by simp
  qed
  with s' show ?thesis by blast
qed

text \<open>
  Registering a device keeps the table well formed, hands out a number that no device had,
  leaves every other device as it was, and makes the device findable by its name. It fails, with
  the table unchanged, exactly when the arguments are invalid or all 16 slots are taken.\<close>

theorem blkdev_register_then_find:
  assumes "blk_ok s" and "blkdev_register_ops (Some name) sz bs ro rd wr s = (bid, s')"
    and "sz \<noteq> 0" and "rd \<noteq> None" and "length name < BLKDEV_NAME_MAX" and "blkdev_find (Some name) s = None"
  shows "blk_ok s' \<and>
    (if \<forall>i < BLKDEV_MAX. blkdev_get (of_nat i) s \<noteq> None then bid = BLKDEV_INVALID_ID \<and> s' = s
     else blkdev_get bid s = None \<and> blkdev_get bid s' \<noteq> None \<and>
       blkdev_find (Some name) s' = blkdev_get bid s' \<and>
       (\<forall>other. other \<noteq> bid \<longrightarrow> blkdev_get other s' = blkdev_get other s))"
proof -
  note st = blkdev_register_ops_step [OF assms(1,2)]
  have nm: "copy_string BLKDEV_NAME_MAX (name_string (Some name)) = name"
    using assms(5) by (simp add: name_string_def copy_string_fits)
  show ?thesis
  proof (cases "\<forall>i < BLKDEV_MAX. blkdev_get (of_nat i) s \<noteq> None")
    case True
    then show ?thesis using st assms(1) by simp
  next
    case False
    then have c: "\<not> (sz = 0 \<or> rd = None \<or> (\<forall>i < BLKDEV_MAX. blkdev_get (of_nat i) s \<noteq> None))"
      using assms(3,4) by blast
    obtain dev where d: "blkdev_get bid s' = Some dev" "bd_name dev = name"
      "\<And>other. other \<noteq> bid \<Longrightarrow> blkdev_get other s' = blkdev_get other s" "blkdev_get bid s = None" "blk_ok s'"
      using st [unfolded if_not_P [OF c] nm] by blast
    have "blkdev_find (Some name) s' = Some dev"
      by (rule blkdev_find_new [OF d(5) assms(6,1) d(3) d(1,2)])
    then show ?thesis using False d by auto
  qed
qed

theorem blkdev_register_then_find_witness:
  "blkdev_find (Some ''ram0'') ram_state \<noteq> None \<and> blk_ok ram_state"
proof -
  obtain bid s' where r: "blkdev_register_ops (Some ''ram0'') 12 4 0 (Some ram_read) (Some ram_write) ram_boot = (bid, s')"
    by fastforce
  have "blkdev_find (Some ''ram0'') ram_boot = None"
    using blkdev_find_None [OF ram_boot_ok(1)] ram_boot_ok(2) by auto
  moreover have "\<not> (\<forall>i < BLKDEV_MAX. blkdev_get (of_nat i) ram_boot \<noteq> None)"
    using ram_boot_ok(2) by (auto simp: BLKDEV_MAX_def intro: exI [of _ 0])
  ultimately show ?thesis
    using blkdev_register_then_find [OF ram_boot_ok(1) r] r
    by (auto simp: ram_state_def BLKDEV_NAME_MAX_def)
qed

text \<open>
  C29. Block numbers wrap on memory devices. The byte offset of a block is computed as
  \<open>lba * block_size\<close> in 64 bits without an overflow check, so on a memory device with 512-byte
  blocks a read of block \<open>2 ^ 55\<close>, far outside the device, succeeds and returns block 0.\<close>

theorem blkdev_lba_wraps:
  assumes "mem_device bid s" and "blkdev_get bid s = Some dev" and "bd_block_size dev = 512"
    and "512 \<le> unat (bd_size dev)"
  shows "blkdev_read_blocks bid (2 ^ 55) 1 s = blkdev_read_blocks bid 0 1 s \<and>
    blkdev_read_blocks bid (2 ^ 55) 1 s = (Some (take 512 (mem_contents bid s)), s)"
proof -
  have "(2 :: u64) ^ 55 * 512 = 0" by simp
  moreover have "length (mem_contents bid s) = unat (bd_size dev)" using assms(2) by (simp add: mem_contents_def)
  moreover have "\<not> bd_has_ops dev" using assms(1,2) by (simp add: mem_device_def)
  ultimately show ?thesis
    using assms by (simp add: blkdev_read_blocks_def blkdev_read_mem subarr_def)
qed

theorem blkdev_lba_wraps_witness:
  "let s = snd (blkdev_register_memory None 0x1000 0x1400 0 0 ram_boot)
   in fst (blkdev_read_blocks 0 (2 ^ 55) 1 s) = Some (replicate 512 7)"
proof -
  define s where "s = snd (blkdev_register_memory None 0x1000 0x1400 0 0 ram_boot)"
  have g: "blkdev_get 0 s = Some (blkdev_zero\<lparr>bd_in_use := True, bd_block_size := 512, bd_size := 0x400, bd_data := 0x1000\<rparr>)"
    by (simp add: s_def ram_boot_def blkdev_init_def blkdev_register_memory_def blkdev_get_def BLKDEV_MAX_def
      BLKDEV_NAME_MAX_def blkdev_zero_def name_string_def first_slot)
  have m: "memory s = (\<lambda>a. 7)"
    by (simp add: s_def ram_boot_def blkdev_init_def blkdev_register_memory_def BLKDEV_MAX_def blkdev_zero_def first_slot)
  have "mem_device 0 s" by (simp add: mem_device_def g blkdev_zero_def)
  moreover have "take 512 (mem_contents 0 s) = replicate 512 7"
    by (rule nth_equalityI) (simp_all add: mem_contents_def g m mem_load_def blkdev_zero_def)
  ultimately show ?thesis
    using conjunct2 [OF blkdev_lba_wraps [of 0 s]] g by (simp add: s_def [symmetric] blkdev_zero_def)
qed

end
