(* ===== verification/Partition.thy ===== *)
theory Partition
  imports Blkdev
begin

text \<open>
  The partition manager, \<open>kernel/partition.c\<close>: a table of at most 8 partitions, filled from memory
  modules, from the on-disk AOSPT table or an MBR, or planned by the installer, and written back
  to block 0 of a device.

  Results of type \<open>int\<close> are \<open>nat option\<close> (or \<open>bool\<close> where only success is reported), \<open>None\<close> for -1.
  The C structures written to disk are laid out as the compiler for x86-64 does: 24 bytes of
  header and 8 entries of 56 bytes, little endian.
\<close>

definition PARTITION_MAX :: nat where "PARTITION_MAX = 8"

definition PARTITION_FS_UNKNOWN :: u8 where "PARTITION_FS_UNKNOWN = 0"
definition PARTITION_FS_FAT32 :: u8 where "PARTITION_FS_FAT32 = 1"
definition PARTITION_FS_EXT4 :: u8 where "PARTITION_FS_EXT4 = 2"
definition PARTITION_FS_AOSFS :: u8 where "PARTITION_FS_AOSFS = 3"
definition PARTITION_FS_SWAP :: u8 where "PARTITION_FS_SWAP = 4"

definition PARTITION_ROLE_UNKNOWN :: u8 where "PARTITION_ROLE_UNKNOWN = 0"
definition PARTITION_ROLE_ROOT :: u8 where "PARTITION_ROLE_ROOT = 1"
definition PARTITION_ROLE_MAIN :: u8 where "PARTITION_ROLE_MAIN = 2"
definition PARTITION_ROLE_ETC :: u8 where "PARTITION_ROLE_ETC = 3"
definition PARTITION_ROLE_COMMANDS :: u8 where "PARTITION_ROLE_COMMANDS = 4"
definition PARTITION_ROLE_TMP :: u8 where "PARTITION_ROLE_TMP = 5"
definition PARTITION_ROLE_SWAP :: u8 where "PARTITION_ROLE_SWAP = 6"
definition PARTITION_ROLE_TRASH :: u8 where "PARTITION_ROLE_TRASH = 7"

lemmas partition_fs_defs = PARTITION_FS_UNKNOWN_def PARTITION_FS_FAT32_def PARTITION_FS_EXT4_def
  PARTITION_FS_AOSFS_def PARTITION_FS_SWAP_def

lemmas partition_role_defs = PARTITION_ROLE_UNKNOWN_def PARTITION_ROLE_ROOT_def PARTITION_ROLE_MAIN_def
  PARTITION_ROLE_ETC_def PARTITION_ROLE_COMMANDS_def PARTITION_ROLE_TMP_def PARTITION_ROLE_SWAP_def
  PARTITION_ROLE_TRASH_def

definition EXT4_MAGIC_OFFSET :: nat where "EXT4_MAGIC_OFFSET = 1080"
definition AOSFS_MAGIC_SIZE :: nat where "AOSFS_MAGIC_SIZE = 6"
definition PLANNED_PARTITION_SIZE :: u64 where "PLANNED_PARTITION_SIZE = 8388608"
definition AOSPT_MAGIC0 :: u32 where "AOSPT_MAGIC0 = 0x50534F41"
definition AOSPT_MAGIC1 :: u32 where "AOSPT_MAGIC1 = 0x00003154"
definition AOSPT_VERSION :: u32 where "AOSPT_VERSION = 1"
definition AOSPT_FLAG_WRITTEN :: u8 where "AOSPT_FLAG_WRITTEN = 1"
definition AOSPT_RESERVED_BYTES :: u64 where "AOSPT_RESERVED_BYTES = 512"
definition DEFAULT_ROOT_SIZE :: u64 where "DEFAULT_ROOT_SIZE = 8388608"
definition LARGE_ROOT_SIZE :: u64 where "LARGE_ROOT_SIZE = 1073741824"
definition PARTITION_USE_REST :: u64 where "PARTITION_USE_REST = 0xFFFFFFFFFFFFFFFF"

record partition =
  p_in_use :: bool
  p_fs_type :: u8
  p_role :: u8
  p_index :: u16
  p_blkdev_id :: u32
  p_start :: u32
  p_end :: u32
  p_offset :: u64
  p_size :: u64
  p_name :: string

record part_state =
  g_partitions :: "partition list"
  g_partition_count :: nat
  g_next_offset :: u64

definition partition_zero :: partition where
  "partition_zero = \<lparr>p_in_use = False, p_fs_type = 0, p_role = 0, p_index = 0, p_blkdev_id = 0,
     p_start = 0, p_end = 0, p_offset = 0, p_size = 0, p_name = []\<rparr>"

fun recalc_loop :: "nat \<Rightarrow> nat \<Rightarrow> part_state \<Rightarrow> part_state" where
  "recalc_loop i 0 s = s"
| "recalc_loop i (Suc n) s =
     (let p = (g_partitions s ! i)\<lparr>p_index := of_nat i\<rparr>;
          s = s\<lparr>g_partitions := (g_partitions s)[i := p]\<rparr>;
          s = (if p_offset p + p_size p > g_next_offset s then s\<lparr>g_next_offset := p_offset p + p_size p\<rparr> else s)
      in recalc_loop (i + 1) n s)"

definition recalc_indices_and_next_offset :: "part_state \<Rightarrow> part_state" where
  "recalc_indices_and_next_offset s = recalc_loop 0 (g_partition_count s) (s\<lparr>g_next_offset := 0\<rparr>)"

definition next_offset_step :: "u32 \<Rightarrow> partition \<Rightarrow> u64 \<Rightarrow> u64" where
  "next_offset_step bid p nxt =
     (if \<not> p_in_use p \<or> p_blkdev_id p \<noteq> bid then nxt
      else if p_offset p + p_size p > nxt then p_offset p + p_size p else nxt)"

definition next_offset_for_blkdev :: "u32 \<Rightarrow> part_state \<Rightarrow> u64" where
  "next_offset_for_blkdev bid s =
     fold (next_offset_step bid) (take (g_partition_count s) (g_partitions s)) AOSPT_RESERVED_BYTES"

definition partition_fs_name :: "u8 \<Rightarrow> string" where
  "partition_fs_name fs_type =
     (if fs_type = PARTITION_FS_FAT32 then ''fat32'' else if fs_type = PARTITION_FS_EXT4 then ''ext4''
      else if fs_type = PARTITION_FS_AOSFS then ''aosfs'' else if fs_type = PARTITION_FS_SWAP then ''swap''
      else ''unknown'')"

definition partition_role_name :: "u8 \<Rightarrow> string" where
  "partition_role_name role =
     (if role = PARTITION_ROLE_ROOT then ''root'' else if role = PARTITION_ROLE_MAIN then ''main''
      else if role = PARTITION_ROLE_ETC then ''etc'' else if role = PARTITION_ROLE_COMMANDS then ''commands''
      else if role = PARTITION_ROLE_TMP then ''tmp'' else if role = PARTITION_ROLE_SWAP then ''swap''
      else if role = PARTITION_ROLE_TRASH then ''trash'' else ''unknown'')"

definition default_name_for_role :: "u8 \<Rightarrow> string option" where
  "default_name_for_role role = (if role = PARTITION_ROLE_UNKNOWN then None else Some (partition_role_name role))"

text \<open>The file-system signatures in the first 1082 bytes. Bytes beyond a short device read as 0.\<close>

definition ascii_at :: "nat \<Rightarrow> string \<Rightarrow> bytes \<Rightarrow> bool" where
  "ascii_at off str img \<longleftrightarrow> subarr off (length str) img = map of_char str"

definition detect_fs :: "u32 \<Rightarrow> u64 \<Rightarrow> 'd blk_state \<Rightarrow> u8 \<times> 'd blk_state" where
  "detect_fs bid sz blk =
     (if bid = BLKDEV_INVALID_ID then (PARTITION_FS_UNKNOWN, blk)
      else let read_len = (if unat sz < EXT4_MAGIC_OFFSET + 2 then sz else 1082)
           in case blkdev_read bid 0 True read_len blk of
                (None, blk') \<Rightarrow> (PARTITION_FS_UNKNOWN, blk')
              | (Some bs, blk') \<Rightarrow>
                  let img = bs @ replicate (1082 - length bs) 0
                  in (if unat sz \<ge> AOSFS_MAGIC_SIZE \<and> ascii_at 0 ''AOSFS1'' img then PARTITION_FS_AOSFS
                      else if unat sz \<ge> 512 + AOSFS_MAGIC_SIZE \<and> ascii_at 512 ''AOSFS1'' img then PARTITION_FS_AOSFS
                      else if unat sz \<ge> 512 \<and> img ! 510 = 0x55 \<and> img ! 511 = 0xAA \<and>
                              ascii_at 82 ''FAT32'' img then PARTITION_FS_FAT32
                      else if unat sz \<ge> EXT4_MAGIC_OFFSET + 2 \<and>
                              le_dec (subarr EXT4_MAGIC_OFFSET 2 img) = 0xEF53 then PARTITION_FS_EXT4
                      else PARTITION_FS_UNKNOWN, blk'))"

definition infer_role_from_name :: "string option \<Rightarrow> u8" where
  "infer_role_from_name name =
     (case name of None \<Rightarrow> PARTITION_ROLE_UNKNOWN
      | Some n \<Rightarrow> if n = ''root'' then PARTITION_ROLE_ROOT else if n = ''main'' then PARTITION_ROLE_MAIN
          else if n = ''etc'' then PARTITION_ROLE_ETC else if n = ''commands'' then PARTITION_ROLE_COMMANDS
          else if n = ''tmp'' then PARTITION_ROLE_TMP else if n = ''swap'' then PARTITION_ROLE_SWAP
          else if n = ''trash'' then PARTITION_ROLE_TRASH else PARTITION_ROLE_UNKNOWN)"

definition infer_default_role :: "partition \<Rightarrow> partition" where
  "infer_default_role part =
     (if p_role part \<noteq> PARTITION_ROLE_UNKNOWN then part
      else let part = part\<lparr>p_role := infer_role_from_name (Some (p_name part))\<rparr>
           in if p_role part = PARTITION_ROLE_UNKNOWN \<and> p_blkdev_id part \<noteq> BLKDEV_INVALID_ID \<and>
                 p_offset part = 512 \<and> p_fs_type part = PARTITION_FS_AOSFS
              then part\<lparr>p_role := PARTITION_ROLE_ROOT\<rparr> else part)"

definition partition_init :: "part_state \<Rightarrow> part_state" where
  "partition_init s = s\<lparr>g_partitions := replicate PARTITION_MAX partition_zero, g_partition_count := 0,
     g_next_offset := 0\<rparr>"

definition partition_register_memory ::
  "u32 \<Rightarrow> u32 \<Rightarrow> string option \<Rightarrow> part_state \<Rightarrow> 'd blk_state \<Rightarrow> nat option \<times> part_state \<times> 'd blk_state" where
  "partition_register_memory start end name s blk =
     (if end \<le> start \<or> g_partition_count s \<ge> PARTITION_MAX then (None, s, blk)
      else let n = g_partition_count s;
               (bid, blk) = blkdev_register_memory name start end 512 0 blk;
               sz = ucast end - ucast start;
               (fs, blk) = detect_fs bid sz blk;
               part = partition_zero\<lparr>p_in_use := True, p_index := of_nat n, p_blkdev_id := bid,
                 p_start := start, p_end := end, p_offset := g_next_offset s, p_size := sz,
                 p_fs_type := fs, p_role := infer_role_from_name name,
                 p_name := copy_string 16 (name_string name)\<rparr>
           in (Some n, s\<lparr>g_partitions := (g_partitions s)[n := part], g_next_offset := g_next_offset s + sz,
                         g_partition_count := n + 1\<rparr>, blk))"

definition partition_register_blkdev ::
  "u32 \<Rightarrow> u64 \<Rightarrow> u64 \<Rightarrow> u8 \<Rightarrow> string option \<Rightarrow> 'd blk_state \<Rightarrow> part_state \<Rightarrow> nat option \<times> part_state" where
  "partition_register_blkdev bid offset sz fs_type name blk s =
     (if blkdev_get bid blk = None \<or> sz = 0 \<or> g_partition_count s \<ge> PARTITION_MAX then (None, s)
      else let n = g_partition_count s;
               e = (ucast ((offset + sz) div 512) :: u32);
               role = infer_role_from_name name;
               part = partition_zero\<lparr>p_in_use := True, p_index := of_nat n, p_blkdev_id := bid,
                 p_start := ucast (offset div 512), p_end := (if e > 0 then e - 1 else e),
                 p_offset := offset, p_size := sz, p_fs_type := fs_type,
                 p_role := (if role = PARTITION_ROLE_UNKNOWN \<and> offset = 512 \<and> fs_type = PARTITION_FS_AOSFS
                            then PARTITION_ROLE_ROOT else role),
                 p_name := copy_string 16 (name_string name)\<rparr>
           in (Some n, s\<lparr>g_partitions := (g_partitions s)[n := part],
                 g_next_offset := (if offset + sz > g_next_offset s then offset + sz else g_next_offset s),
                 g_partition_count := n + 1\<rparr>))"

definition append_blkdev_partition ::
  "u32 \<Rightarrow> u64 \<Rightarrow> u64 \<Rightarrow> u8 \<Rightarrow> u8 \<Rightarrow> string \<Rightarrow> 'd blk_state \<Rightarrow> part_state \<Rightarrow> nat option \<times> part_state" where
  "append_blkdev_partition bid offset sz fs_type role name blk s =
     (case partition_register_blkdev bid offset sz fs_type (Some name) blk s of
        (None, s') \<Rightarrow> (None, s')
      | (Some i, s') \<Rightarrow> (Some i, s'\<lparr>g_partitions := (g_partitions s')[i := (g_partitions s' ! i)\<lparr>p_role := role\<rparr>]\<rparr>))"

subsection \<open>The on-disk table\<close>

record aospt_entry =
  e_offset :: u64
  e_size :: u64
  e_blkdev_id :: u32
  e_index :: u16
  e_fs_type :: u8
  e_role :: u8
  e_flags :: u8
  e_name :: bytes

record aospt_header =
  magic0 :: u32
  magic1 :: u32
  version :: u32
  entry_count :: u32
  disk_size :: u64
  entries :: "aospt_entry list"

definition encode_entry :: "aospt_entry \<Rightarrow> bytes" where
  "encode_entry e = le_enc 8 (unat (e_offset e)) @ le_enc 8 (unat (e_size e)) @ le_enc 4 (unat (e_blkdev_id e)) @
     le_enc 2 (unat (e_index e)) @ [e_fs_type e, e_role e, e_flags e] @ e_name e @ replicate 15 0"

definition decode_entry :: "bytes \<Rightarrow> aospt_entry" where
  "decode_entry b = \<lparr>e_offset = of_nat (le_dec (subarr 0 8 b)), e_size = of_nat (le_dec (subarr 8 8 b)),
     e_blkdev_id = of_nat (le_dec (subarr 16 4 b)), e_index = of_nat (le_dec (subarr 20 2 b)),
     e_fs_type = b ! 22, e_role = b ! 23, e_flags = b ! 24, e_name = subarr 25 16 b\<rparr>"

definition ENTRY_BYTES :: nat where "ENTRY_BYTES = 56"
definition HEADER_BYTES :: nat where "HEADER_BYTES = 472"

definition encode_header :: "aospt_header \<Rightarrow> bytes" where
  "encode_header h = le_enc 4 (unat (magic0 h)) @ le_enc 4 (unat (magic1 h)) @ le_enc 4 (unat (version h)) @
     le_enc 4 (unat (entry_count h)) @ le_enc 8 (unat (disk_size h)) @ concat (map encode_entry (entries h))"

definition decode_header :: "bytes \<Rightarrow> aospt_header" where
  "decode_header b = \<lparr>magic0 = of_nat (le_dec (subarr 0 4 b)), magic1 = of_nat (le_dec (subarr 4 4 b)),
     version = of_nat (le_dec (subarr 8 4 b)), entry_count = of_nat (le_dec (subarr 12 4 b)),
     disk_size = of_nat (le_dec (subarr 16 8 b)),
     entries = map (\<lambda>i. decode_entry (subarr (24 + i * ENTRY_BYTES) ENTRY_BYTES b)) [0..<PARTITION_MAX]\<rparr>"

definition load_entry :: "u32 \<Rightarrow> 'd blkdev \<Rightarrow> 'd blk_state \<Rightarrow> aospt_entry \<Rightarrow> nat \<times> part_state \<Rightarrow> nat \<times> part_state" where
  "load_entry bid dev blk entry ls =
     (let (loaded, s) = ls;
          legacy = (e_flags entry \<noteq> AOSPT_FLAG_WRITTEN \<and> e_flags entry AND AOSPT_FLAG_WRITTEN \<noteq> 0);
          loaded_name = (if legacy then char_of (unat (e_flags entry)) # copy_string 15 (cstr (e_name entry))
                         else copy_string 16 (cstr (e_name entry)));
          loaded_role = (if legacy then PARTITION_ROLE_UNKNOWN else e_role entry);
          loaded_flags = (if legacy then AOSPT_FLAG_WRITTEN else e_flags entry)
      in if loaded_flags AND AOSPT_FLAG_WRITTEN = 0 then (loaded, s)
         else if e_size entry = 0 \<or> e_offset entry \<ge> bd_size dev \<or> e_size entry > bd_size dev - e_offset entry
         then (loaded, s)
         else case partition_register_blkdev bid (e_offset entry) (e_size entry) (e_fs_type entry) (Some loaded_name) blk s of
                (None, s') \<Rightarrow> (loaded, s')
              | (Some _, s') \<Rightarrow>
                  let k = g_partition_count s' - 1
                  in (loaded + 1, s'\<lparr>g_partitions := (g_partitions s')[k :=
                        infer_default_role ((g_partitions s' ! k)\<lparr>p_role := loaded_role\<rparr>)]\<rparr>))"

definition partition_load_table :: "u32 \<Rightarrow> part_state \<Rightarrow> 'd blk_state \<Rightarrow> nat option \<times> part_state \<times> 'd blk_state" where
  "partition_load_table bid s blk =
     (case blkdev_get bid blk of
        None \<Rightarrow> (None, s, blk)
      | Some dev \<Rightarrow> (case blkdev_read bid 0 True (of_nat HEADER_BYTES) blk of
          (None, blk') \<Rightarrow> (None, s, blk')
        | (Some b, blk') \<Rightarrow>
            let h = decode_header b
            in if magic0 h \<noteq> AOSPT_MAGIC0 \<or> magic1 h \<noteq> AOSPT_MAGIC1 \<or> version h \<noteq> AOSPT_VERSION then (None, s, blk')
               else if unat (entry_count h) > PARTITION_MAX then (None, s, blk')
               else let (loaded, s') = fold (load_entry bid dev blk') (take (unat (entry_count h)) (entries h)) (0, s)
                    in (if loaded \<noteq> 0 then Some loaded else None, s', blk')))"

definition mbr_kind :: "u8 \<Rightarrow> u8 \<times> u8 \<times> string" where
  "mbr_kind type =
     (if type = 0x0B \<or> type = 0x0C \<or> type = 0xEF then (PARTITION_FS_FAT32, PARTITION_ROLE_UNKNOWN, ''boot'')
      else if type = 0x7F then (PARTITION_FS_AOSFS, PARTITION_ROLE_ROOT, ''root'')
      else if type = 0x82 then (PARTITION_FS_SWAP, PARTITION_ROLE_SWAP, ''swap'')
      else if type = 0x83 then (PARTITION_FS_EXT4, PARTITION_ROLE_UNKNOWN, ''linux'')
      else (PARTITION_FS_UNKNOWN, PARTITION_ROLE_UNKNOWN, ''mbr''))"

definition load_mbr_entry :: "u32 \<Rightarrow> 'd blkdev \<Rightarrow> 'd blk_state \<Rightarrow> bytes \<Rightarrow> nat \<times> part_state \<Rightarrow> nat \<times> part_state" where
  "load_mbr_entry bid dev blk entry ls =
     (let (loaded, s) = ls;
          type = entry ! 4;
          sectors = (of_nat (le_dec (subarr 12 4 entry)) :: u64);
          offset = (of_nat (le_dec (subarr 8 4 entry)) :: u64) * 512;
          sz = sectors * 512
      in if type = 0 \<or> sectors = 0 \<or> offset \<ge> bd_size dev \<or> sz > bd_size dev - offset then (loaded, s)
         else let (fs_type, role, name) = mbr_kind type
              in case append_blkdev_partition bid offset sz fs_type role name blk s of
                   (None, s') \<Rightarrow> (loaded, s')
                 | (Some _, s') \<Rightarrow> (loaded + 1, s'))"

definition partition_load_mbr :: "u32 \<Rightarrow> part_state \<Rightarrow> 'd blk_state \<Rightarrow> nat option \<times> part_state \<times> 'd blk_state" where
  "partition_load_mbr bid s blk =
     (case blkdev_get bid blk of
        None \<Rightarrow> (None, s, blk)
      | Some dev \<Rightarrow>
          if bd_size dev < 512 then (None, s, blk)
          else (case blkdev_read bid 0 True 512 blk of
            (None, blk') \<Rightarrow> (None, s, blk')
          | (Some sector, blk') \<Rightarrow>
              if sector ! 510 \<noteq> 0x55 \<or> sector ! 511 \<noteq> 0xAA then (None, s, blk')
              else let (loaded, s') = fold (load_mbr_entry bid dev blk')
                         (map (\<lambda>i. subarr (446 + i * 16) 16 sector) [0..<4]) (0, s)
                   in (if loaded \<noteq> 0 then Some loaded else None, s', blk')))"

subsection \<open>Lookup and planning\<close>

definition partition_find_by_role :: "u8 \<Rightarrow> part_state \<Rightarrow> partition option" where
  "partition_find_by_role role s =
     find (\<lambda>p. p_in_use p \<and> p_role p = role) (take (g_partition_count s) (g_partitions s))"

definition partition_find_by_fs :: "u8 \<Rightarrow> part_state \<Rightarrow> partition option" where
  "partition_find_by_fs fs_type s =
     find (\<lambda>p. p_in_use p \<and> p_fs_type p = fs_type) (take (g_partition_count s) (g_partitions s))"

definition partition_get :: "nat \<Rightarrow> part_state \<Rightarrow> partition option" where
  "partition_get index s =
     (if index \<ge> g_partition_count s \<or> \<not> p_in_use (g_partitions s ! index) then None
      else Some (g_partitions s ! index))"

definition partition_count :: "part_state \<Rightarrow> nat" where
  "partition_count s = g_partition_count s"

definition planned_name :: "u16 \<Rightarrow> string" where
  "planned_name index = ''newp'' @ [if index < 10 then char_of (48 + unat index) else CHR ''0'']"

definition planned_size :: "u64 \<Rightarrow> u64 \<Rightarrow> u64" where
  "planned_size rest sz =
     (let sz = (if sz = 0 then PLANNED_PARTITION_SIZE else sz)
      in if sz = PARTITION_USE_REST then rest else sz)"

definition planned_part :: "nat \<Rightarrow> u64 \<Rightarrow> u64 \<Rightarrow> u8 \<Rightarrow> u8 \<Rightarrow> partition" where
  "planned_part n offset sz fs_type role =
     partition_zero\<lparr>p_in_use := True, p_index := of_nat n, p_blkdev_id := 0, p_offset := offset,
       p_size := sz, p_fs_type := fs_type, p_role := role,
       p_name := copy_string 16 (case default_name_for_role role of
         Some nm \<Rightarrow> nm | None \<Rightarrow> planned_name (of_nat n))\<rparr>"

definition partition_create_planned :: "u8 \<Rightarrow> u64 \<Rightarrow> u8 \<Rightarrow> 'd blk_state \<Rightarrow> part_state \<Rightarrow> nat option \<times> part_state" where
  "partition_create_planned fs_type sz role blk s =
     (if g_partition_count s \<ge> PARTITION_MAX then (None, s)
      else case blkdev_get 0 blk of
        None \<Rightarrow> (None, s)
      | Some dev \<Rightarrow>
          if bd_read_only dev then (None, s)
          else let offset = next_offset_for_blkdev 0 s
               in if offset \<ge> bd_size dev then (None, s)
                  else let sz = planned_size (bd_size dev - offset) sz
                       in if sz = 0 \<or> sz > bd_size dev - offset then (None, s)
                          else let n = g_partition_count s;
                                   part = planned_part n offset sz fs_type role
                               in (Some n, s\<lparr>g_partitions := (g_partitions s)[n := part],
                                     g_next_offset := (if offset + sz > g_next_offset s then offset + sz else g_next_offset s),
                                     g_partition_count := n + 1\<rparr>))"

definition planned :: "partition \<Rightarrow> bool" where
  "planned part \<longleftrightarrow> \<not> (\<not> p_in_use part \<or> p_start part \<noteq> 0 \<or> p_end part \<noteq> 0)"

definition partition_delete_planned :: "nat \<Rightarrow> part_state \<Rightarrow> bool \<times> part_state" where
  "partition_delete_planned index s =
     (if index \<ge> g_partition_count s then (False, s)
      else if \<not> planned (g_partitions s ! index) then (False, s)
      else if index + 1 \<noteq> g_partition_count s then (False, s)
      else (True, recalc_indices_and_next_offset
              (s\<lparr>g_partitions := (g_partitions s)[index := partition_zero],
                 g_partition_count := g_partition_count s - 1\<rparr>)))"

definition next_fs_type :: "u8 \<Rightarrow> u8" where
  "next_fs_type fs =
     (if fs = PARTITION_FS_UNKNOWN then PARTITION_FS_EXT4 else if fs = PARTITION_FS_EXT4 then PARTITION_FS_FAT32
      else if fs = PARTITION_FS_FAT32 then PARTITION_FS_AOSFS else PARTITION_FS_UNKNOWN)"

definition partition_cycle_planned_type :: "nat \<Rightarrow> part_state \<Rightarrow> bool \<times> part_state" where
  "partition_cycle_planned_type index s =
     (if index \<ge> g_partition_count s then (False, s)
      else let part = g_partitions s ! index
           in if \<not> planned part then (False, s)
              else (True, s\<lparr>g_partitions := (g_partitions s)[index := part\<lparr>p_fs_type := next_fs_type (p_fs_type part)\<rparr>]\<rparr>))"

definition next_role :: "u8 \<Rightarrow> u8" where
  "next_role role =
     (if role = PARTITION_ROLE_UNKNOWN then PARTITION_ROLE_ROOT
      else if role = PARTITION_ROLE_ROOT then PARTITION_ROLE_MAIN
      else if role = PARTITION_ROLE_MAIN then PARTITION_ROLE_ETC
      else if role = PARTITION_ROLE_ETC then PARTITION_ROLE_COMMANDS
      else if role = PARTITION_ROLE_COMMANDS then PARTITION_ROLE_TMP
      else if role = PARTITION_ROLE_TMP then PARTITION_ROLE_SWAP
      else if role = PARTITION_ROLE_SWAP then PARTITION_ROLE_TRASH
      else PARTITION_ROLE_UNKNOWN)"

definition partition_cycle_planned_role :: "nat \<Rightarrow> part_state \<Rightarrow> bool \<times> part_state" where
  "partition_cycle_planned_role index s =
     (if index \<ge> g_partition_count s then (False, s)
      else let part = g_partitions s ! index
           in if \<not> planned part then (False, s)
              else (True, s\<lparr>g_partitions := (g_partitions s)[index := part\<lparr>p_role := next_role (p_role part)\<rparr>]\<rparr>))"

definition partition_delete_last_planned :: "part_state \<Rightarrow> bool \<times> part_state" where
  "partition_delete_last_planned s =
     (if g_partition_count s = 0 then (False, s) else partition_delete_planned (g_partition_count s - 1) s)"

definition partition_cycle_last_planned_type :: "part_state \<Rightarrow> bool \<times> part_state" where
  "partition_cycle_last_planned_type s =
     (if g_partition_count s = 0 then (False, s) else partition_cycle_planned_type (g_partition_count s - 1) s)"

definition partition_cycle_last_planned_role :: "part_state \<Rightarrow> bool \<times> part_state" where
  "partition_cycle_last_planned_role s =
     (if g_partition_count s = 0 then (False, s) else partition_cycle_planned_role (g_partition_count s - 1) s)"

text \<open>The compaction loop shared by the two layout functions: partitions of other devices are moved
  down over those of the device, the freed slots are zeroed.\<close>

fun compact_loop :: "u32 \<Rightarrow> nat \<Rightarrow> nat \<Rightarrow> nat \<Rightarrow> partition list \<Rightarrow> nat \<times> partition list" where
  "compact_loop bid i 0 write_index ps = (write_index, ps)"
| "compact_loop bid i (Suc n) write_index ps =
     (if p_in_use (ps ! i) \<and> p_blkdev_id (ps ! i) \<noteq> bid
      then compact_loop bid (i + 1) n (write_index + 1) (if write_index \<noteq> i then ps[write_index := ps ! i] else ps)
      else compact_loop bid (i + 1) n write_index ps)"

definition drop_device_partitions :: "u32 \<Rightarrow> part_state \<Rightarrow> part_state" where
  "drop_device_partitions bid s =
     (let (write_index, ps) = compact_loop bid 0 (g_partition_count s) 0 (g_partitions s)
      in recalc_indices_and_next_offset
           (s\<lparr>g_partitions := fold (\<lambda>i qs. qs[i := partition_zero]) [write_index..<g_partition_count s] ps,
              g_partition_count := write_index\<rparr>))"

definition partition_create_default_layout :: "u32 \<Rightarrow> 'd blk_state \<Rightarrow> part_state \<Rightarrow> bool \<times> part_state" where
  "partition_create_default_layout bid blk s =
     (case blkdev_get bid blk of
        None \<Rightarrow> (False, s)
      | Some dev \<Rightarrow>
          if bd_read_only dev \<or> bd_size dev < AOSPT_RESERVED_BYTES + DEFAULT_ROOT_SIZE then (False, s)
          else let root_size = (if bd_size dev \<ge> 2147483648 then LARGE_ROOT_SIZE else DEFAULT_ROOT_SIZE);
                   s = drop_device_partitions bid s
               in if g_partition_count s + 1 > PARTITION_MAX then (False, s)
                  else case append_blkdev_partition bid AOSPT_RESERVED_BYTES root_size PARTITION_FS_AOSFS
                              PARTITION_ROLE_ROOT ''root'' blk s of
                         (None, s') \<Rightarrow> (False, s')
                       | (Some _, s') \<Rightarrow> (True, recalc_indices_and_next_offset s'))"

definition partition_create_installed_layout ::
  "u32 \<Rightarrow> u64 \<Rightarrow> u64 \<Rightarrow> u64 \<Rightarrow> 'd blk_state \<Rightarrow> part_state \<Rightarrow> bool \<times> part_state" where
  "partition_create_installed_layout bid boot_offset boot_size root_offset blk s =
     (case blkdev_get bid blk of
        None \<Rightarrow> (False, s)
      | Some dev \<Rightarrow>
          if bd_read_only dev \<or> boot_size = 0 \<or> boot_offset \<ge> bd_size dev \<or>
             boot_size > bd_size dev - boot_offset \<or> root_offset \<ge> bd_size dev then (False, s)
          else let s = drop_device_partitions bid s
               in if g_partition_count s + 2 > PARTITION_MAX then (False, s)
                  else case append_blkdev_partition bid boot_offset boot_size PARTITION_FS_FAT32
                              PARTITION_ROLE_UNKNOWN ''boot'' blk s of
                         (None, s') \<Rightarrow> (False, s')
                       | (Some _, s') \<Rightarrow>
                           (case append_blkdev_partition bid root_offset (bd_size dev - root_offset)
                                   PARTITION_FS_AOSFS PARTITION_ROLE_ROOT ''root'' blk s' of
                              (None, s'') \<Rightarrow> (False, s'')
                            | (Some _, s'') \<Rightarrow> (True, recalc_indices_and_next_offset s'')))"

subsection \<open>Writing the table\<close>

definition zero_entry :: aospt_entry where
  "zero_entry = \<lparr>e_offset = 0, e_size = 0, e_blkdev_id = 0, e_index = 0, e_fs_type = 0, e_role = 0,
     e_flags = 0, e_name = replicate 16 0\<rparr>"

definition storable :: "u32 \<Rightarrow> 'd blkdev \<Rightarrow> partition \<Rightarrow> bool" where
  "storable bid dev part \<longleftrightarrow>
     \<not> (\<not> p_in_use part \<or> p_blkdev_id part \<noteq> bid \<or> p_offset part \<ge> bd_size dev \<or>
        p_size part > bd_size dev - p_offset part)"

definition table_entry :: "u32 \<Rightarrow> nat \<Rightarrow> partition \<Rightarrow> aospt_entry" where
  "table_entry bid out_index part =
     \<lparr>e_offset = p_offset part, e_size = p_size part, e_blkdev_id = bid, e_index = of_nat out_index,
      e_fs_type = p_fs_type part, e_role = p_role part, e_flags = AOSPT_FLAG_WRITTEN,
      e_name = name_field 16 (p_name part)\<rparr>"

text \<open>The loop over the partitions: the index, the entries filled so far, the table (roles may be
  inferred on the way).\<close>

fun table_loop :: "u32 \<Rightarrow> 'd blkdev \<Rightarrow> nat \<Rightarrow> nat \<Rightarrow> aospt_entry list \<Rightarrow> partition list \<Rightarrow> aospt_entry list \<times> partition list" where
  "table_loop bid dev i 0 out ps = (out, ps)"
| "table_loop bid dev i (Suc n) out ps =
     (if \<not> storable bid dev (ps ! i) then table_loop bid dev (i + 1) n out ps
      else let part = infer_default_role (ps ! i); ps = ps[i := part]
           in if length out \<ge> PARTITION_MAX then (out, ps)
              else table_loop bid dev (i + 1) n (out @ [table_entry bid (length out) part]) ps)"

definition partition_write_table :: "u32 \<Rightarrow> part_state \<Rightarrow> 'd blk_state \<Rightarrow> bool \<times> part_state \<times> 'd blk_state" where
  "partition_write_table bid s blk =
     (case blkdev_get bid blk of
        None \<Rightarrow> (False, s, blk)
      | Some dev \<Rightarrow>
          if bd_read_only dev then (False, s, blk)
          else let (out, ps) = table_loop bid dev 0 (min (g_partition_count s) PARTITION_MAX) [] (g_partitions s);
                   header = \<lparr>magic0 = AOSPT_MAGIC0, magic1 = AOSPT_MAGIC1, version = AOSPT_VERSION,
                     entry_count = of_nat (length out), disk_size = bd_size dev,
                     entries = out @ replicate (PARTITION_MAX - length out) zero_entry\<rparr>;
                   (r, blk') = blkdev_write bid 0 (Some (encode_header header)) blk
               in (r, s\<lparr>g_partitions := ps\<rparr>, blk'))"

section \<open>The table survives a write and a load\<close>

lemma length_encode_entry: "length (e_name e) = 16 \<Longrightarrow> length (encode_entry e) = ENTRY_BYTES"
  by (simp add: encode_entry_def ENTRY_BYTES_def)

lemma decode_encode_entry: "length (e_name e) = 16 \<Longrightarrow> decode_entry (encode_entry e) = e"
  by (simp add: decode_entry_def encode_entry_def arr_simps le_simps nth_append)

lemma length_encode_header:
  "length (entries h) = PARTITION_MAX \<Longrightarrow> \<forall>e \<in> set (entries h). length (e_name e) = 16 \<Longrightarrow>
   length (encode_header h) = HEADER_BYTES"
  by (simp add: encode_header_def length_concat_records [of _ _ ENTRY_BYTES] length_encode_entry PARTITION_MAX_def
      ENTRY_BYTES_def HEADER_BYTES_def)

lemma decode_encode_header:
  assumes "length (entries h) = PARTITION_MAX" "\<forall>e \<in> set (entries h). length (e_name e) = 16"
  shows "decode_header (encode_header h) = h"
proof -
  have "decode_entry (subarr (24 + i * ENTRY_BYTES) ENTRY_BYTES (encode_header h)) = entries h ! i"
    if "i < PARTITION_MAX" for i
  proof -
    have "subarr (24 + i * ENTRY_BYTES) ENTRY_BYTES (encode_header h) =
        subarr (i * ENTRY_BYTES) ENTRY_BYTES (concat (map encode_entry (entries h)))"
      by (simp add: encode_header_def arr_simps)
    also have "\<dots> = encode_entry (entries h ! i)"
      using assms that by (intro subarr_concat_records) (simp_all add: length_encode_entry)
    finally show ?thesis using assms that by (simp add: decode_encode_entry)
  qed
  then have "map (\<lambda>i. decode_entry (subarr (24 + i * ENTRY_BYTES) ENTRY_BYTES (encode_header h))) [0..<PARTITION_MAX] = entries h"
    using assms(1) by (intro nth_equalityI) simp_all
  then show ?thesis
    by (simp add: decode_header_def) (simp add: encode_header_def arr_simps le_simps)
qed

text \<open>The three facts about a partition that the loops rely on.\<close>

definition part_key :: "partition \<Rightarrow> u32 \<times> u64 \<times> u64 \<times> u8 \<times> u8 \<times> string" where
  "part_key p = (p_blkdev_id p, p_offset p, p_size p, p_fs_type p, p_role p, p_name p)"

definition part_name_ok :: "partition \<Rightarrow> bool" where
  "part_name_ok p \<longleftrightarrow> length (p_name p) < 16 \<and> CHR 0x00 \<notin> set (p_name p)"

lemma infer_default_role_keeps [simp]:
  "p_in_use (infer_default_role p) = p_in_use p" "p_blkdev_id (infer_default_role p) = p_blkdev_id p"
  "p_offset (infer_default_role p) = p_offset p" "p_size (infer_default_role p) = p_size p"
  "p_fs_type (infer_default_role p) = p_fs_type p" "p_name (infer_default_role p) = p_name p"
  "p_start (infer_default_role p) = p_start p" "p_end (infer_default_role p) = p_end p"
  by (simp_all add: infer_default_role_def Let_def)

lemma infer_default_role_again:
  "p_role q = p_role (infer_default_role p) \<Longrightarrow> p_name q = p_name p \<Longrightarrow> p_blkdev_id q = p_blkdev_id p \<Longrightarrow>
   p_offset q = p_offset p \<Longrightarrow> p_fs_type q = p_fs_type p \<Longrightarrow>
   p_role (infer_default_role q) = p_role (infer_default_role p)"
  by (auto simp: infer_default_role_def Let_def split: if_splits)

lemma storable_infer [simp]: "storable bid dev (infer_default_role p) = storable bid dev p"
  by (simp add: storable_def)

lemma part_name_ok_infer [simp]: "part_name_ok (infer_default_role p) = part_name_ok p"
  by (simp add: part_name_ok_def)

definition after_write :: "u32 \<Rightarrow> 'd blkdev \<Rightarrow> partition \<Rightarrow> partition" where
  "after_write bid dev p = (if storable bid dev p then infer_default_role p else p)"

lemma table_loop_result:
  assumes "i + n \<le> length ps" "length out + n \<le> PARTITION_MAX"
  shows "table_loop bid dev i n out ps =
    (out @ map (\<lambda>(k, p). table_entry bid k p)
       (enumerate (length out) (map infer_default_role (filter (storable bid dev) (subarr i n ps)))),
     overwrite i (map (after_write bid dev) (subarr i n ps)) ps)"
  using assms
proof (induction n arbitrary: i out ps)
  case 0
  then show ?case by simp
next
  case (Suc n)
  have seg: "subarr i (Suc n) ps = ps ! i # subarr (Suc i) n ps"
    using Suc.prems by (simp add: subarr_def Cons_nth_drop_Suc [symmetric])
  have seg': "subarr (Suc i) n (ps[i := p]) = subarr (Suc i) n ps" for p
    by (simp add: subarr_def)
  have over: "overwrite (Suc i) xs (ps[i := p]) = overwrite i (p # xs) ps" for p xs
    using Suc.prems by (simp add: overwrite_def take_Suc_conv_app_nth)
  show ?case
  proof (cases "storable bid dev (ps ! i)")
    case True
    then show ?thesis
      using Suc.prems Suc.IH [of "Suc i" "ps[i := infer_default_role (ps ! i)]" "out @ [table_entry bid (length out) (infer_default_role (ps ! i))]"]
      by (simp add: Let_def seg seg' over after_write_def)
  next
    case False
    have "overwrite (Suc i) xs ps = overwrite i (ps ! i # xs) ps" for xs
      using over [of xs "ps ! i"] by simp
    then show ?thesis
      using False Suc.prems Suc.IH [of "Suc i" ps out] by (simp add: seg after_write_def)
  qed
qed

lemma g_blkdevs_write [simp]: "g_blkdevs (snd (blkdev_write bid off buf s)) = g_blkdevs s"
  by (simp add: blkdev_write_def Let_def split: option.splits prod.splits)

lemma blkdev_get_cong: "g_blkdevs s = g_blkdevs s' \<Longrightarrow> blkdev_get bid s = blkdev_get bid s'"
  by (simp add: blkdev_get_def)

definition part_ok :: "part_state \<Rightarrow> bool" where
  "part_ok s \<longleftrightarrow> length (g_partitions s) = PARTITION_MAX \<and> g_partition_count s \<le> PARTITION_MAX"

definition parts :: "part_state \<Rightarrow> partition list" where
  "parts s = take (g_partition_count s) (g_partitions s)"

lemma length_parts: "part_ok s \<Longrightarrow> length (parts s) = g_partition_count s"
  by (simp add: part_ok_def parts_def)

lemma part_ok_init [simp]: "part_ok (partition_init s)" "parts (partition_init s) = []"
  "g_partition_count (partition_init s) = 0"
  by (simp_all add: part_ok_def partition_init_def parts_def)

text \<open>The partition that a successful registration appends.\<close>

lemma register_blkdev_appends:
  assumes "part_ok s" "blkdev_get bid blk \<noteq> None" "sz \<noteq> 0" "g_partition_count s < PARTITION_MAX"
  obtains q s' where "partition_register_blkdev bid off sz fs name blk s = (Some (g_partition_count s), s')"
    "part_ok s'" "g_partition_count s' = Suc (g_partition_count s)"
    "g_partitions s' = (g_partitions s)[g_partition_count s := q]" "parts s' = parts s @ [q]"
    "p_in_use q" "p_blkdev_id q = bid" "p_offset q = off" "p_size q = sz" "p_fs_type q = fs"
    "p_name q = copy_string 16 (name_string name)"
proof -
  obtain q s' where *: "partition_register_blkdev bid off sz fs name blk s = (Some (g_partition_count s), s')"
    "s' = s\<lparr>g_partitions := (g_partitions s)[g_partition_count s := q],
         g_next_offset := (if off + sz > g_next_offset s then off + sz else g_next_offset s),
         g_partition_count := g_partition_count s + 1\<rparr>"
    "p_in_use q" "p_blkdev_id q = bid" "p_offset q = off" "p_size q = sz" "p_fs_type q = fs"
    "p_name q = copy_string 16 (name_string name)"
    using assms by (simp add: partition_register_blkdev_def Let_def)
  show thesis
    by (rule that [of s' q])
      (use * assms in \<open>simp_all add: part_ok_def parts_def take_Suc_conv_app_nth\<close>)
qed

lemma parts_update_last:
  assumes "part_ok s" "parts s = ps @ [q]"
  shows "parts (s\<lparr>g_partitions := (g_partitions s)[g_partition_count s - 1 := q']\<rparr>) = ps @ [q']"
    "g_partitions s ! (g_partition_count s - 1) = q"
proof -
  have len: "length ps = g_partition_count s - 1" "0 < g_partition_count s"
    using length_parts [OF assms(1)] assms(2) by simp_all
  have "parts (s\<lparr>g_partitions := (g_partitions s)[g_partition_count s - 1 := q']\<rparr>) = (parts s)[g_partition_count s - 1 := q']"
    by (simp add: parts_def take_update_swap)
  then show "parts (s\<lparr>g_partitions := (g_partitions s)[g_partition_count s - 1 := q']\<rparr>) = ps @ [q']"
    using len by (simp add: assms(2) list_update_append)
  have "parts s ! (g_partition_count s - 1) = q" using len by (simp add: assms(2) nth_append)
  then show "g_partitions s ! (g_partition_count s - 1) = q" using len(2) by (simp add: parts_def)
qed

lemma load_entry_step:
  assumes "part_ok s" "g_partition_count s < PARTITION_MAX" "blkdev_get bid blk \<noteq> None"
    and "storable bid dev p" "part_name_ok p" "p_size p \<noteq> 0"
  shows "\<exists>q s'. load_entry bid dev blk (table_entry bid k (infer_default_role p)) (loaded, s) = (loaded + 1, s') \<and>
    part_ok s' \<and> parts s' = parts s @ [q] \<and> part_key q = part_key (infer_default_role p)"
proof -
  have name: "copy_string 16 (cstr (name_field 16 (p_name p))) = p_name p"
    using assms(5) by (simp add: part_name_ok_def cstr_name_field copy_string_fits)
  obtain q s' where q: "partition_register_blkdev bid (p_offset p) (p_size p) (p_fs_type p) (Some (p_name p)) blk s =
      (Some (g_partition_count s), s')"
    "part_ok s'" "g_partition_count s' = Suc (g_partition_count s)" "parts s' = parts s @ [q]"
    "p_blkdev_id q = bid" "p_offset q = p_offset p" "p_size q = p_size p" "p_fs_type q = p_fs_type p"
    "p_name q = copy_string 16 (name_string (Some (p_name p)))"
    using register_blkdev_appends [OF assms(1,3,6,2)] by metis
  define q' where "q' = infer_default_role (q\<lparr>p_role := p_role (infer_default_role p)\<rparr>)"
  define s'' where "s'' = s'\<lparr>g_partitions := (g_partitions s')[g_partition_count s' - 1 := q']\<rparr>"
  have pn: "p_name q = p_name p" and pb: "p_blkdev_id p = bid"
    using q(9) assms(4,5) by (simp_all add: name_string_def copy_string_fits part_name_ok_def storable_def)
  have "load_entry bid dev blk (table_entry bid k (infer_default_role p)) (loaded, s) = (loaded + 1, s'')"
    using assms(4,6) q(1) name parts_update_last(2) [OF q(2,4)]
    by (simp add: load_entry_def table_entry_def AOSPT_FLAG_WRITTEN_def Let_def storable_def q'_def s''_def)
  moreover have "part_ok s''" using q(2) by (simp add: s''_def part_ok_def)
  moreover have "parts s'' = parts s @ [q']" using parts_update_last(1) [OF q(2,4)] by (simp add: s''_def)
  moreover have "part_key q' = part_key (infer_default_role p)"
    using q pn pb infer_default_role_again [of "q\<lparr>p_role := p_role (infer_default_role p)\<rparr>" p]
    by (simp add: part_key_def q'_def)
  ultimately show ?thesis by blast
qed

lemma load_entries_fold:
  assumes "part_ok s" "g_partition_count s + length ps \<le> PARTITION_MAX" "blkdev_get bid blk \<noteq> None"
    and "\<forall>p \<in> set ps. storable bid dev p \<and> part_name_ok p \<and> p_size p \<noteq> 0"
  shows "\<exists>qs s'. fold (load_entry bid dev blk)
      (map (\<lambda>(k, p). table_entry bid k p) (enumerate m (map infer_default_role ps))) (loaded, s) = (loaded + length ps, s') \<and>
    part_ok s' \<and> parts s' = parts s @ qs \<and> map part_key qs = map (part_key \<circ> infer_default_role) ps"
  using assms
proof (induction ps arbitrary: s loaded m)
  case Nil
  then show ?case by simp
next
  case (Cons p ps)
  obtain q s' where q: "load_entry bid dev blk (table_entry bid m (infer_default_role p)) (loaded, s) = (loaded + 1, s')"
    "part_ok s'" "parts s' = parts s @ [q]" "part_key q = part_key (infer_default_role p)"
    using load_entry_step [of s bid blk dev p m loaded] Cons.prems by auto
  have "g_partition_count s' = Suc (g_partition_count s)"
    using length_parts [OF q(2)] length_parts [OF Cons.prems(1)] q(3) by simp
  then obtain qs s'' where "fold (load_entry bid dev blk)
      (map (\<lambda>(k, p). table_entry bid k p) (enumerate (Suc m) (map infer_default_role ps))) (loaded + 1, s') =
      (loaded + 1 + length ps, s'')"
    "part_ok s''" "parts s'' = parts s' @ qs" "map part_key qs = map (part_key \<circ> infer_default_role) ps"
    using Cons.IH [of s' "Suc m" "loaded + 1"] q(2) Cons.prems by auto
  with q show ?case by (intro exI [of _ "q # qs"] exI [of _ s'']) simp
qed

text \<open>
  C6. The partition table survives a restart. Writing the table of a writable device (memory or
  driver backed) succeeds, and loading it back into an empty partition manager yields exactly
  the stored partitions in order: same device, offset, size, file system, role and name. A
  partition without a role is stored with the role inferred from its name.\<close>

theorem partition_table_roundtrip:
  assumes "rw_device bid blk" and "blkdev_get bid blk = Some dev" and "\<not> bd_read_only dev"
    and "HEADER_BYTES \<le> unat (bd_size dev)" and "part_ok s"
    and "\<forall>p \<in> set (parts s). part_name_ok p \<and> p_size p \<noteq> 0"
    and "\<exists>p \<in> set (parts s). storable bid dev p"
    and "partition_write_table bid s blk = (r, s', blk')"
  shows "r \<and> (\<exists>s1 blk''. partition_load_table bid (partition_init s0) blk' =
      (Some (length (filter (storable bid dev) (parts s))), s1, blk'') \<and> part_ok s1 \<and>
      map part_key (parts s1) = map (part_key \<circ> infer_default_role) (filter (storable bid dev) (parts s)))"
proof -
  define ps where "ps = filter (storable bid dev) (parts s)"
  define out where "out = map (\<lambda>(k, p). table_entry bid k p) (enumerate 0 (map infer_default_role ps))"
  define h where "h = \<lparr>magic0 = AOSPT_MAGIC0, magic1 = AOSPT_MAGIC1, version = AOSPT_VERSION,
     entry_count = of_nat (length out), disk_size = bd_size dev,
     entries = out @ replicate (PARTITION_MAX - length out) zero_entry\<rparr>"
  have n: "min (g_partition_count s) PARTITION_MAX = g_partition_count s" using assms(5) by (simp add: part_ok_def)
  have seg: "subarr 0 (g_partition_count s) (g_partitions s) = parts s" by (simp add: subarr_def parts_def)
  have "length ps \<le> length (parts s)" by (simp add: ps_def)
  then have plen: "length out = length ps" "length ps \<le> PARTITION_MAX" "ps \<noteq> []"
    using length_parts [OF assms(5)] assms(5,7) by (auto simp: out_def part_ok_def ps_def filter_empty_conv)
  have names: "length (entries h) = PARTITION_MAX" "\<forall>e \<in> set (entries h). length (e_name e) = 16"
    using plen by (auto simp: h_def out_def table_entry_def length_name_field zero_entry_def in_set_enumerate_eq)
  have wr: "blkdev_write bid 0 (Some (encode_header h)) blk = (r, blk')"
    using assms(2,3,8) table_loop_result [of 0 "g_partition_count s" "g_partitions s" "[]" bid dev] assms(5)
    by (auto simp: partition_write_table_def n seg out_def ps_def h_def part_ok_def Let_def split: prod.splits)
  have "length (encode_header h) = HEADER_BYTES" by (rule length_encode_header [OF names])
  then obtain blk'' where io: "r" "blkdev_read bid 0 True (of_nat HEADER_BYTES) blk' = (Some (encode_header h), blk'')"
    using rw_device_write_read [OF assms(1,2), of 0 "encode_header h"] assms(4) wr by auto
  have get: "blkdev_get bid blk' = Some dev" "blkdev_get bid blk'' \<noteq> None"
  proof -
    have "g_blkdevs blk' = g_blkdevs blk" using g_blkdevs_write [of bid 0 "Some (encode_header h)" blk] wr by simp
    moreover have "g_blkdevs blk'' = g_blkdevs blk'"
      using io(2) by (auto simp: blkdev_read_def split: option.splits if_splits prod.splits)
    ultimately show "blkdev_get bid blk' = Some dev" "blkdev_get bid blk'' \<noteq> None"
      using assms(2) blkdev_get_cong by (metis, metis option.distinct(1))
  qed
  have ok: "\<forall>p \<in> set ps. storable bid dev p \<and> part_name_ok p \<and> p_size p \<noteq> 0" using assms(6) by (simp add: ps_def)
  obtain qs s1 where l: "fold (load_entry bid dev blk'') out (0, partition_init s0) = (length ps, s1)"
    "part_ok s1" "parts s1 = qs" "map part_key qs = map (part_key \<circ> infer_default_role) ps"
    using load_entries_fold [of "partition_init s0" ps bid blk'' dev 0 0] plen(2) get(2) ok
    by (auto simp: out_def)
  have cnt: "unat (entry_count h) = length ps"
    using plen unat_of_nat_small [of "length ps", where 'a = 32] by (simp add: h_def PARTITION_MAX_def)
  have ent: "take (length ps) (entries h) = out" using plen(1) by (simp add: h_def)
  have "partition_load_table bid (partition_init s0) blk' = (Some (length ps), s1, blk'')"
    using get(1) io(2) plen l(1) cnt ent
    by (simp add: partition_load_table_def decode_encode_header [OF names] Let_def)
      (simp add: h_def)
  then show ?thesis using io(1) l unfolding ps_def [symmetric] by auto
qed

definition sample_blk :: "bytes blk_state" where
  "sample_blk = snd (blkdev_register_memory (Some ''mem0'') 0x1000 0x5000 0 0 ram_boot)"

definition sample_parts :: part_state where
  "sample_parts = snd (append_blkdev_partition 0 512 8192 PARTITION_FS_AOSFS PARTITION_ROLE_UNKNOWN ''main'' sample_blk
     (partition_init \<lparr>g_partitions = [], g_partition_count = 0, g_next_offset = 0\<rparr>))"

lemma sample_blk_get: "blkdev_get 0 sample_blk = Some (blkdev_zero\<lparr>bd_in_use := True, bd_block_size := 512,
    bd_size := 0x4000, bd_data := 0x1000, bd_name := ''mem0''\<rparr>)"
  by (simp add: sample_blk_def ram_boot_def blkdev_init_def blkdev_register_memory_def blkdev_get_def BLKDEV_MAX_def
      BLKDEV_NAME_MAX_def blkdev_zero_def name_string_def first_slot)

lemma sample_blk_rw: "rw_device 0 sample_blk"
  by (simp add: rw_device_def mem_device_def sample_blk_get blkdev_zero_def)

lemma sample_parts_list:
  "part_ok sample_parts" "map part_key (parts sample_parts) = [(0, 512, 8192, PARTITION_FS_AOSFS, 0, ''main'')]"
  "map p_in_use (parts sample_parts) = [True]"
  by (simp_all add: sample_parts_def append_blkdev_partition_def partition_register_blkdev_def sample_blk_get
      partition_init_def part_ok_def PARTITION_MAX_def parts_def Let_def part_key_def partition_zero_def
      name_string_def PARTITION_ROLE_UNKNOWN_def replicate_Suc [of 7, simplified])

theorem partition_table_roundtrip_witness:
  "case partition_write_table 0 sample_parts sample_blk of (r, _, blk') \<Rightarrow>
     r \<and> (case partition_load_table 0 (partition_init sample_parts) blk' of (n, s1, _) \<Rightarrow>
            n = Some 1 \<and> map part_key (parts s1) = [(0, 512, 8192, PARTITION_FS_AOSFS, PARTITION_ROLE_MAIN, ''main'')])"
proof -
  obtain r s' blk' where w: "partition_write_table 0 sample_parts sample_blk = (r, s', blk')"
    by (metis prod_cases3)
  obtain p where p: "parts sample_parts = [p]" "part_key p = (0, 512, 8192, PARTITION_FS_AOSFS, 0, ''main'')" "p_in_use p"
    using sample_parts_list(2,3) by (auto simp: map_eq_Cons_conv)
  let ?dev = "(blkdev_zero :: bytes blkdev)\<lparr>bd_in_use := True, bd_block_size := 512,
    bd_size := 0x4000, bd_data := 0x1000, bd_name := ''mem0''\<rparr>"
  have st: "storable 0 ?dev p" "part_name_ok p" "p_size p \<noteq> 0"
    using p(2,3) by (simp_all add: storable_def part_key_def part_name_ok_def)
  have key: "part_key (infer_default_role p) = (0, 512, 8192, PARTITION_FS_AOSFS, PARTITION_ROLE_MAIN, ''main'')"
    using p(2) by (simp add: part_key_def infer_default_role_def infer_role_from_name_def partition_role_defs)
  show ?thesis
    using partition_table_roundtrip [OF sample_blk_rw sample_blk_get _ _ sample_parts_list(1) _ _ w, of sample_parts]
      st key by (auto simp: w p(1) blkdev_zero_def HEADER_BYTES_def)
qed

section \<open>Planned layouts do not overlap\<close>

type_synonym extent = "bool \<times> u32 \<times> u64 \<times> u64"

definition part_extent :: "partition \<Rightarrow> extent" where
  "part_extent p = (p_in_use p, p_blkdev_id p, p_offset p, p_size p)"

definition extents :: "part_state \<Rightarrow> extent list" where
  "extents s = map part_extent (parts s)"

text \<open>An extent lies on an existing device, behind the 512 bytes of the table and before the end.\<close>

fun extent_ok :: "'d blk_state \<Rightarrow> extent \<Rightarrow> bool" where
  "extent_ok blk (used, bid, off, sz) \<longleftrightarrow> used \<and> (case blkdev_get bid blk of None \<Rightarrow> False
     | Some dev \<Rightarrow> 512 \<le> unat off \<and> 0 < unat sz \<and> unat off + unat sz \<le> unat (bd_size dev))"

fun extents_disjoint :: "extent \<Rightarrow> extent \<Rightarrow> bool" where
  "extents_disjoint (u, b, off, sz) (u', b', off', sz') \<longleftrightarrow>
     b \<noteq> b' \<or> unat off + unat sz \<le> unat off' \<or> unat off' + unat sz' \<le> unat off"

definition layout_ok :: "'d blk_state \<Rightarrow> part_state \<Rightarrow> bool" where
  "layout_ok blk s \<longleftrightarrow> part_ok s \<and> (\<forall>e \<in> set (extents s). extent_ok blk e) \<and> sorted_wrt extents_disjoint (extents s)"

lemma part_extent_index [simp]: "part_extent (p\<lparr>p_index := i\<rparr>) = part_extent p"
  by (simp add: part_extent_def)

lemma part_extent_planned [simp]: "part_extent (planned_part n off sz fs role) = (True, 0, off, sz)"
  by (simp add: part_extent_def planned_part_def)

lemma recalc_loop_result:
  assumes "i + n \<le> length (g_partitions s)"
  shows "map part_extent (g_partitions (recalc_loop i n s)) = map part_extent (g_partitions s) \<and>
    g_partition_count (recalc_loop i n s) = g_partition_count s"
  using assms
proof (induction n arbitrary: i s)
  case (Suc n)
  have "(map part_extent (g_partitions s))[i := part_extent (g_partitions s ! i)] = map part_extent (g_partitions s)"
    using Suc.prems by (simp add: map_update [symmetric])
  then show ?case
    using Suc.prems Suc.IH by (auto simp: Let_def map_update part_extent_index)
qed simp

lemma recalc_extents:
  assumes "part_ok s"
  shows "part_ok (recalc_indices_and_next_offset s)" "extents (recalc_indices_and_next_offset s) = extents s"
proof -
  let ?t = "recalc_indices_and_next_offset s"
  have *: "map part_extent (g_partitions ?t) = map part_extent (g_partitions s)" "g_partition_count ?t = g_partition_count s"
    using recalc_loop_result [of 0 "g_partition_count s" "s\<lparr>g_next_offset := 0\<rparr>"] assms
    by (simp_all add: recalc_indices_and_next_offset_def part_ok_def)
  then show "part_ok ?t" using assms by (metis length_map part_ok_def)
  show "extents ?t = extents s" using * by (simp add: extents_def parts_def take_map [symmetric])
qed

lemma compact_loop_result:
  assumes "w \<le> i" "i + n \<le> length ps"
  shows "case compact_loop bid i n w ps of (w', ps') \<Rightarrow> w' \<le> i + n \<and> length ps' = length ps \<and>
    take w' ps' = take w ps @ filter (\<lambda>p. p_in_use p \<and> p_blkdev_id p \<noteq> bid) (subarr i n ps)"
  using assms
proof (induction n arbitrary: i w ps)
  case (Suc n)
  have seg: "subarr i (Suc n) ps = ps ! i # subarr (Suc i) n ps"
    using Suc.prems by (simp add: subarr_def Cons_nth_drop_Suc [symmetric])
  show ?case
  proof (cases "p_in_use (ps ! i) \<and> p_blkdev_id (ps ! i) \<noteq> bid")
    case True
    define qs where "qs = (if w \<noteq> i then ps[w := ps ! i] else ps)"
    have "subarr (Suc i) n qs = subarr (Suc i) n ps" "take (Suc w) qs = take w ps @ [ps ! i]" "length qs = length ps"
      using Suc.prems by (auto simp: qs_def subarr_def take_Suc_conv_app_nth)
    then show ?thesis
      using True Suc.IH [of "Suc w" "Suc i" qs] Suc.prems by (simp add: seg qs_def [symmetric] split: prod.splits)
  next
    case False
    then show ?thesis using Suc.IH [of w "Suc i" ps] Suc.prems by (auto simp: seg split: prod.splits)
  qed
qed simp

lemma fold_zero_result:
  "length (fold (\<lambda>i qs. qs[i := z]) is ps) = length ps"
  "(\<forall>i \<in> set is. w \<le> i) \<Longrightarrow> take w (fold (\<lambda>i qs. qs[i := z]) is ps) = take w ps"
  by (induction "is" arbitrary: ps) auto

lemma filter_extents:
  "map part_extent (filter (\<lambda>p. p_in_use p \<and> p_blkdev_id p \<noteq> bid) ps) =
   filter (\<lambda>(u, b, _). u \<and> b \<noteq> bid) (map part_extent ps)"
  by (induction ps) (auto simp: part_extent_def)

lemma drop_device_extents:
  assumes "part_ok s"
  shows "part_ok (drop_device_partitions bid s)"
    "extents (drop_device_partitions bid s) = filter (\<lambda>(u, b, _). u \<and> b \<noteq> bid) (extents s)"
proof -
  obtain w ps where c: "compact_loop bid 0 (g_partition_count s) 0 (g_partitions s) = (w, ps)" by fastforce
  have r: "w \<le> g_partition_count s" "length ps = PARTITION_MAX"
    "take w ps = filter (\<lambda>p. p_in_use p \<and> p_blkdev_id p \<noteq> bid) (parts s)"
    using compact_loop_result [of 0 0 "g_partition_count s" "g_partitions s" bid] assms c
    by (simp_all add: part_ok_def subarr_def parts_def)
  define t where "t = s\<lparr>g_partitions := fold (\<lambda>i qs. qs[i := partition_zero]) [w..<g_partition_count s] ps, g_partition_count := w\<rparr>"
  have t: "part_ok t" "parts t = take w ps"
    using r assms by (simp_all add: t_def part_ok_def parts_def fold_zero_result)
  have "drop_device_partitions bid s = recalc_indices_and_next_offset t"
    by (simp add: drop_device_partitions_def c t_def)
  with recalc_extents [OF t(1)] show "part_ok (drop_device_partitions bid s)"
    "extents (drop_device_partitions bid s) = filter (\<lambda>(u, b, _). u \<and> b \<noteq> bid) (extents s)"
    by (simp_all add: extents_def t(2) r(3) filter_extents)
qed

text \<open>Appending an extent behind everything else on its device.\<close>

lemma layout_ok_append:
  assumes "layout_ok blk s" "part_ok s'" "extents s' = extents s @ [e]" "extent_ok blk e"
    and "\<forall>x \<in> set (extents s). extents_disjoint x e"
  shows "layout_ok blk s'"
  using assms by (auto simp: layout_ok_def sorted_wrt_append)

lemma layout_ok_filter:
  "layout_ok blk s \<Longrightarrow> part_ok s' \<Longrightarrow> extents s' = filter P (extents s) \<Longrightarrow> layout_ok blk s'"
  by (auto simp: layout_ok_def sorted_wrt_filter)

lemma layout_ok_same: "layout_ok blk s \<Longrightarrow> part_ok s' \<Longrightarrow> extents s' = extents s \<Longrightarrow> layout_ok blk s'"
  by (simp add: layout_ok_def)

lemma fold_max_offset:
  assumes "\<forall>p \<in> set ps. unat (p_offset p) + unat (p_size p) < 2 ^ 64"
  shows "a \<le> fold (next_offset_step bid) ps a \<and>
    (\<forall>p \<in> set ps. p_in_use p \<and> p_blkdev_id p = bid \<longrightarrow>
       unat (p_offset p) + unat (p_size p) \<le> unat (fold (next_offset_step bid) ps a))"
  using assms(1)
proof (induction ps arbitrary: a)
  case (Cons p ps)
  have sum: "unat (p_offset p + p_size p) = unat (p_offset p) + unat (p_size p)"
    using Cons.prems by (simp add: unat_add_small)
  define b where "b = next_offset_step bid p a"
  have IH: "b \<le> fold (next_offset_step bid) ps b"
    "\<forall>q \<in> set ps. p_in_use q \<and> p_blkdev_id q = bid \<longrightarrow>
       unat (p_offset q) + unat (p_size q) \<le> unat (fold (next_offset_step bid) ps b)"
    using Cons.IH [of b] Cons.prems by auto
  have "a \<le> b" by (auto simp: b_def next_offset_step_def)
  moreover have "p_in_use p \<and> p_blkdev_id p = bid \<longrightarrow> unat (p_offset p) + unat (p_size p) \<le> unat b"
    using sum by (auto simp: b_def next_offset_step_def word_le_nat_alt word_less_nat_alt)
  ultimately show ?case using IH unfolding fold_simps b_def [symmetric]
    by (auto simp: word_le_nat_alt intro: order_trans)
qed simp

lemma layout_no_wrap:
  assumes "layout_ok blk s" "p \<in> set (parts s)"
  shows "unat (p_offset p) + unat (p_size p) < 2 ^ 64"
proof -
  have "extent_ok blk (part_extent p)" using assms by (auto simp: layout_ok_def extents_def)
  then obtain dev :: "'a blkdev" where "unat (p_offset p) + unat (p_size p) \<le> unat (bd_size dev)"
    by (auto simp: part_extent_def split: option.splits)
  then show ?thesis using unat_less [of "bd_size dev"] by simp
qed

lemma create_planned_layout:
  assumes "layout_ok blk s"
  shows "layout_ok blk (snd (partition_create_planned fs sz role blk s))"
proof (cases "partition_create_planned fs sz role blk s")
  case (Pair r s')
  show ?thesis
  proof (cases r)
    case None
    with Pair assms show ?thesis
      by (auto simp: partition_create_planned_def Let_def split: option.splits if_splits)
  next
    case (Some n)
    define off where "off = next_offset_for_blkdev 0 s"
    obtain dev where dev: "blkdev_get 0 blk = Some dev"
      using Pair Some by (auto simp: partition_create_planned_def split: option.splits if_splits)
    define z where "z = planned_size (bd_size dev - off) sz"
    define part where "part = planned_part (g_partition_count s) off z fs role"
    have d: "blkdev_get 0 blk = Some dev" "off < bd_size dev" "z \<noteq> 0" "z \<le> bd_size dev - off"
      "g_partition_count s < PARTITION_MAX" "part_extent part = (True, 0, off, z)"
      "g_partitions s' = (g_partitions s)[g_partition_count s := part]" "g_partition_count s' = g_partition_count s + 1"
      using Pair Some dev
      by (auto simp: partition_create_planned_def Let_def off_def z_def part_def not_le not_less split: if_splits)
    have max: "AOSPT_RESERVED_BYTES \<le> off"
      "\<forall>p \<in> set (parts s). p_in_use p \<and> p_blkdev_id p = 0 \<longrightarrow> unat (p_offset p) + unat (p_size p) \<le> unat off"
      using fold_max_offset [of "parts s" AOSPT_RESERVED_BYTES 0] layout_no_wrap [OF assms]
      by (simp_all add: off_def next_offset_for_blkdev_def parts_def)
    have ok: "part_ok s" using assms by (simp add: layout_ok_def)
    have "extents s' = extents s @ [(True, 0, off, z)]" "part_ok s'"
      using d ok by (simp_all add: extents_def parts_def part_ok_def take_Suc_conv_app_nth)
    moreover have "extent_ok blk (True, 0, off, z)"
      using d max(1) unat_sub_small [of off "bd_size dev"]
      by (auto simp: word_le_nat_alt word_less_nat_alt AOSPT_RESERVED_BYTES_def unat_gt_0)
    moreover have "\<forall>x \<in> set (extents s). extents_disjoint x (True, 0, off, z)"
      using max(2) assms by (fastforce simp: extents_def part_extent_def layout_ok_def)
    ultimately show ?thesis using Pair layout_ok_append [OF assms] by simp
  qed
qed

lemma extents_butlast:
  assumes "part_ok s" "0 < g_partition_count s" "g_partition_count t = g_partition_count s - 1" "part_ok t"
    and "g_partitions t = (g_partitions s)[g_partition_count s - 1 := z]"
  shows "extents t = butlast (extents s)"
  using assms by (simp add: extents_def parts_def map_butlast [symmetric] butlast_take part_ok_def)

lemma delete_planned_layout:
  assumes "layout_ok blk s"
  shows "layout_ok blk (snd (partition_delete_planned i s))"
proof -
  have ok: "part_ok s" using assms by (simp add: layout_ok_def)
  define t where "t = s\<lparr>g_partitions := (g_partitions s)[i := partition_zero], g_partition_count := g_partition_count s - 1\<rparr>"
  show ?thesis
  proof (cases "fst (partition_delete_planned i s)")
    case False
    then show ?thesis using assms by (auto simp: partition_delete_planned_def split: if_splits)
  next
    case True
    then have i: "i + 1 = g_partition_count s" "snd (partition_delete_planned i s) = recalc_indices_and_next_offset t"
      by (auto simp: partition_delete_planned_def t_def split: if_splits)
    have t: "part_ok t" using ok by (auto simp: part_ok_def t_def)
    have "extents t = butlast (extents s)"
      by (rule extents_butlast [OF ok _ _ t, of partition_zero]) (auto simp: t_def i(1) [symmetric])
    then have "extents t = take (length (extents s) - 1) (extents s)" by (simp add: butlast_conv_take)
    then have "layout_ok blk t"
      using assms t by (auto simp: layout_ok_def sorted_wrt_take dest: in_set_takeD)
    then show ?thesis unfolding i(2) using recalc_extents [OF t] layout_ok_same by blast
  qed
qed

lemma cycle_layout:
  assumes "layout_ok blk s"
  shows "layout_ok blk (snd (partition_cycle_planned_type i s))" "layout_ok blk (snd (partition_cycle_planned_role i s))"
proof -
  have same: "extents (s\<lparr>g_partitions := (g_partitions s)[i := q]\<rparr>) = extents s"
    if "i < g_partition_count s" "part_extent q = part_extent (g_partitions s ! i)" for q
  proof -
    have "extents (s\<lparr>g_partitions := (g_partitions s)[i := q]\<rparr>) = (extents s)[i := part_extent q]"
      by (simp add: extents_def parts_def take_update_swap map_update)
    also have "part_extent q = extents s ! i"
      using that assms by (simp add: extents_def parts_def layout_ok_def part_ok_def)
    finally show ?thesis by simp
  qed
  have ok: "part_ok (s\<lparr>g_partitions := (g_partitions s)[i := q]\<rparr>)" for q
    using assms by (simp add: layout_ok_def part_ok_def)
  show "layout_ok blk (snd (partition_cycle_planned_type i s))" "layout_ok blk (snd (partition_cycle_planned_role i s))"
    using assms layout_ok_same [OF assms ok same]
    by (auto simp: partition_cycle_planned_type_def partition_cycle_planned_role_def Let_def part_extent_def)
qed

text \<open>Appending a partition to a device whose other partitions lie elsewhere.\<close>

lemma append_layout:
  assumes "layout_ok blk s" "append_blkdev_partition bid off sz fs role name blk s = (Some n, s')"
    and "extent_ok blk (True, bid, off, sz)" "\<forall>x \<in> set (extents s). extents_disjoint x (True, bid, off, sz)"
  shows "layout_ok blk s' \<and> extents s' = extents s @ [(True, bid, off, sz)]"
proof -
  have ok: "part_ok s" using assms(1) by (simp add: layout_ok_def)
  have pre: "blkdev_get bid blk \<noteq> None" "sz \<noteq> 0" "g_partition_count s < PARTITION_MAX"
    using assms(2) by (auto simp: append_blkdev_partition_def partition_register_blkdev_def Let_def split: if_splits)
  obtain q t where q: "partition_register_blkdev bid off sz fs (Some name) blk s = (Some (g_partition_count s), t)"
    "part_ok t" "g_partition_count t = Suc (g_partition_count s)" "parts t = parts s @ [q]"
    "part_extent q = (True, bid, off, sz)"
    using register_blkdev_appends [OF ok pre, of off fs "Some name"] by (metis part_extent_def)
  have s': "s' = t\<lparr>g_partitions := (g_partitions t)[g_partition_count t - 1 := q\<lparr>p_role := role\<rparr>]\<rparr>"
    using assms(2) q(1,3) parts_update_last(2) [OF q(2,4)] by (auto simp: append_blkdev_partition_def)
  have "parts s' = parts s @ [q\<lparr>p_role := role\<rparr>]"
    unfolding s' by (rule parts_update_last(1) [OF q(2,4)])
  then have "extents s' = extents s @ [(True, bid, off, sz)]" using q(5) by (simp add: extents_def part_extent_def)
  moreover have "part_ok s'" using q(2) by (simp add: s' part_ok_def)
  ultimately show ?thesis using layout_ok_append [OF assms(1) _ _ assms(3,4)] by blast
qed

lemma append_layout_snd:
  assumes "layout_ok blk s" "extent_ok blk (True, bid, off, sz)"
    and "\<forall>x \<in> set (extents s). extents_disjoint x (True, bid, off, sz)"
  shows "layout_ok blk (snd (append_blkdev_partition bid off sz fs role name blk s))"
proof (cases "fst (append_blkdev_partition bid off sz fs role name blk s)")
  case None
  then have "snd (append_blkdev_partition bid off sz fs role name blk s) = s"
    by (auto simp: append_blkdev_partition_def partition_register_blkdev_def Let_def split: if_splits)
  then show ?thesis using assms(1) by simp
next
  case (Some n)
  then show ?thesis using append_layout [OF assms(1) _ assms(2,3), of fs role name n] by (metis prod.collapse)
qed

lemma drop_device_layout:
  assumes "layout_ok blk s"
  shows "layout_ok blk (drop_device_partitions bid s)"
    "\<forall>(u, b, _) \<in> set (extents (drop_device_partitions bid s)). b \<noteq> bid"
proof -
  have ok: "part_ok s" using assms by (simp add: layout_ok_def)
  show "layout_ok blk (drop_device_partitions bid s)"
    by (rule layout_ok_filter [OF assms drop_device_extents [OF ok]])
  show "\<forall>(u, b, _) \<in> set (extents (drop_device_partitions bid s)). b \<noteq> bid"
    unfolding drop_device_extents(2) [OF ok] by auto
qed

lemma recalc_layout: "layout_ok blk s \<Longrightarrow> layout_ok blk (recalc_indices_and_next_offset s)"
  using recalc_extents layout_ok_same layout_ok_def by blast

lemma default_layout_layout:
  assumes "layout_ok blk s"
  shows "layout_ok blk (snd (partition_create_default_layout bid blk s))"
proof (cases "blkdev_get bid blk")
  case None
  then show ?thesis using assms by (simp add: partition_create_default_layout_def)
next
  case (Some dev)
  define root where "root = (if bd_size dev \<ge> 2147483648 then LARGE_ROOT_SIZE else DEFAULT_ROOT_SIZE)"
  define t where "t = drop_device_partitions bid s"
  note t = drop_device_layout [OF assms, of bid, folded t_def]
  have "layout_ok blk (snd (append_blkdev_partition bid AOSPT_RESERVED_BYTES root PARTITION_FS_AOSFS PARTITION_ROLE_ROOT ''root'' blk t))"
    if big: "\<not> bd_size dev < AOSPT_RESERVED_BYTES + DEFAULT_ROOT_SIZE"
  proof (rule append_layout_snd [OF t(1)])
    show "extent_ok blk (True, bid, AOSPT_RESERVED_BYTES, root)"
      using Some big
      by (auto simp: root_def AOSPT_RESERVED_BYTES_def LARGE_ROOT_SIZE_def DEFAULT_ROOT_SIZE_def word_le_nat_alt not_less)
    show "\<forall>x \<in> set (extents t). extents_disjoint x (True, bid, AOSPT_RESERVED_BYTES, root)"
      using t(2) by auto
  qed
  then show ?thesis
    using assms Some t(1) recalc_layout
    by (auto simp: partition_create_default_layout_def t_def [symmetric] root_def [symmetric] Let_def
        split: option.splits prod.splits)
qed

text \<open>The steps of the installer's partition planner.\<close>

inductive plan_step :: "'d blk_state \<Rightarrow> part_state \<Rightarrow> part_state \<Rightarrow> bool" for blk where
  create: "plan_step blk s (snd (partition_create_planned fs sz role blk s))"
| delete: "plan_step blk s (snd (partition_delete_planned i s))"
| delete_last: "plan_step blk s (snd (partition_delete_last_planned s))"
| cycle_type: "plan_step blk s (snd (partition_cycle_planned_type i s))"
| cycle_role: "plan_step blk s (snd (partition_cycle_planned_role i s))"
| cycle_last_type: "plan_step blk s (snd (partition_cycle_last_planned_type s))"
| cycle_last_role: "plan_step blk s (snd (partition_cycle_last_planned_role s))"
| default_layout: "plan_step blk s (snd (partition_create_default_layout bid blk s))"

lemma plan_step_layout: "plan_step blk s s' \<Longrightarrow> layout_ok blk s \<Longrightarrow> layout_ok blk s'"
  by (induction rule: plan_step.induct)
    (auto simp: create_planned_layout delete_planned_layout cycle_layout default_layout_layout
      partition_delete_last_planned_def partition_cycle_last_planned_type_def partition_cycle_last_planned_role_def)

lemma layout_ok_init: "layout_ok blk (partition_init s)"
  by (simp add: layout_ok_def extents_def)


text \<open>Two planned partitions on the 16 KiB sample device.\<close>

definition sample_plan :: part_state where
  "sample_plan = snd (partition_create_planned PARTITION_FS_EXT4 PARTITION_USE_REST PARTITION_ROLE_TMP sample_blk
     (snd (partition_create_planned PARTITION_FS_AOSFS 4096 PARTITION_ROLE_MAIN sample_blk (partition_init sample_parts))))"

lemma sample_plan_first:
  "snd (partition_create_planned PARTITION_FS_AOSFS 4096 PARTITION_ROLE_MAIN sample_blk (partition_init sample_parts)) =
     \<lparr>g_partitions = (replicate 8 partition_zero)[0 := planned_part 0 512 4096 PARTITION_FS_AOSFS PARTITION_ROLE_MAIN],
      g_partition_count = 1, g_next_offset = 4608\<rparr>"
  by (simp add: partition_create_planned_def sample_blk_get next_offset_for_blkdev_def partition_init_def
      PARTITION_MAX_def planned_size_def PARTITION_USE_REST_def AOSPT_RESERVED_BYTES_def blkdev_zero_def Let_def)

lemma sample_plan_second:
  "g_partition_count sample_plan = 2"
  "part_extent (g_partitions sample_plan ! 1) = (True, 0, 4608, 11776)"
  unfolding sample_plan_def sample_plan_first
  by (simp_all add: partition_create_planned_def sample_blk_get next_offset_for_blkdev_def
      PARTITION_MAX_def planned_size_def PARTITION_USE_REST_def AOSPT_RESERVED_BYTES_def blkdev_zero_def Let_def
      next_offset_step_def planned_part_def take_Suc_conv_app_nth part_extent_def partition_zero_def)


end
