(* ===== verification/Paths.thy ===== *)
theory Paths
  imports Prelude
begin

text \<open>
  Paths as lists of components: splitting a path at its slashes, joining components with slashes, and
  resolving the components \<open>.\<close> and \<open>..\<close>. This is the reference that the path functions of the kernel
  are compared with.
\<close>

abbreviation slash :: char where "slash \<equiv> CHR ''/''"

lemma next_component_shorter:
  assumes "takeWhile (\<lambda>c. c \<noteq> slash) (dropWhile (\<lambda>c. c = slash) path) \<noteq> []"
  shows "length (dropWhile (\<lambda>c. c \<noteq> slash) (dropWhile (\<lambda>c. c = slash) path)) < length path"
proof -
  let ?p = "dropWhile (\<lambda>c. c = slash) path"
  have "length ?p \<le> length path" by (simp add: length_dropWhile_le)
  moreover have "length (takeWhile (\<lambda>c. c \<noteq> slash) ?p) + length (dropWhile (\<lambda>c. c \<noteq> slash) ?p) = length ?p"
    by (metis length_append takeWhile_dropWhile_id)
  ultimately show ?thesis using assms by (cases "takeWhile (\<lambda>c. c \<noteq> slash) ?p") auto
qed

function components :: "string \<Rightarrow> string list" where
  "components path =
     (let p = dropWhile (\<lambda>c. c = slash) path; component = takeWhile (\<lambda>c. c \<noteq> slash) p
      in if component = [] then [] else component # components (dropWhile (\<lambda>c. c \<noteq> slash) p))"
  by auto
termination
  by (relation "measure length") (auto simp del: takeWhile_eq_Nil_iff intro: next_component_shorter)

declare components.simps [simp del]

fun join_path :: "string list \<Rightarrow> string" where
  "join_path [] = []"
| "join_path [c] = c"
| "join_path (c # d # cs) = c @ slash # join_path (d # cs)"

text \<open>Resolving the components one by one; the result so far is kept in order.\<close>

fun resolve_dots :: "string list \<Rightarrow> string list \<Rightarrow> string list" where
  "resolve_dots acc [] = acc"
| "resolve_dots acc (c # cs) =
     (if c = ''.'' then resolve_dots acc cs
      else if c = ''..'' then resolve_dots (butlast acc) cs
      else resolve_dots (acc @ [c]) cs)"

definition component_ok :: "string \<Rightarrow> bool" where
  "component_ok c \<longleftrightarrow> c \<noteq> [] \<and> slash \<notin> set c"

definition plain_component :: "string \<Rightarrow> bool" where
  "plain_component c \<longleftrightarrow> component_ok c \<and> c \<noteq> ''.'' \<and> c \<noteq> ''..''"

lemma components_ok: "c \<in> set (components path) \<Longrightarrow> component_ok c"
proof (induction path rule: components.induct)
  case (1 path)
  let ?p = "dropWhile (\<lambda>c. c = slash) path"
  show ?case
  proof (cases "takeWhile (\<lambda>c. c \<noteq> slash) ?p = []")
    case True
    then show ?thesis using 1(2) components.simps [of path] by (simp add: Let_def)
  next
    case False
    then have "c = takeWhile (\<lambda>c. c \<noteq> slash) ?p \<or> c \<in> set (components (dropWhile (\<lambda>c. c \<noteq> slash) ?p))"
      using 1(2) components.simps [of path] by (simp add: Let_def)
    then show ?thesis
    proof
      assume c: "c = takeWhile (\<lambda>c. c \<noteq> slash) ?p"
      have "slash \<notin> set (takeWhile (\<lambda>c. c \<noteq> slash) ?p)" by (auto dest: set_takeWhileD)
      then show ?thesis using c False by (simp add: component_ok_def)
    next
      assume "c \<in> set (components (dropWhile (\<lambda>c. c \<noteq> slash) ?p))"
      then show ?thesis using 1(1) False by simp
    qed
  qed
qed

lemma resolve_dots_plain:
  "(\<forall>c \<in> set acc. plain_component c) \<Longrightarrow> (\<forall>c \<in> set cs. component_ok c) \<Longrightarrow> c \<in> set (resolve_dots acc cs) \<Longrightarrow> plain_component c"
  by (induction acc cs rule: resolve_dots.induct)
    (auto simp: plain_component_def dest: in_set_butlastD split: if_splits)

lemma resolve_dots_id: "(\<forall>c \<in> set cs. plain_component c) \<Longrightarrow> resolve_dots acc cs = acc @ cs"
  by (induction acc cs rule: resolve_dots.induct) (auto simp: plain_component_def)

lemma join_path_append: "join_path (cs @ [c]) = (if cs = [] then c else join_path cs @ slash # c)"
  by (induction cs rule: join_path.induct) auto

lemma join_path_Cons: "join_path (c # cs) = (if cs = [] then c else c @ slash # join_path cs)"
  by (cases cs) auto

lemma join_path_Nil_iff: "(\<forall>c \<in> set cs. component_ok c) \<Longrightarrow> join_path cs = [] \<longleftrightarrow> cs = []"
  by (cases cs rule: join_path.cases) (auto simp: component_ok_def)

lemma component_prefix:
  assumes "component_ok c"
  shows "dropWhile (\<lambda>c. c = slash) (c @ rest) = c @ rest"
    "takeWhile (\<lambda>c. c \<noteq> slash) (c @ slash # rest) = c" "dropWhile (\<lambda>c. c \<noteq> slash) (c @ slash # rest) = slash # rest"
    "takeWhile (\<lambda>c. c \<noteq> slash) c = c" "dropWhile (\<lambda>c. c \<noteq> slash) c = []"
proof -
  have ns: "\<forall>x \<in> set c. x \<noteq> slash" using assms by (auto simp: component_ok_def)
  show "dropWhile (\<lambda>c. c = slash) (c @ rest) = c @ rest"
    using assms by (cases c) (auto simp: component_ok_def)
  show "takeWhile (\<lambda>c. c \<noteq> slash) (c @ slash # rest) = c" "dropWhile (\<lambda>c. c \<noteq> slash) (c @ slash # rest) = slash # rest"
    "takeWhile (\<lambda>c. c \<noteq> slash) c = c" "dropWhile (\<lambda>c. c \<noteq> slash) c = []"
    using ns by (simp_all add: takeWhile_append2 dropWhile_append2)
qed

lemma components_Nil: "components [] = []"
  using components.simps [of "[]"] by simp

lemma components_Cons:
  assumes "component_ok c"
  shows "components (c @ slash # rest) = c # components (slash # rest)" "components c = [c]"
proof -
  note P = component_prefix [OF assms]
  have c: "c \<noteq> []" using assms by (simp add: component_ok_def)
  show "components (c @ slash # rest) = c # components (slash # rest)"
    by (subst components.simps) (simp only: P(1) P(2,3) Let_def c if_False)
  show "components c = [c]"
    by (subst components.simps) (simp only: P(1) [of "[]", unfolded append_Nil2] P(4,5) Let_def c if_False components_Nil)
qed

lemma components_slash: "components (slash # path) = components path"
  using components.simps [of "slash # path"] components.simps [of path] by simp

lemma components_join: "(\<forall>c \<in> set cs. component_ok c) \<Longrightarrow> components (join_path cs) = cs"
proof (induction cs rule: join_path.induct)
  case (3 c d cs)
  then show ?case by (simp add: components_Cons(1) components_slash)
qed (simp_all add: components_Nil components_Cons(2))

text \<open>The normal form of a path.\<close>

definition normal_path :: "string \<Rightarrow> string" where
  "normal_path path = join_path (resolve_dots [] (components path))"

lemma normal_path_idem: "normal_path (normal_path path) = normal_path path"
proof -
  let ?cs = "resolve_dots [] (components path)"
  have plain: "\<forall>c \<in> set ?cs. plain_component c" using resolve_dots_plain [of "[]" "components path"] components_ok by auto
  then have "\<forall>c \<in> set ?cs. component_ok c" by (simp add: plain_component_def)
  then have "components (join_path ?cs) = ?cs" by (rule components_join)
  moreover have "resolve_dots [] ?cs = ?cs" using resolve_dots_id [OF plain, of "[]"] by simp
  ultimately show ?thesis unfolding normal_path_def by (simp only:)
qed

end
