(* ===== verification/Vfs_Node.thy ===== *)
theory Vfs_Node
  imports Prelude
begin

text \<open>
  The types that the virtual file system shares with the file systems under it
  (\<open>include/vfs.h\<close>), and the contract that those file systems give it.

  Node types and backends are datatypes: the sources use the names
  \<open>VFS_NODE_TYPE_SYMLINK\<close> and \<open>VFS_BACKEND_PROCFS\<close>, whose numbers no header of the repository
  defines. The union of a node (\<open>u.data\<close> or \<open>u.first_cluster\<close>) is a datatype as well; a data
  pointer into a tmpfs entry is named by the number of the entry, one into the memory of an AOSFS
  instance by the instance and the entry.
\<close>

datatype vfs_type = VFS_NODE_TYPE_NONE | VFS_NODE_TYPE_REGULAR | VFS_NODE_TYPE_DIRECTORY
  | VFS_NODE_TYPE_CHAR_DEVICE | VFS_NODE_TYPE_SYMLINK

datatype vfs_backend = VFS_BACKEND_NONE | VFS_BACKEND_SYNTHETIC | VFS_BACKEND_INITRD | VFS_BACKEND_FAT32
  | VFS_BACKEND_TMPFS | VFS_BACKEND_EXT4 | VFS_BACKEND_AOSFS | VFS_BACKEND_PROCFS

datatype node_u = U_null | U_tmpfs_data nat | U_aosfs_data nat nat | U_data u64 | U_first_cluster u32

record vfs_node =
  n_type :: vfs_type
  n_backend :: vfs_backend
  n_mode :: u16
  n_uid :: u32
  n_gid :: u32
  n_size :: u32
  n_inode :: u64
  n_u :: node_u
  n_path :: string

definition vfs_node_zero :: vfs_node where
  "vfs_node_zero = \<lparr>n_type = VFS_NODE_TYPE_NONE, n_backend = VFS_BACKEND_NONE, n_mode = 0, n_uid = 0,
     n_gid = 0, n_size = 0, n_inode = 0, n_u = U_null, n_path = []\<rparr>"

definition VFS_PATH_BYTES :: nat where "VFS_PATH_BYTES = 256"

text \<open>Linux directory entry types.\<close>

definition LINUX_DTYPE_REG :: u8 where "LINUX_DTYPE_REG = 8"
definition LINUX_DTYPE_DIR :: u8 where "LINUX_DTYPE_DIR = 4"
definition LINUX_DTYPE_CHR :: u8 where "LINUX_DTYPE_CHR = 2"
definition LINUX_DTYPE_LNK :: u8 where "LINUX_DTYPE_LNK = 10"

section \<open>A store of regular files\<close>

text \<open>What a file system promises its clients about file contents: \<open>files\<close> is the abstract map from
  names to contents. A read returns the bytes asked for or fails; a write that reports \<open>k\<close> bytes
  has put the first \<open>k\<close> bytes of the buffer at the offset, growing the file if necessary, and has
  touched no other file; a removed file is gone.\<close>

locale file_store =
  fixes ok :: "'s \<Rightarrow> bool"
    and norm :: "string \<Rightarrow> string option"
    and files :: "'s \<Rightarrow> string \<Rightarrow> bytes option"
    and fread :: "string \<Rightarrow> nat \<Rightarrow> nat \<Rightarrow> 's \<Rightarrow> bytes option"
    and fwrite :: "string \<Rightarrow> nat \<Rightarrow> bytes \<Rightarrow> 's \<Rightarrow> nat option \<times> 's"
    and fremove :: "string \<Rightarrow> 's \<Rightarrow> bool \<times> 's"
  assumes read_law: "ok s \<Longrightarrow> norm p = Some q \<Longrightarrow> files s q = Some d \<Longrightarrow>
      fread p off n s = (if off + n \<le> length d then Some (subarr off n d) else None)"
    and read_missing: "ok s \<Longrightarrow> norm p = Some q \<Longrightarrow> files s q = None \<Longrightarrow> fread p off n s = None"
    and write_law: "ok s \<Longrightarrow> norm p = Some q \<Longrightarrow> files s q = Some d \<Longrightarrow> off \<le> length d \<Longrightarrow>
      fwrite p off buf s = (Some k, s') \<Longrightarrow>
      ok s' \<and> k \<le> length buf \<and> files s' = (files s)(q \<mapsto> overwrite off (take k buf) d)"
    and remove_law: "ok s \<Longrightarrow> norm p = Some q \<Longrightarrow> fremove p s = (True, s') \<Longrightarrow>
      ok s' \<and> files s' = (files s)(q := None)"
begin

lemma write_then_read:
  assumes "ok s" "norm p = Some q" "files s q = Some d" "off \<le> length d" "fwrite p off buf s = (Some k, s')"
  shows "fread p off k s' = Some (take k buf)"
proof -
  have w: "ok s'" "k \<le> length buf" "files s' q = Some (overwrite off (take k buf) d)"
    using write_law [OF assms] by simp_all
  have "off + k \<le> length (overwrite off (take k buf) d)" using assms(4) w(2) by (simp add: overwrite_def)
  moreover have "subarr off k (overwrite off (take k buf) d) = take k buf"
    using assms(4) w(2) by (simp add: overwrite_def subarr_def)
  ultimately show ?thesis using read_law [OF w(1) assms(2) w(3)] by simp
qed

lemma write_keeps_others:
  assumes "ok s" "norm p = Some q" "files s q = Some d" "off \<le> length d" "fwrite p off buf s = (Some k, s')"
    and "norm p' = Some q'" "q' \<noteq> q"
  shows "fread p' off' n s' = fread p' off' n s"
proof -
  have w: "ok s'" "files s' q' = files s q'" using write_law [OF assms(1-5)] assms(7) by simp_all
  show ?thesis
    by (cases "files s q'")
      (simp_all add: read_law [OF assms(1,6)] read_law [OF w(1) assms(6)] read_missing [OF assms(1,6)]
        read_missing [OF w(1) assms(6)] w(2))
qed

lemma removed_is_gone:
  assumes "ok s" "norm p = Some q" "fremove p s = (True, s')"
  shows "fread p off n s' = None"
  using remove_law [OF assms] read_missing [of s' p q] assms(2) by simp

end

end
