(* ===== verification/Slots.thy ===== *)
theory Slots
  imports Prelude
begin

text \<open>
  Fixed tables of slots addressed by a key: the representation of the kernel's tables of files
  and directories. A slot is in use or free, and the used slots have distinct keys. The lemmas
  say what filling, replacing and clearing a slot does to the lookup function.
\<close>

definition slot_of :: "('a \<Rightarrow> bool) \<Rightarrow> ('a \<Rightarrow> 'k) \<Rightarrow> 'a list \<Rightarrow> 'k \<Rightarrow> nat option" where
  "slot_of used key xs k = find_slot (\<lambda>e. used e \<and> key e = k) xs"

definition slots_distinct :: "('a \<Rightarrow> bool) \<Rightarrow> ('a \<Rightarrow> 'k) \<Rightarrow> 'a list \<Rightarrow> bool" where
  "slots_distinct used key xs \<longleftrightarrow>
     (\<forall>i < length xs. \<forall>j < length xs. used (xs ! i) \<and> used (xs ! j) \<and> key (xs ! i) = key (xs ! j) \<longrightarrow> i = j)"

definition slot_map :: "('a \<Rightarrow> bool) \<Rightarrow> ('a \<Rightarrow> 'k) \<Rightarrow> ('a \<Rightarrow> 'v) \<Rightarrow> 'a list \<Rightarrow> 'k \<Rightarrow> 'v option" where
  "slot_map used key view xs k = map_option (\<lambda>i. view (xs ! i)) (slot_of used key xs k)"

lemma slots_distinctI:
  assumes "\<And>i j. i < length xs \<Longrightarrow> j < length xs \<Longrightarrow> used (xs ! i) \<Longrightarrow> used (xs ! j) \<Longrightarrow> key (xs ! i) = key (xs ! j) \<Longrightarrow> i = j"
  shows "slots_distinct used key xs"
  using assms unfolding slots_distinct_def by blast

lemma slots_distinctD:
  "slots_distinct used key xs \<Longrightarrow> i < length xs \<Longrightarrow> j < length xs \<Longrightarrow> used (xs ! i) \<Longrightarrow> used (xs ! j) \<Longrightarrow>
   key (xs ! i) = key (xs ! j) \<Longrightarrow> i = j"
  unfolding slots_distinct_def by blast

lemma slot_of_SomeD:
  "slot_of used key xs k = Some i \<Longrightarrow> i < length xs \<and> used (xs ! i) \<and> key (xs ! i) = k"
  unfolding slot_of_def by (drule find_slot_SomeD) simp

lemma slot_of_None: "slot_of used key xs k = None \<longleftrightarrow> (\<forall>i < length xs. used (xs ! i) \<longrightarrow> key (xs ! i) \<noteq> k)"
  by (auto simp: slot_of_def find_slot_None all_set_conv_all_nth)

lemma slot_of_iff:
  assumes "slots_distinct used key xs"
  shows "slot_of used key xs k = Some i \<longleftrightarrow> i < length xs \<and> used (xs ! i) \<and> key (xs ! i) = k"
proof
  assume "i < length xs \<and> used (xs ! i) \<and> key (xs ! i) = k"
  then show "slot_of used key xs k = Some i"
    using assms unfolding slot_of_def slots_distinct_def by (intro find_slot_unique) auto
qed (rule slot_of_SomeD)

lemma slot_of_eqI:
  assumes "slots_distinct used key xs"
    and "\<And>k i. f k = Some i \<longleftrightarrow> i < length xs \<and> used (xs ! i) \<and> key (xs ! i) = k"
  shows "slot_of used key xs = f"
proof
  fix k
  show "slot_of used key xs k = f k"
    using assms(2) [of k] slot_of_iff [OF assms(1), of k] by (metis not_None_eq)
qed

section \<open>Replacing, clearing and filling a slot\<close>

lemma slots_replace:
  assumes "slots_distinct used key xs" "slot_of used key xs k = Some i" "used e" "key e = k"
  shows "slots_distinct used key (xs[i := e])" "slot_of used key (xs[i := e]) = slot_of used key xs"
proof -
  have i: "i < length xs" "used (xs ! i)" "key (xs ! i) = k" using slot_of_SomeD [OF assms(2)] by auto
  have nth: "j < length xs \<Longrightarrow> used (xs[i := e] ! j) = used (xs ! j) \<and> (used (xs ! j) \<longrightarrow> key (xs[i := e] ! j) = key (xs ! j))" for j
    using i assms(3,4) by (cases "i = j") simp_all
  show d: "slots_distinct used key (xs[i := e])"
  proof (rule slots_distinctI)
    fix a b
    assume "a < length (xs[i := e])" "b < length (xs[i := e])" "used (xs[i := e] ! a)" "used (xs[i := e] ! b)"
      "key (xs[i := e] ! a) = key (xs[i := e] ! b)"
    then show "a = b" using nth [of a] nth [of b] slots_distinctD [OF assms(1), of a b] by simp
  qed
  show "slot_of used key (xs[i := e]) = slot_of used key xs"
    by (rule slot_of_eqI [OF d]) (use nth slot_of_iff [OF assms(1)] in auto)
qed

lemma slots_clear:
  assumes "slots_distinct used key xs" "slot_of used key xs k = Some i" "\<not> used z"
  shows "slots_distinct used key (xs[i := z])" "slot_of used key (xs[i := z]) = (slot_of used key xs)(k := None)"
proof -
  have i: "i < length xs" "used (xs ! i)" "key (xs ! i) = k" using slot_of_SomeD [OF assms(2)] by auto
  have nth: "j < length xs \<Longrightarrow> used (xs[i := z] ! j) = (j \<noteq> i \<and> used (xs ! j)) \<and> (j \<noteq> i \<longrightarrow> xs[i := z] ! j = xs ! j)" for j
    using i assms(3) by (simp add: nth_list_update)
  show d: "slots_distinct used key (xs[i := z])"
  proof (rule slots_distinctI)
    fix a b
    assume "a < length (xs[i := z])" "b < length (xs[i := z])" "used (xs[i := z] ! a)" "used (xs[i := z] ! b)"
      "key (xs[i := z] ! a) = key (xs[i := z] ! b)"
    then show "a = b" using nth [of a] nth [of b] slots_distinctD [OF assms(1), of a b] by simp
  qed
  show "slot_of used key (xs[i := z]) = (slot_of used key xs)(k := None)"
  proof (rule slot_of_eqI [OF d])
    fix x j
    have iff: "slot_of used key xs x = Some j \<longleftrightarrow> j < length xs \<and> used (xs ! j) \<and> key (xs ! j) = x"
      by (rule slot_of_iff [OF assms(1)])
    show "((slot_of used key xs)(k := None)) x = Some j \<longleftrightarrow>
        j < length (xs[i := z]) \<and> used (xs[i := z] ! j) \<and> key (xs[i := z] ! j) = x"
    proof (cases "j = i")
      case True
      then show ?thesis using iff i assms(3) by (simp add: fun_upd_def)
    next
      case False
      have "slot_of used key xs x \<noteq> Some j" if "x = k" using that False assms(2) by simp
      then show ?thesis using iff False by (simp add: fun_upd_def) blast
    qed
  qed
qed

lemma slots_fill:
  assumes "slots_distinct used key xs" "slot_of used key xs k = None" "i < length xs" "\<not> used (xs ! i)"
    and "used e" "key e = k"
  shows "slots_distinct used key (xs[i := e])" "slot_of used key (xs[i := e]) = (slot_of used key xs)(k \<mapsto> i)"
proof -
  have fresh: "\<not> (used (xs ! j) \<and> key (xs ! j) = k)" if "j < length xs" for j
    using assms(2) that by (auto simp: slot_of_None)
  show d: "slots_distinct used key (xs[i := e])"
  proof (rule slots_distinctI)
    fix a b
    assume "a < length (xs[i := e])" "b < length (xs[i := e])" "used (xs[i := e] ! a)" "used (xs[i := e] ! b)"
      "key (xs[i := e] ! a) = key (xs[i := e] ! b)"
    then show "a = b"
      using assms(3,6) fresh [of a] fresh [of b] slots_distinctD [OF assms(1), of a b]
      by (cases "a = i"; cases "b = i") simp_all
  qed
  show "slot_of used key (xs[i := e]) = (slot_of used key xs)(k \<mapsto> i)"
    by (rule slot_of_eqI [OF d])
      (use assms(3-6) fresh slot_of_iff [OF assms(1)] in \<open>auto simp: nth_list_update\<close>)
qed

section \<open>The map of a table\<close>

lemma slot_map_replace:
  assumes "slots_distinct used key xs" "slot_of used key xs k = Some i" "used e" "key e = k"
  shows "slot_map used key view (xs[i := e]) = (slot_map used key view xs)(k \<mapsto> view e)"
proof
  fix x
  have i: "i < length xs" "key (xs ! i) = k" using slot_of_SomeD [OF assms(2)] by auto
  show "slot_map used key view (xs[i := e]) x = ((slot_map used key view xs)(k \<mapsto> view e)) x"
  proof (cases "x = k")
    case True
    then show ?thesis using i assms(2) by (simp add: slot_map_def slots_replace [OF assms])
  next
    case False
    have "xs[i := e] ! j = xs ! j" if "slot_of used key xs x = Some j" for j
      using slot_of_SomeD [OF that] i False by (auto simp: nth_list_update)
    then show ?thesis using False
      by (cases "slot_of used key xs x") (simp_all add: slot_map_def slots_replace [OF assms])
  qed
qed

lemma slot_map_clear:
  assumes "slots_distinct used key xs" "slot_of used key xs k = Some i" "\<not> used z"
  shows "slot_map used key view (xs[i := z]) = (slot_map used key view xs)(k := None)"
proof
  fix x
  have i: "i < length xs" "key (xs ! i) = k" using slot_of_SomeD [OF assms(2)] by auto
  have "xs[i := z] ! j = xs ! j" if "slot_of used key xs x = Some j" "x \<noteq> k" for j
    using slot_of_SomeD [OF that(1)] i that(2) by (auto simp: nth_list_update)
  then show "slot_map used key view (xs[i := z]) x = ((slot_map used key view xs)(k := None)) x"
    by (cases "slot_of used key xs x") (simp_all add: slot_map_def slots_clear [OF assms])
qed

lemma slot_map_fill:
  assumes "slots_distinct used key xs" "slot_of used key xs k = None" "i < length xs" "\<not> used (xs ! i)"
    and "used e" "key e = k"
  shows "slot_map used key view (xs[i := e]) = (slot_map used key view xs)(k \<mapsto> view e)"
proof
  fix x
  have "xs[i := e] ! j = xs ! j" if "slot_of used key xs x = Some j" for j
    using slot_of_SomeD [OF that] assms(4) by (cases "i = j") auto
  then show "slot_map used key view (xs[i := e]) x = ((slot_map used key view xs)(k \<mapsto> view e)) x"
    using assms(3) by (cases "slot_of used key xs x") (simp_all add: slot_map_def slots_fill [OF assms])
qed

lemma slot_map_None: "slot_map used key view xs k = None \<longleftrightarrow> slot_of used key xs k = None"
  by (simp add: slot_map_def)

lemma slots_distinct_unused: "(\<forall>x \<in> set xs. \<not> used x) \<Longrightarrow> slots_distinct used key xs \<and> slot_of used key xs = Map.empty"
  by (auto simp: slots_distinct_def fun_eq_iff slot_of_None)

lemma slot_map_view_cong:
  assumes "\<And>j. j < length xs \<Longrightarrow> used (xs ! j) \<Longrightarrow> view' (xs ! j) = view (xs ! j)"
  shows "slot_map used key view' xs = slot_map used key view xs"
  using assms slot_of_SomeD [of used key xs] by (auto simp: slot_map_def fun_eq_iff intro!: option.map_cong0)

lemma slot_map_other_view:
  assumes "slot_of used key xs k = Some i"
    and "\<And>j. j < length xs \<Longrightarrow> j \<noteq> i \<Longrightarrow> used (xs ! j) \<Longrightarrow> view' (xs ! j) = view (xs ! j)"
  shows "(slot_map used key view' xs)(k := x) = (slot_map used key view xs)(k := x)"
proof
  fix y
  show "((slot_map used key view' xs)(k := x)) y = ((slot_map used key view xs)(k := x)) y"
  proof (cases "slot_of used key xs y")
    case None
    then show ?thesis by (simp add: slot_map_def)
  next
    case (Some j)
    then show ?thesis
      using slot_of_SomeD [OF Some] slot_of_SomeD [OF assms(1)] assms(2) [of j] by (cases "y = k") (auto simp: slot_map_def)
  qed
qed

text \<open>A scan of the first \<open>n\<close> slots when no slot behind them is in use.\<close>

lemma find_slot_take:
  "(\<And>j. n \<le> j \<Longrightarrow> j < length xs \<Longrightarrow> \<not> P (xs ! j)) \<Longrightarrow> find_slot P (take n xs) = find_slot P xs"
proof (induction xs arbitrary: n)
  case (Cons x xs)
  show ?case
  proof (cases n)
    case 0
    then have "\<forall>y \<in> set (x # xs). \<not> P y" using Cons.prems unfolding all_set_conv_all_nth by blast
    then have "find_slot P (x # xs) = None" by (simp only: find_slot_None)
    then show ?thesis using 0 by (simp del: find_slot.simps(2))
  next
    case (Suc m)
    have "\<not> P (xs ! j)" if "m \<le> j" "j < length xs" for j
      using Cons.prems [of "Suc j"] that Suc by simp
    then show ?thesis using Cons.IH [of m] Suc by simp
  qed
qed simp

end
