(* ===== verification/Tmpfs.thy ===== *)
theory Tmpfs
  imports Vfs_Node Slots
begin

text \<open>
  The memory file system mounted on \<open>/tmp\<close>, \<open>kernel/tmpfs.c\<close>: a table of 64 entries, each a
  regular file of at most 4096 bytes or a directory, addressed by its full path.

  Results 0 and -1 are \<open>True\<close> and \<open>False\<close> or an option. Buffers are byte lists of the requested
  length and output pointers are non-null, as in every call in the kernel. File sizes, at most
  4096, and offsets into files are natural numbers.
\<close>

definition TMPFS_MAX_ENTRIES :: nat where "TMPFS_MAX_ENTRIES = 64"
definition TMPFS_PATH_MAX :: nat where "TMPFS_PATH_MAX = 256"
definition TMPFS_FILE_CAPACITY :: nat where "TMPFS_FILE_CAPACITY = 4096"
definition TMPFS_ROOT_INO :: u64 where "TMPFS_ROOT_INO = 0x544D5001"

record tmpfs_entry =
  t_in_use :: bool
  t_type :: vfs_type
  t_mode :: u16
  t_uid :: u32
  t_gid :: u32
  t_size :: nat
  t_inode :: u64
  t_path :: string
  t_data :: bytes

record tmpfs_state =
  g_tmpfs_entries :: "tmpfs_entry list"
  g_tmpfs_next_inode :: u64

definition tmpfs_entry_zero :: tmpfs_entry where
  "tmpfs_entry_zero = \<lparr>t_in_use = False, t_type = VFS_NODE_TYPE_NONE, t_mode = 0, t_uid = 0, t_gid = 0,
     t_size = 0, t_inode = 0, t_path = [], t_data = replicate TMPFS_FILE_CAPACITY 0\<rparr>"

function trim_slashes :: "string \<Rightarrow> string" where
  "trim_slashes path = (if length path > 3 \<and> last path = CHR ''/'' then trim_slashes (butlast path) else path)"
  by auto
termination by (relation "measure length") auto

declare trim_slashes.simps [simp del]

definition normalize_tmpfs_path :: "string option \<Rightarrow> nat \<Rightarrow> string option" where
  "normalize_tmpfs_path path out_size =
     (case path of None \<Rightarrow> None
      | Some p \<Rightarrow>
          if out_size = 0 then None
          else let p = trim_slashes (dropWhile (\<lambda>c. c = CHR ''/'') p)
               in if length p < 3 \<or> take 3 p \<noteq> ''tmp'' \<or> (length p > 3 \<and> p ! 3 \<noteq> CHR ''/'') \<or> length p \<ge> out_size
                  then None else Some p)"

text \<open>The index just behind the last slash, 0 if there is none.\<close>

fun slash_index :: "string \<Rightarrow> nat \<Rightarrow> nat" where
  "slash_index path 0 = 0"
| "slash_index path (Suc n) = (if path ! n \<noteq> CHR ''/'' then slash_index path n else Suc n)"

definition parent_path_of :: "string \<Rightarrow> nat \<Rightarrow> string option" where
  "parent_path_of path parent_size =
     (if parent_size = 0 \<or> length path \<le> 3 then None
      else let slash = slash_index path (length path)
           in if slash \<le> 3 \<or> slash > parent_size then None else Some (take (slash - 1) path))"

definition find_entry :: "string \<Rightarrow> tmpfs_state \<Rightarrow> nat option" where
  "find_entry path s = find_slot (\<lambda>e. t_in_use e \<and> path_equals (t_path e) path) (g_tmpfs_entries s)"

definition parent_directory_exists :: "string \<Rightarrow> tmpfs_state \<Rightarrow> bool" where
  "parent_directory_exists path s =
     (case parent_path_of path TMPFS_PATH_MAX of
        None \<Rightarrow> False
      | Some parent \<Rightarrow> if path_equals parent ''tmp'' then True
          else case find_entry parent s of
                 None \<Rightarrow> False
               | Some i \<Rightarrow> t_type (g_tmpfs_entries s ! i) = VFS_NODE_TYPE_DIRECTORY)"

definition allocate_entry ::
  "string \<Rightarrow> vfs_type \<Rightarrow> u16 \<Rightarrow> u32 \<Rightarrow> u32 \<Rightarrow> tmpfs_state \<Rightarrow> nat option \<times> tmpfs_state" where
  "allocate_entry path type mode uid gid s =
     (case find_slot (\<lambda>e. \<not> t_in_use e) (g_tmpfs_entries s) of
        None \<Rightarrow> (None, s)
      | Some i \<Rightarrow> (Some i, s\<lparr>g_tmpfs_entries := (g_tmpfs_entries s)[i := tmpfs_entry_zero\<lparr>t_in_use := True,
            t_type := type, t_mode := mode AND 0xFFF, t_uid := uid, t_gid := gid, t_inode := g_tmpfs_next_inode s,
            t_path := copy_string TMPFS_PATH_MAX path\<rparr>],
          g_tmpfs_next_inode := g_tmpfs_next_inode s + 1\<rparr>))"

definition fill_root_node :: vfs_node where
  "fill_root_node = vfs_node_zero\<lparr>n_type := VFS_NODE_TYPE_DIRECTORY, n_backend := VFS_BACKEND_TMPFS,
     n_mode := 0x3FF, n_inode := TMPFS_ROOT_INO, n_path := copy_string VFS_PATH_BYTES ''tmp''\<rparr>"

definition fill_entry_node :: "nat \<Rightarrow> tmpfs_entry \<Rightarrow> vfs_node" where
  "fill_entry_node i entry = vfs_node_zero\<lparr>n_type := t_type entry, n_backend := VFS_BACKEND_TMPFS,
     n_mode := t_mode entry, n_uid := t_uid entry, n_gid := t_gid entry, n_size := of_nat (t_size entry),
     n_inode := t_inode entry,
     n_u := (if t_type entry = VFS_NODE_TYPE_REGULAR then U_tmpfs_data i else U_null),
     n_path := copy_string VFS_PATH_BYTES (t_path entry)\<rparr>"

definition is_descendant :: "string \<Rightarrow> string \<Rightarrow> bool" where
  "is_descendant directory path \<longleftrightarrow>
     length directory < length path \<and> take (length directory) path = directory \<and>
     path ! length directory = CHR ''/''"

definition direct_child_name :: "string \<Rightarrow> string \<Rightarrow> string option" where
  "direct_child_name directory path =
     (if \<not> is_descendant directory path then None
      else let child = drop (length directory + 1) path; name = takeWhile (\<lambda>c. c \<noteq> CHR ''/'') child
           in if name = [] \<or> length name \<noteq> length child then None else Some name)"

definition tmpfs_init :: "tmpfs_state \<Rightarrow> tmpfs_state" where
  "tmpfs_init s = s\<lparr>g_tmpfs_entries := replicate TMPFS_MAX_ENTRIES tmpfs_entry_zero,
     g_tmpfs_next_inode := TMPFS_ROOT_INO + 1\<rparr>"

definition tmpfs_lookup_path :: "string option \<Rightarrow> tmpfs_state \<Rightarrow> vfs_node option" where
  "tmpfs_lookup_path path s =
     (case normalize_tmpfs_path path TMPFS_PATH_MAX of
        None \<Rightarrow> None
      | Some normalized \<Rightarrow>
          if path_equals normalized ''tmp'' then Some fill_root_node
          else map_option (\<lambda>i. fill_entry_node i (g_tmpfs_entries s ! i)) (find_entry normalized s))"

definition tmpfs_create_path_mode ::
  "string option \<Rightarrow> u16 \<Rightarrow> u32 \<Rightarrow> u32 \<Rightarrow> tmpfs_state \<Rightarrow> vfs_node option \<times> tmpfs_state" where
  "tmpfs_create_path_mode path mode uid gid s =
     (case normalize_tmpfs_path path TMPFS_PATH_MAX of
        None \<Rightarrow> (None, s)
      | Some normalized \<Rightarrow>
          if path_equals normalized ''tmp'' \<or> \<not> parent_directory_exists normalized s then (None, s)
          else case find_entry normalized s of
                 Some i \<Rightarrow> if t_type (g_tmpfs_entries s ! i) \<noteq> VFS_NODE_TYPE_REGULAR then (None, s)
                           else (Some (fill_entry_node i (g_tmpfs_entries s ! i)), s)
               | None \<Rightarrow> (case allocate_entry normalized VFS_NODE_TYPE_REGULAR mode uid gid s of
                     (None, s') \<Rightarrow> (None, s')
                   | (Some i, s') \<Rightarrow> (Some (fill_entry_node i (g_tmpfs_entries s' ! i)), s')))"

definition tmpfs_create_path :: "string option \<Rightarrow> tmpfs_state \<Rightarrow> vfs_node option \<times> tmpfs_state" where
  "tmpfs_create_path path s = tmpfs_create_path_mode path 0x180 0 0 s"

definition tmpfs_mkdir_path_mode :: "string option \<Rightarrow> u16 \<Rightarrow> u32 \<Rightarrow> u32 \<Rightarrow> tmpfs_state \<Rightarrow> bool \<times> tmpfs_state" where
  "tmpfs_mkdir_path_mode path mode uid gid s =
     (case normalize_tmpfs_path path TMPFS_PATH_MAX of
        None \<Rightarrow> (False, s)
      | Some normalized \<Rightarrow>
          if path_equals normalized ''tmp'' \<or> find_entry normalized s \<noteq> None \<or> \<not> parent_directory_exists normalized s
          then (False, s)
          else (case allocate_entry normalized VFS_NODE_TYPE_DIRECTORY mode uid gid s of
                  (None, s') \<Rightarrow> (False, s') | (Some _, s') \<Rightarrow> (True, s')))"

definition regular_entry :: "string option \<Rightarrow> tmpfs_state \<Rightarrow> nat option" where
  "regular_entry path s =
     (case normalize_tmpfs_path path TMPFS_PATH_MAX of
        None \<Rightarrow> None
      | Some normalized \<Rightarrow> (case find_entry normalized s of
          None \<Rightarrow> None
        | Some i \<Rightarrow> if t_type (g_tmpfs_entries s ! i) \<noteq> VFS_NODE_TYPE_REGULAR then None else Some i))"

definition set_entry :: "nat \<Rightarrow> tmpfs_entry \<Rightarrow> tmpfs_state \<Rightarrow> tmpfs_state" where
  "set_entry i e s = s\<lparr>g_tmpfs_entries := (g_tmpfs_entries s)[i := e]\<rparr>"

definition tmpfs_resize_path :: "string option \<Rightarrow> nat \<Rightarrow> tmpfs_state \<Rightarrow> bool \<times> tmpfs_state" where
  "tmpfs_resize_path path sz s =
     (if sz > TMPFS_FILE_CAPACITY then (False, s)
      else case regular_entry path s of
             None \<Rightarrow> (False, s)
           | Some i \<Rightarrow>
               let e = g_tmpfs_entries s ! i;
                   e = (if sz > t_size e then e\<lparr>t_data := overwrite (t_size e) (replicate (sz - t_size e) 0) (t_data e)\<rparr> else e)
               in (True, set_entry i (e\<lparr>t_size := sz\<rparr>) s))"

definition tmpfs_truncate_path :: "string option \<Rightarrow> tmpfs_state \<Rightarrow> bool \<times> tmpfs_state" where
  "tmpfs_truncate_path path s = tmpfs_resize_path path 0 s"

definition tmpfs_read_path :: "string option \<Rightarrow> nat \<Rightarrow> nat \<Rightarrow> tmpfs_state \<Rightarrow> bytes option" where
  "tmpfs_read_path path offset len s =
     (case regular_entry path s of
        None \<Rightarrow> None
      | Some i \<Rightarrow>
          let e = g_tmpfs_entries s ! i
          in if offset > t_size e \<or> len > t_size e - offset then None else Some (subarr offset len (t_data e)))"

text \<open>The result is the number of bytes written and the new size.\<close>

definition tmpfs_write_path :: "string option \<Rightarrow> nat \<Rightarrow> bytes \<Rightarrow> tmpfs_state \<Rightarrow> (nat \<times> nat) option \<times> tmpfs_state" where
  "tmpfs_write_path path offset buffer s =
     (case regular_entry path s of
        None \<Rightarrow> (None, s)
      | Some i \<Rightarrow>
          let e = g_tmpfs_entries s ! i
          in if offset \<ge> TMPFS_FILE_CAPACITY then (Some (0, t_size e), s)
             else let to_write = (if offset + length buffer > TMPFS_FILE_CAPACITY
                                  then TMPFS_FILE_CAPACITY - offset else length buffer);
                      e = e\<lparr>t_data := overwrite offset (take to_write buffer) (t_data e)\<rparr>;
                      e = (if offset + to_write > t_size e then e\<lparr>t_size := offset + to_write\<rparr> else e)
                  in (Some (to_write, t_size e), set_entry i e s))"

definition tmpfs_unlink_path :: "string option \<Rightarrow> tmpfs_state \<Rightarrow> bool \<times> tmpfs_state" where
  "tmpfs_unlink_path path s =
     (case regular_entry path s of None \<Rightarrow> (False, s) | Some i \<Rightarrow> (True, set_entry i tmpfs_entry_zero s))"

definition tmpfs_rmdir_path :: "string option \<Rightarrow> tmpfs_state \<Rightarrow> bool \<times> tmpfs_state" where
  "tmpfs_rmdir_path path s =
     (case normalize_tmpfs_path path TMPFS_PATH_MAX of
        None \<Rightarrow> (False, s)
      | Some normalized \<Rightarrow>
          if path_equals normalized ''tmp'' then (False, s)
          else case find_entry normalized s of
                 None \<Rightarrow> (False, s)
               | Some i \<Rightarrow>
                   if t_type (g_tmpfs_entries s ! i) \<noteq> VFS_NODE_TYPE_DIRECTORY then (False, s)
                   else if \<exists>e \<in> set (g_tmpfs_entries s). t_in_use e \<and> is_descendant normalized (t_path e) then (False, s)
                   else (True, set_entry i tmpfs_entry_zero s))"

definition tmpfs_chmod_path :: "string option \<Rightarrow> u16 \<Rightarrow> tmpfs_state \<Rightarrow> bool \<times> tmpfs_state" where
  "tmpfs_chmod_path path mode s =
     (case Option.bind (normalize_tmpfs_path path TMPFS_PATH_MAX) (\<lambda>n. find_entry n s) of
        None \<Rightarrow> (False, s)
      | Some i \<Rightarrow> (True, set_entry i ((g_tmpfs_entries s ! i)\<lparr>t_mode := mode AND 0xFFF\<rparr>) s))"

definition tmpfs_chown_path :: "string option \<Rightarrow> u32 \<Rightarrow> u32 \<Rightarrow> tmpfs_state \<Rightarrow> bool \<times> tmpfs_state" where
  "tmpfs_chown_path path uid gid s =
     (case Option.bind (normalize_tmpfs_path path TMPFS_PATH_MAX) (\<lambda>n. find_entry n s) of
        None \<Rightarrow> (False, s)
      | Some i \<Rightarrow> (True, set_entry i ((g_tmpfs_entries s ! i)\<lparr>t_uid := uid, t_gid := gid\<rparr>) s))"

fun dirent_loop :: "string \<Rightarrow> nat \<Rightarrow> nat \<Rightarrow> nat \<Rightarrow> tmpfs_entry list \<Rightarrow> (string \<times> nat \<times> u8) option" where
  "dirent_loop directory index current name_buf_size [] = None"
| "dirent_loop directory index current name_buf_size (e # es) =
     (case (if t_in_use e then direct_child_name directory (t_path e) else None) of
        None \<Rightarrow> dirent_loop directory index current name_buf_size es
      | Some name \<Rightarrow>
          if current \<noteq> index then dirent_loop directory index (current + 1) name_buf_size es
          else if length name \<ge> name_buf_size then None
          else Some (name, t_size e,
                 if t_type e = VFS_NODE_TYPE_DIRECTORY then LINUX_DTYPE_DIR else LINUX_DTYPE_REG))"

text \<open>The entry's name, size and type.\<close>

definition tmpfs_dirent_at_index ::
  "string option \<Rightarrow> nat \<Rightarrow> nat \<Rightarrow> tmpfs_state \<Rightarrow> (string \<times> nat \<times> u8) option" where
  "tmpfs_dirent_at_index path index name_buf_size s =
     (if name_buf_size = 0 then None
      else case normalize_tmpfs_path path TMPFS_PATH_MAX of
        None \<Rightarrow> None
      | Some normalized \<Rightarrow>
          if \<not> path_equals normalized ''tmp'' \<and>
             (case find_entry normalized s of None \<Rightarrow> True
              | Some i \<Rightarrow> t_type (g_tmpfs_entries s ! i) \<noteq> VFS_NODE_TYPE_DIRECTORY)
          then None
          else if index = 0 \<or> index = 1
          then Some (copy_string name_buf_size (if index = 0 then ''.'' else ''..''), 0, LINUX_DTYPE_DIR)
          else dirent_loop normalized (index - 2) 0 name_buf_size (g_tmpfs_entries s))"

section \<open>Paths\<close>

abbreviation norm_path :: "string \<Rightarrow> string option" where
  "norm_path p \<equiv> normalize_tmpfs_path (Some p) TMPFS_PATH_MAX"

lemma trim_slashes_idem [simp]: "trim_slashes (trim_slashes p) = trim_slashes p"
proof (induction p rule: trim_slashes.induct)
  case (1 p)
  then show ?case by (cases "length p > 3 \<and> last p = CHR ''/''") (auto simp: trim_slashes.simps [of p])
qed

lemma normalize_idem:
  assumes "norm_path p = Some q"
  shows "norm_path q = Some q"
proof -
  have q: "q = trim_slashes (dropWhile (\<lambda>c. c = CHR ''/'') p)" "take 3 q = ''tmp''" "\<not> length q < 3"
    using assms by (auto simp: normalize_tmpfs_path_def Let_def split: if_splits)
  from q(2,3) have "dropWhile (\<lambda>c. c = CHR ''/'') q = q" by (cases q) auto
  moreover have "trim_slashes q = q" using q(1) by simp
  ultimately show ?thesis
    using assms by (auto simp: normalize_tmpfs_path_def Let_def split: if_splits)
qed

lemma normalize_length: "norm_path p = Some q \<Longrightarrow> length q < TMPFS_PATH_MAX"
  by (auto simp: normalize_tmpfs_path_def Let_def split: if_splits)

lemma slash_index_bound: "slash_index path n \<le> n"
  by (induction n) auto

lemma slash_index_char: "0 < slash_index path n \<Longrightarrow> path ! (slash_index path n - 1) = CHR ''/''"
  by (induction n) auto

text \<open>A path lies below its parent.\<close>

lemma parent_is_prefix:
  assumes "parent_path_of path sz = Some d"
  shows "is_descendant d path"
proof -
  let ?k = "slash_index path (length path)"
  have d: "d = take (?k - 1) path" "3 < ?k"
    using assms by (auto simp: parent_path_of_def Let_def split: if_splits)
  have "?k \<le> length path" by (rule slash_index_bound)
  then show ?thesis
    using d slash_index_char [of path "length path"] by (simp add: is_descendant_def min_def)
qed

section \<open>The table as a tree of files\<close>

type_synonym tmpfs_file = "vfs_type \<times> u16 \<times> u32 \<times> u32 \<times> bytes"

definition tmpfs_view :: "tmpfs_entry \<Rightarrow> tmpfs_file" where
  "tmpfs_view e = (t_type e, t_mode e, t_uid e, t_gid e, take (t_size e) (t_data e))"

definition tmpfs_tree :: "tmpfs_state \<Rightarrow> string \<Rightarrow> tmpfs_file option" where
  "tmpfs_tree s = slot_map t_in_use t_path tmpfs_view (g_tmpfs_entries s)"

lemma find_entry_slot: "find_entry p s = slot_of t_in_use t_path (g_tmpfs_entries s) p"
  by (simp add: find_entry_def slot_of_def path_equals_eq)

text \<open>The parent of a path is the root or a directory of the tree.\<close>

definition parent_in :: "(string \<Rightarrow> tmpfs_file option) \<Rightarrow> string \<Rightarrow> bool" where
  "parent_in tree p \<longleftrightarrow> (case parent_path_of p TMPFS_PATH_MAX of None \<Rightarrow> False
     | Some d \<Rightarrow> d = ''tmp'' \<or> (case tree d of None \<Rightarrow> False | Some f \<Rightarrow> fst f = VFS_NODE_TYPE_DIRECTORY))"

lemma parent_directory_exists_tree: "parent_directory_exists p s = parent_in (tmpfs_tree s) p"
  by (auto simp: parent_directory_exists_def parent_in_def path_equals_eq find_entry_slot tmpfs_tree_def slot_map_def
      tmpfs_view_def split: option.splits)

definition entry_ok :: "tmpfs_entry \<Rightarrow> bool" where
  "entry_ok e \<longleftrightarrow> length (t_data e) = TMPFS_FILE_CAPACITY \<and> t_size e \<le> TMPFS_FILE_CAPACITY \<and>
     (t_in_use e \<longrightarrow> t_type e \<in> {VFS_NODE_TYPE_REGULAR, VFS_NODE_TYPE_DIRECTORY} \<and>
        norm_path (t_path e) = Some (t_path e) \<and> t_path e \<noteq> ''tmp'')"

definition tmpfs_ok :: "tmpfs_state \<Rightarrow> bool" where
  "tmpfs_ok s \<longleftrightarrow> length (g_tmpfs_entries s) = TMPFS_MAX_ENTRIES \<and> (\<forall>e \<in> set (g_tmpfs_entries s). entry_ok e) \<and>
     slots_distinct t_in_use t_path (g_tmpfs_entries s) \<and> (\<forall>p \<in> dom (tmpfs_tree s). parent_in (tmpfs_tree s) p)"

lemma entry_zero_ok [simp]: "entry_ok tmpfs_entry_zero" "\<not> t_in_use tmpfs_entry_zero"
  by (simp_all add: entry_ok_def tmpfs_entry_zero_def)

lemma tmpfs_ok_init: "tmpfs_ok (tmpfs_init s)" "tmpfs_tree (tmpfs_init s) = Map.empty"
proof -
  have "\<forall>x \<in> set (g_tmpfs_entries (tmpfs_init s)). \<not> t_in_use x" by (simp add: tmpfs_init_def)
  note * = slots_distinct_unused [OF this, of t_path]
  then show "tmpfs_tree (tmpfs_init s) = Map.empty" by (simp add: tmpfs_tree_def slot_map_def fun_eq_iff)
  with * show "tmpfs_ok (tmpfs_init s)" by (simp add: tmpfs_ok_def tmpfs_init_def)
qed

lemma tmpfs_entry_found:
  assumes "tmpfs_ok s" "find_entry p s = Some i"
  shows "i < length (g_tmpfs_entries s)" "t_in_use (g_tmpfs_entries s ! i)" "t_path (g_tmpfs_entries s ! i) = p"
    "entry_ok (g_tmpfs_entries s ! i)" "tmpfs_tree s p = Some (tmpfs_view (g_tmpfs_entries s ! i))"
  using assms slot_of_SomeD [of t_in_use t_path "g_tmpfs_entries s" p i]
  by (auto simp: find_entry_slot tmpfs_ok_def tmpfs_tree_def slot_map_def)

text \<open>The three ways the operations change the table.\<close>

lemma tmpfs_replace:
  assumes "tmpfs_ok s" "find_entry p s = Some i" "t_in_use e" "t_path e = p" "entry_ok e"
    and "t_type e = t_type (g_tmpfs_entries s ! i)"
  shows "tmpfs_ok (set_entry i e s) \<and> tmpfs_tree (set_entry i e s) = (tmpfs_tree s)(p \<mapsto> tmpfs_view e)"
proof -
  have d: "slots_distinct t_in_use t_path (g_tmpfs_entries s)" using assms(1) by (simp add: tmpfs_ok_def)
  note r = assms(2) [unfolded find_entry_slot]
  have tree: "tmpfs_tree (set_entry i e s) = (tmpfs_tree s)(p \<mapsto> tmpfs_view e)"
    using slot_map_replace [OF d r assms(3,4)] by (simp add: tmpfs_tree_def set_entry_def)
  have "parent_in (tmpfs_tree (set_entry i e s)) x \<longleftrightarrow> parent_in (tmpfs_tree s) x" for x
    using tmpfs_entry_found(5) [OF assms(1,2)] assms(6)
    by (auto simp: tree parent_in_def tmpfs_view_def split: option.splits)
  moreover have "dom (tmpfs_tree (set_entry i e s)) = dom (tmpfs_tree s)"
    using tmpfs_entry_found(5) [OF assms(1,2)] by (auto simp: tree)
  ultimately show ?thesis
    using assms(1,5) tree slots_replace(1) [OF d r assms(3,4)]
    by (auto simp: tmpfs_ok_def set_entry_def dest!: set_update_subset_insert [THEN subsetD])
qed

lemma tmpfs_clear:
  assumes "tmpfs_ok s" "find_entry p s = Some i"
    and "\<And>x. x \<in> dom (tmpfs_tree s) \<Longrightarrow> parent_path_of x TMPFS_PATH_MAX \<noteq> Some p \<or>
      t_type (g_tmpfs_entries s ! i) \<noteq> VFS_NODE_TYPE_DIRECTORY"
  shows "tmpfs_ok (set_entry i tmpfs_entry_zero s) \<and> tmpfs_tree (set_entry i tmpfs_entry_zero s) = (tmpfs_tree s)(p := None)"
proof -
  have d: "slots_distinct t_in_use t_path (g_tmpfs_entries s)" using assms(1) by (simp add: tmpfs_ok_def)
  note r = assms(2) [unfolded find_entry_slot]
  have tree: "tmpfs_tree (set_entry i tmpfs_entry_zero s) = (tmpfs_tree s)(p := None)"
    using slot_map_clear [OF d r entry_zero_ok(2)] by (simp add: tmpfs_tree_def set_entry_def)
  have "parent_in (tmpfs_tree (set_entry i tmpfs_entry_zero s)) x" if "x \<in> dom (tmpfs_tree s)" for x
  proof -
    have "parent_in (tmpfs_tree s) x" using that assms(1) by (simp add: tmpfs_ok_def)
    then show ?thesis
      using assms(3) [OF that] tmpfs_entry_found(5) [OF assms(1,2)]
      by (auto simp: tree parent_in_def tmpfs_view_def split: option.splits)
  qed
  then show ?thesis
    using assms(1) tree slots_clear(1) [OF d r entry_zero_ok(2)]
    by (auto simp: tmpfs_ok_def set_entry_def dest!: set_update_subset_insert [THEN subsetD])
qed

lemma tmpfs_allocate:
  assumes "tmpfs_ok s" "find_entry p s = None" "norm_path p = Some p" "p \<noteq> ''tmp''" "parent_in (tmpfs_tree s) p"
    and "type \<in> {VFS_NODE_TYPE_REGULAR, VFS_NODE_TYPE_DIRECTORY}" "allocate_entry p type mode uid gid s = (Some i, s')"
  shows "tmpfs_ok s' \<and> tmpfs_tree s' = (tmpfs_tree s)(p \<mapsto> (type, mode AND 0xFFF, uid, gid, []))"
proof -
  have d: "slots_distinct t_in_use t_path (g_tmpfs_entries s)" using assms(1) by (simp add: tmpfs_ok_def)
  define e where "e = tmpfs_entry_zero\<lparr>t_in_use := True, t_type := type, t_mode := mode AND 0xFFF, t_uid := uid,
      t_gid := gid, t_inode := g_tmpfs_next_inode s, t_path := copy_string TMPFS_PATH_MAX p\<rparr>"
  have free: "find_slot (\<lambda>e. \<not> t_in_use e) (g_tmpfs_entries s) = Some i"
    and s': "g_tmpfs_entries s' = (g_tmpfs_entries s)[i := e]"
    using assms(7) by (auto simp: allocate_entry_def e_def split: option.splits)
  have i: "i < length (g_tmpfs_entries s)" "\<not> t_in_use (g_tmpfs_entries s ! i)"
    using find_slot_SomeD [OF free] by auto
  have e: "t_in_use e" "t_path e = p"
    using normalize_length [OF assms(3)] by (simp_all add: e_def copy_string_fits)
  note f = d assms(2) [unfolded find_entry_slot] i e
  have view: "tmpfs_view e = (type, mode AND 0xFFF, uid, gid, [])"
    by (simp add: tmpfs_view_def e_def tmpfs_entry_zero_def)
  have tree: "tmpfs_tree s' = (tmpfs_tree s)(p \<mapsto> tmpfs_view e)"
    using slot_map_fill [OF f] by (simp add: tmpfs_tree_def s')
  have mono: "parent_in (tmpfs_tree s) x \<Longrightarrow> parent_in (tmpfs_tree s') x" for x
  proof -
    have "tmpfs_tree s p = None"
      using assms(2) by (simp add: find_entry_slot tmpfs_tree_def slot_map_None)
    then show "parent_in (tmpfs_tree s) x \<Longrightarrow> parent_in (tmpfs_tree s') x"
      by (auto simp: tree parent_in_def split: option.splits)
  qed
  have "entry_ok e"
    using assms(3,4,6) e by (auto simp: entry_ok_def e_def tmpfs_entry_zero_def)
  then show ?thesis
    using assms(1,5) tree view slots_fill(1) [OF f] mono
    by (auto simp: tmpfs_ok_def s' dest!: set_update_subset_insert [THEN subsetD])
qed

section \<open>The operations on the tree\<close>

lemma regular_entryD:
  assumes "tmpfs_ok s" "regular_entry (Some p) s = Some i"
  obtains q m u g d where "norm_path p = Some q" "find_entry q s = Some i"
    "tmpfs_tree s q = Some (VFS_NODE_TYPE_REGULAR, m, u, g, d)" "d = take (t_size (g_tmpfs_entries s ! i)) (t_data (g_tmpfs_entries s ! i))"
    "length d = t_size (g_tmpfs_entries s ! i)" "length d \<le> TMPFS_FILE_CAPACITY"
    "tmpfs_view (g_tmpfs_entries s ! i) = (VFS_NODE_TYPE_REGULAR, m, u, g, d)"
proof -
  obtain q where q: "norm_path p = Some q" "find_entry q s = Some i" "t_type (g_tmpfs_entries s ! i) = VFS_NODE_TYPE_REGULAR"
    using assms(2) by (auto simp: regular_entry_def split: option.splits if_splits)
  note f = tmpfs_entry_found [OF assms(1) q(2)]
  show thesis
    by (rule that [of q _ _ _ "take (t_size (g_tmpfs_entries s ! i)) (t_data (g_tmpfs_entries s ! i))"])
      (use q f in \<open>auto simp: tmpfs_view_def entry_ok_def\<close>)
qed

lemma regular_entry_tree:
  assumes "tmpfs_ok s" "norm_path p = Some q"
  shows "regular_entry (Some p) s = (case tmpfs_tree s q of None \<Rightarrow> None
    | Some f \<Rightarrow> if fst f = VFS_NODE_TYPE_REGULAR then find_entry q s else None)"
  using assms tmpfs_entry_found(5) [OF assms(1), of q]
  by (cases "find_entry q s")
    (auto simp: regular_entry_def tmpfs_view_def tmpfs_tree_def find_entry_slot slot_map_def)

lemma tmpfs_create_step:
  assumes "tmpfs_ok s" "norm_path p = Some q" "tmpfs_create_path_mode (Some p) mode uid gid s = (r, s')"
  shows "tmpfs_ok s' \<and> (r = None \<longrightarrow> s' = s) \<and>
    (r \<noteq> None \<longrightarrow> (case tmpfs_tree s q of Some f \<Rightarrow> fst f = VFS_NODE_TYPE_REGULAR \<and> s' = s
       | None \<Rightarrow> tmpfs_tree s' = (tmpfs_tree s)(q \<mapsto> (VFS_NODE_TYPE_REGULAR, mode AND 0xFFF, uid, gid, []))))"
proof (cases "find_entry q s")
  case (Some i)
  then show ?thesis
    using assms tmpfs_entry_found(5) [OF assms(1) Some]
    by (auto simp: tmpfs_create_path_mode_def tmpfs_view_def split: if_splits)
next
  case None
  then have tree: "tmpfs_tree s q = None" by (simp add: find_entry_slot tmpfs_tree_def slot_map_None)
  obtain a s1 where al: "allocate_entry q VFS_NODE_TYPE_REGULAR mode uid gid s = (a, s1)" by fastforce
  have "a = None \<Longrightarrow> s1 = s" using al by (auto simp: allocate_entry_def split: option.splits)
  moreover have "tmpfs_ok s1 \<and> tmpfs_tree s1 = (tmpfs_tree s)(q \<mapsto> (VFS_NODE_TYPE_REGULAR, mode AND 0xFFF, uid, gid, []))"
    if "a = Some i" "q \<noteq> ''tmp''" "parent_directory_exists q s" for i
    by (rule tmpfs_allocate [OF assms(1) None normalize_idem [OF assms(2)] that(2)])
      (use that al in \<open>simp_all add: parent_directory_exists_tree\<close>)
  ultimately show ?thesis
    using assms None tree al
    by (auto simp: tmpfs_create_path_mode_def path_equals_eq split: if_splits option.splits)
qed

lemma tmpfs_mkdir_step:
  assumes "tmpfs_ok s" "norm_path p = Some q" "tmpfs_mkdir_path_mode (Some p) mode uid gid s = (r, s')"
  shows "tmpfs_ok s' \<and> (\<not> r \<longrightarrow> s' = s) \<and>
    (r \<longrightarrow> tmpfs_tree s q = None \<and> parent_in (tmpfs_tree s) q \<and>
       tmpfs_tree s' = (tmpfs_tree s)(q \<mapsto> (VFS_NODE_TYPE_DIRECTORY, mode AND 0xFFF, uid, gid, [])))"
proof (cases "q \<noteq> ''tmp'' \<and> find_entry q s = None \<and> parent_directory_exists q s")
  case False
  then show ?thesis using assms by (auto simp: tmpfs_mkdir_path_mode_def path_equals_eq split: if_splits)
next
  case True
  then have tree: "tmpfs_tree s q = None" by (simp add: find_entry_slot tmpfs_tree_def slot_map_None)
  obtain a s1 where al: "allocate_entry q VFS_NODE_TYPE_DIRECTORY mode uid gid s = (a, s1)" by fastforce
  have "a = None \<Longrightarrow> s1 = s" using al by (auto simp: allocate_entry_def split: option.splits)
  moreover have "tmpfs_ok s1 \<and> tmpfs_tree s1 = (tmpfs_tree s)(q \<mapsto> (VFS_NODE_TYPE_DIRECTORY, mode AND 0xFFF, uid, gid, []))"
    if "a = Some i" for i
    by (rule tmpfs_allocate [OF assms(1) _ normalize_idem [OF assms(2)]])
      (use that al True in \<open>simp_all add: parent_directory_exists_tree\<close>)
  ultimately show ?thesis
    using assms True tree al
    by (auto simp: tmpfs_mkdir_path_mode_def path_equals_eq parent_directory_exists_tree split: option.splits)
qed

lemma tmpfs_resize_step:
  assumes "tmpfs_ok s" "tmpfs_resize_path (Some p) sz s = (r, s')"
  shows "tmpfs_ok s' \<and> (\<not> r \<longrightarrow> s' = s) \<and>
    (r \<longrightarrow> (\<exists>q m u g d. norm_path p = Some q \<and> tmpfs_tree s q = Some (VFS_NODE_TYPE_REGULAR, m, u, g, d) \<and>
       tmpfs_tree s' = (tmpfs_tree s)(q \<mapsto> (VFS_NODE_TYPE_REGULAR, m, u, g, take sz d @ replicate (sz - length d) 0))))"
proof (cases "sz > TMPFS_FILE_CAPACITY \<or> regular_entry (Some p) s = None")
  case True
  then show ?thesis using assms by (auto simp: tmpfs_resize_path_def split: if_splits)
next
  case False
  then obtain i where i: "regular_entry (Some p) s = Some i" and sz: "sz \<le> TMPFS_FILE_CAPACITY" by auto
  let ?e = "g_tmpfs_entries s ! i"
  obtain q m u g d where q: "norm_path p = Some q" "find_entry q s = Some i"
    "tmpfs_tree s q = Some (VFS_NODE_TYPE_REGULAR, m, u, g, d)" "d = take (t_size ?e) (t_data ?e)"
    "length d = t_size ?e" "length d \<le> TMPFS_FILE_CAPACITY" "tmpfs_view ?e = (VFS_NODE_TYPE_REGULAR, m, u, g, d)"
    by (rule regular_entryD [OF assms(1) i])
  define e' where "e' = (if sz > t_size ?e then ?e\<lparr>t_data := overwrite (t_size ?e) (replicate (sz - t_size ?e) 0) (t_data ?e)\<rparr>
      else ?e)\<lparr>t_size := sz\<rparr>"
  note f = tmpfs_entry_found [OF assms(1) q(2)]
  have len: "length (t_data ?e) = TMPFS_FILE_CAPACITY" using f(4) by (simp add: entry_ok_def)
  have e': "t_in_use e'" "t_path e' = q" "t_type e' = t_type ?e" "entry_ok e'"
    using f sz len q(5,6) by (auto simp: e'_def entry_ok_def length_overwrite)
  have "take sz (t_data e') = take sz d @ replicate (sz - length d) 0"
    using len sz q(4,5,6) by (auto simp: e'_def overwrite_def min_def)
  then have "tmpfs_view e' = (VFS_NODE_TYPE_REGULAR, m, u, g, take sz d @ replicate (sz - length d) 0)"
    using q(7) by (auto simp: tmpfs_view_def e'_def)
  moreover have "r" "s' = set_entry i e' s"
    using assms(2) i sz by (auto simp: tmpfs_resize_path_def e'_def Let_def split: if_splits)
  ultimately show ?thesis
    using tmpfs_replace [OF assms(1) q(2) e'(1,2,4,3)] q(1,3) by auto
qed

lemma tmpfs_write_step:
  assumes "tmpfs_ok s" "tmpfs_write_path (Some p) off buf s = (r, s')"
  shows "tmpfs_ok s' \<and> (r = None \<longrightarrow> s' = s) \<and>
    (\<forall>k n. r = Some (k, n) \<longrightarrow> k = min (length buf) (TMPFS_FILE_CAPACITY - off) \<and>
      (\<exists>q m u g d d'. norm_path p = Some q \<and> tmpfs_tree s q = Some (VFS_NODE_TYPE_REGULAR, m, u, g, d) \<and>
         tmpfs_tree s' = (tmpfs_tree s)(q \<mapsto> (VFS_NODE_TYPE_REGULAR, m, u, g, d')) \<and> n = length d' \<and>
         (off \<le> length d \<longrightarrow> d' = overwrite off (take k buf) d)))"
proof (cases "regular_entry (Some p) s")
  case None
  then show ?thesis using assms by (auto simp: tmpfs_write_path_def)
next
  case (Some i)
  let ?e = "g_tmpfs_entries s ! i"
  obtain q m u g d where q: "norm_path p = Some q" "find_entry q s = Some i"
    "tmpfs_tree s q = Some (VFS_NODE_TYPE_REGULAR, m, u, g, d)" "d = take (t_size ?e) (t_data ?e)"
    "length d = t_size ?e" "length d \<le> TMPFS_FILE_CAPACITY" "tmpfs_view ?e = (VFS_NODE_TYPE_REGULAR, m, u, g, d)"
    by (rule regular_entryD [OF assms(1) Some])
  show ?thesis
  proof (cases "off \<ge> TMPFS_FILE_CAPACITY")
    case True
    then have "r = Some (0, t_size ?e)" "s' = s" using assms(2) Some by (auto simp: tmpfs_write_path_def)
    moreover have "off \<le> length d \<Longrightarrow> overwrite off (take 0 buf) d = d" by simp
    ultimately show ?thesis using assms(1) q True by (auto intro!: exI [of _ d])
  next
    case False
    define k where "k = (if off + length buf > TMPFS_FILE_CAPACITY then TMPFS_FILE_CAPACITY - off else length buf)"
    define e1 where "e1 = ?e\<lparr>t_data := overwrite off (take k buf) (t_data ?e)\<rparr>"
    define e' where "e' = (if off + k > t_size e1 then e1\<lparr>t_size := off + k\<rparr> else e1)"
    note f = tmpfs_entry_found [OF assms(1) q(2)]
    have len: "length (t_data ?e) = TMPFS_FILE_CAPACITY" using f(4) by (simp add: entry_ok_def)
    have k: "k = min (length buf) (TMPFS_FILE_CAPACITY - off)" "off + k \<le> TMPFS_FILE_CAPACITY" "length (take k buf) = k"
      using False by (auto simp: k_def)
    have e': "t_in_use e'" "t_path e' = q" "t_type e' = t_type ?e" "entry_ok e'"
      using f k len q(5,6) by (auto simp: e'_def e1_def entry_ok_def length_overwrite)
    have "r = Some (k, t_size e')" "s' = set_entry i e' s"
      using assms(2) Some False by (auto simp: tmpfs_write_path_def Let_def e'_def e1_def k_def)
    moreover have "tmpfs_view e' = (VFS_NODE_TYPE_REGULAR, m, u, g, take (t_size e') (t_data e'))"
      using q(7) by (auto simp: tmpfs_view_def e'_def e1_def)
    moreover have "length (take (t_size e') (t_data e')) = t_size e'" using e'(4) by (simp add: entry_ok_def)
    moreover have "take (t_size e') (t_data e') = overwrite off (take k buf) d" if "off \<le> length d"
    proof -
      have "t_size e' = max (t_size ?e) (off + length (take k buf))" "t_data e' = overwrite off (take k buf) (t_data ?e)"
        unfolding k(3) by (simp_all add: e'_def e1_def)
      moreover have "off \<le> t_size ?e" "t_size ?e \<le> length (t_data ?e)" "off + length (take k buf) \<le> length (t_data ?e)"
        unfolding k(3) using that q(5,6) k(2) len by simp_all
      ultimately show ?thesis unfolding q(4) by (simp only: take_overwrite_extend)
    qed
    ultimately show ?thesis
      using tmpfs_replace [OF assms(1) q(2) e'(1,2,4,3)] q(1,3) k(1) by auto
  qed
qed

lemma tmpfs_unlink_step:
  assumes "tmpfs_ok s" "tmpfs_unlink_path (Some p) s = (r, s')"
  shows "tmpfs_ok s' \<and> (\<not> r \<longrightarrow> s' = s) \<and>
    (r \<longrightarrow> (\<exists>q f. norm_path p = Some q \<and> tmpfs_tree s q = Some f \<and> fst f = VFS_NODE_TYPE_REGULAR \<and>
       tmpfs_tree s' = (tmpfs_tree s)(q := None)))"
proof (cases "regular_entry (Some p) s")
  case None
  then show ?thesis using assms by (auto simp: tmpfs_unlink_path_def)
next
  case (Some i)
  obtain q m u g d where q: "norm_path p = Some q" "find_entry q s = Some i"
    "tmpfs_tree s q = Some (VFS_NODE_TYPE_REGULAR, m, u, g, d)"
    "tmpfs_view (g_tmpfs_entries s ! i) = (VFS_NODE_TYPE_REGULAR, m, u, g, d)"
    by (rule regular_entryD [OF assms(1) Some])
  then have "t_type (g_tmpfs_entries s ! i) \<noteq> VFS_NODE_TYPE_DIRECTORY" by (simp add: tmpfs_view_def)
  then show ?thesis
    using tmpfs_clear [OF assms(1) q(2)] q(1,3) assms(2) Some by (auto simp: tmpfs_unlink_path_def)
qed

lemma tree_entry:
  assumes "tmpfs_tree s x = Some f"
  shows "\<exists>e \<in> set (g_tmpfs_entries s). t_in_use e \<and> t_path e = x"
proof -
  obtain i where "slot_of t_in_use t_path (g_tmpfs_entries s) x = Some i"
    using assms by (auto simp: tmpfs_tree_def slot_map_def)
  then show ?thesis using slot_of_SomeD nth_mem by metis
qed

lemma tmpfs_rmdir_step:
  assumes "tmpfs_ok s" "tmpfs_rmdir_path (Some p) s = (r, s')"
  shows "tmpfs_ok s' \<and> (\<not> r \<longrightarrow> s' = s) \<and>
    (r \<longrightarrow> (\<exists>q f. norm_path p = Some q \<and> tmpfs_tree s q = Some f \<and> fst f = VFS_NODE_TYPE_DIRECTORY \<and>
       (\<forall>x \<in> dom (tmpfs_tree s). \<not> is_descendant q x) \<and> tmpfs_tree s' = (tmpfs_tree s)(q := None)))"
proof (cases r)
  case False
  then show ?thesis using assms by (auto simp: tmpfs_rmdir_path_def split: option.splits if_splits)
next
  case True
  then obtain q i where q: "norm_path p = Some q" "find_entry q s = Some i" "s' = set_entry i tmpfs_entry_zero s"
    "t_type (g_tmpfs_entries s ! i) = VFS_NODE_TYPE_DIRECTORY"
    "\<not> (\<exists>e \<in> set (g_tmpfs_entries s). t_in_use e \<and> is_descendant q (t_path e))"
    using assms by (auto simp: tmpfs_rmdir_path_def split: option.splits if_splits)
  have nd: "\<not> is_descendant q x" if "x \<in> dom (tmpfs_tree s)" for x
    using that q(5) tree_entry by blast
  then have "parent_path_of x TMPFS_PATH_MAX \<noteq> Some q" if "x \<in> dom (tmpfs_tree s)" for x
    using that parent_is_prefix by blast
  then show ?thesis
    using tmpfs_clear [OF assms(1) q(2)] q tmpfs_entry_found(5) [OF assms(1) q(2)] nd True
    by (auto simp: tmpfs_view_def)
qed

lemma tmpfs_attr_replace:
  assumes "tmpfs_ok s" "find_entry q s = Some i"
  shows "tmpfs_ok (set_entry i ((g_tmpfs_entries s ! i)\<lparr>t_mode := m\<rparr>) s) \<and>
      tmpfs_tree (set_entry i ((g_tmpfs_entries s ! i)\<lparr>t_mode := m\<rparr>) s) =
        (tmpfs_tree s)(q \<mapsto> tmpfs_view ((g_tmpfs_entries s ! i)\<lparr>t_mode := m\<rparr>))"
    "tmpfs_ok (set_entry i ((g_tmpfs_entries s ! i)\<lparr>t_uid := u, t_gid := g\<rparr>) s) \<and>
      tmpfs_tree (set_entry i ((g_tmpfs_entries s ! i)\<lparr>t_uid := u, t_gid := g\<rparr>) s) =
        (tmpfs_tree s)(q \<mapsto> tmpfs_view ((g_tmpfs_entries s ! i)\<lparr>t_uid := u, t_gid := g\<rparr>))"
  by (rule tmpfs_replace [OF assms]; use tmpfs_entry_found [OF assms] in \<open>simp add: entry_ok_def\<close>)+

lemma tmpfs_chmod_step:
  assumes "tmpfs_ok s" "tmpfs_chmod_path (Some p) mode s = (r, s')"
  shows "tmpfs_ok s' \<and> (\<not> r \<longrightarrow> s' = s) \<and>
    (r \<longrightarrow> (\<exists>q t m u g d. norm_path p = Some q \<and> tmpfs_tree s q = Some (t, m, u, g, d) \<and>
       tmpfs_tree s' = (tmpfs_tree s)(q \<mapsto> (t, mode AND 0xFFF, u, g, d))))"
proof (cases r)
  case False
  then show ?thesis using assms by (auto simp: tmpfs_chmod_path_def split: option.splits)
next
  case True
  then obtain q i where q: "norm_path p = Some q" "find_entry q s = Some i"
    "s' = set_entry i ((g_tmpfs_entries s ! i)\<lparr>t_mode := mode AND 0xFFF\<rparr>) s"
    using assms(2) by (auto simp: tmpfs_chmod_path_def bind_eq_Some_conv split: option.splits)
  show ?thesis
    using tmpfs_attr_replace(1) [OF assms(1) q(2), of "mode AND 0xFFF"] tmpfs_entry_found(5) [OF assms(1) q(2)] q True
    by (simp add: tmpfs_view_def)
qed

lemma tmpfs_chown_step:
  assumes "tmpfs_ok s" "tmpfs_chown_path (Some p) uid gid s = (r, s')"
  shows "tmpfs_ok s' \<and> (\<not> r \<longrightarrow> s' = s) \<and>
    (r \<longrightarrow> (\<exists>q t m u g d. norm_path p = Some q \<and> tmpfs_tree s q = Some (t, m, u, g, d) \<and>
       tmpfs_tree s' = (tmpfs_tree s)(q \<mapsto> (t, m, uid, gid, d))))"
proof (cases r)
  case False
  then show ?thesis using assms by (auto simp: tmpfs_chown_path_def split: option.splits)
next
  case True
  then obtain q i where q: "norm_path p = Some q" "find_entry q s = Some i"
    "s' = set_entry i ((g_tmpfs_entries s ! i)\<lparr>t_uid := uid, t_gid := gid\<rparr>) s"
    using assms(2) by (auto simp: tmpfs_chown_path_def bind_eq_Some_conv split: option.splits)
  show ?thesis
    using tmpfs_attr_replace(2) [OF assms(1) q(2), of gid uid] tmpfs_entry_found(5) [OF assms(1) q(2)] q True
    by (simp add: tmpfs_view_def)
qed

section \<open>tmpfs as a store of files\<close>

definition tmpfs_files :: "tmpfs_state \<Rightarrow> string \<Rightarrow> bytes option" where
  "tmpfs_files s q = (case tmpfs_tree s q of None \<Rightarrow> None
     | Some (t, m, u, g, d) \<Rightarrow> if t = VFS_NODE_TYPE_REGULAR then Some d else None)"

lemma tmpfs_files_eq: "tmpfs_files s q = Some d \<longleftrightarrow> (\<exists>m u g. tmpfs_tree s q = Some (VFS_NODE_TYPE_REGULAR, m, u, g, d))"
  by (auto simp: tmpfs_files_def split: option.splits)

lemma tmpfs_read_tree:
  assumes "tmpfs_ok s" "norm_path p = Some q"
  shows "tmpfs_read_path (Some p) off n s =
    (case tmpfs_files s q of None \<Rightarrow> None | Some d \<Rightarrow> if off + n \<le> length d then Some (subarr off n d) else None)"
proof (cases "regular_entry (Some p) s")
  case None
  then have "tmpfs_files s q = None"
    using regular_entry_tree [OF assms] tmpfs_entry_found(5) [OF assms(1), of q]
    by (auto simp: tmpfs_files_def tmpfs_tree_def find_entry_slot slot_map_def tmpfs_view_def split: option.splits if_splits)
  with None show ?thesis by (simp add: tmpfs_read_path_def)
next
  case (Some i)
  obtain m u g d where q: "tmpfs_tree s q = Some (VFS_NODE_TYPE_REGULAR, m, u, g, d)"
    "d = take (t_size (g_tmpfs_entries s ! i)) (t_data (g_tmpfs_entries s ! i))" "length d = t_size (g_tmpfs_entries s ! i)"
    using assms(2) regular_entryD [OF assms(1) Some] by (metis option.inject)
  have "off + n \<le> length d \<Longrightarrow> subarr off n (t_data (g_tmpfs_entries s ! i)) = subarr off n d"
    unfolding q(3) unfolding q(2) by (rule subarr_take [symmetric])
  then show ?thesis
    using Some q(1) q(3) [symmetric] by (auto simp: tmpfs_read_path_def tmpfs_files_def Let_def)
qed

interpretation tmpstore: file_store tmpfs_ok norm_path tmpfs_files "\<lambda>p. tmpfs_read_path (Some p)"
  "\<lambda>p off buf s. case tmpfs_write_path (Some p) off buf s of (r, s') \<Rightarrow> (map_option fst r, s')"
  "\<lambda>p. tmpfs_unlink_path (Some p)"
proof
  fix s s' :: tmpfs_state and p q :: string and off n k :: nat and d buf :: bytes
  assume ok: "tmpfs_ok s" and p: "norm_path p = Some q"
  show "tmpfs_files s q = Some d \<Longrightarrow>
      tmpfs_read_path (Some p) off n s = (if off + n \<le> length d then Some (subarr off n d) else None)"
    and "tmpfs_files s q = None \<Longrightarrow> tmpfs_read_path (Some p) off n s = None"
    by (simp_all add: tmpfs_read_tree [OF ok p])
  show "tmpfs_ok s' \<and> k \<le> length buf \<and> tmpfs_files s' = (tmpfs_files s)(q \<mapsto> overwrite off (take k buf) d)"
    if d: "tmpfs_files s q = Some d" "off \<le> length d"
      and w: "(case tmpfs_write_path (Some p) off buf s of (r, s') \<Rightarrow> (map_option fst r, s')) = (Some k, s')"
  proof -
    obtain k' where w': "tmpfs_write_path (Some p) off buf s = (Some (k, k'), s')"
      using w by (auto split: prod.splits)
    have *: "tmpfs_ok s'" "k = min (length buf) (TMPFS_FILE_CAPACITY - off)"
      "\<exists>q m u g d d'. norm_path p = Some q \<and> tmpfs_tree s q = Some (VFS_NODE_TYPE_REGULAR, m, u, g, d) \<and>
         tmpfs_tree s' = (tmpfs_tree s)(q \<mapsto> (VFS_NODE_TYPE_REGULAR, m, u, g, d')) \<and> k' = length d' \<and>
         (off \<le> length d \<longrightarrow> d' = overwrite off (take k buf) d)"
      using tmpfs_write_step [OF ok w'] by blast+
    then obtain m u g where "tmpfs_tree s' = (tmpfs_tree s)(q \<mapsto> (VFS_NODE_TYPE_REGULAR, m, u, g, overwrite off (take k buf) d))"
      using d p by (auto simp: tmpfs_files_eq)
    then show ?thesis using *(1,2) by (auto simp: tmpfs_files_def)
  qed
  show "tmpfs_ok s' \<and> tmpfs_files s' = (tmpfs_files s)(q := None)" if "tmpfs_unlink_path (Some p) s = (True, s')"
    using tmpfs_unlink_step [OF ok that] p by (auto simp: tmpfs_files_def)
qed

section \<open>Properties\<close>

inductive tmpfs_step :: "tmpfs_state \<Rightarrow> tmpfs_state \<Rightarrow> bool" where
  create: "tmpfs_step s (snd (tmpfs_create_path_mode path mode uid gid s))"
| mkdir: "tmpfs_step s (snd (tmpfs_mkdir_path_mode path mode uid gid s))"
| resize: "tmpfs_step s (snd (tmpfs_resize_path path sz s))"
| put: "tmpfs_step s (snd (tmpfs_write_path path off buf s))"
| unlink: "tmpfs_step s (snd (tmpfs_unlink_path path s))"
| rmdir: "tmpfs_step s (snd (tmpfs_rmdir_path path s))"
| chmod: "tmpfs_step s (snd (tmpfs_chmod_path path mode s))"
| chown: "tmpfs_step s (snd (tmpfs_chown_path path uid gid s))"

lemma tmpfs_null_path:
  "tmpfs_create_path_mode None mode uid gid s = (None, s)" "tmpfs_mkdir_path_mode None mode uid gid s = (False, s)"
  "tmpfs_resize_path None sz s = (False, s)" "tmpfs_write_path None off buf s = (None, s)"
  "tmpfs_unlink_path None s = (False, s)" "tmpfs_rmdir_path None s = (False, s)"
  "tmpfs_chmod_path None mode s = (False, s)" "tmpfs_chown_path None uid gid s = (False, s)"
  by (simp_all add: tmpfs_create_path_mode_def tmpfs_mkdir_path_mode_def tmpfs_resize_path_def tmpfs_write_path_def
      tmpfs_unlink_path_def tmpfs_rmdir_path_def tmpfs_chmod_path_def tmpfs_chown_path_def normalize_tmpfs_path_def
      regular_entry_def)

lemma tmpfs_bad_path:
  "norm_path p = None \<Longrightarrow> tmpfs_create_path_mode (Some p) mode uid gid s = (None, s)"
  "norm_path p = None \<Longrightarrow> tmpfs_mkdir_path_mode (Some p) mode uid gid s = (False, s)"
  by (simp_all add: tmpfs_create_path_mode_def tmpfs_mkdir_path_mode_def)

lemma tmpfs_step_ok:
  assumes "tmpfs_step s s'" "tmpfs_ok s"
  shows "tmpfs_ok s'"
  using assms
proof cases
  case (create path mode uid gid)
  then show ?thesis using assms(2) tmpfs_create_step [OF assms(2)] tmpfs_bad_path
    by (cases path; cases "norm_path (the path)") (auto simp: tmpfs_null_path prod_eq_iff)
next
  case (mkdir path mode uid gid)
  then show ?thesis using assms(2) tmpfs_mkdir_step [OF assms(2)] tmpfs_bad_path
    by (cases path; cases "norm_path (the path)") (auto simp: tmpfs_null_path prod_eq_iff)
next
  case (resize path sz)
  then show ?thesis using assms(2) tmpfs_resize_step [OF assms(2)]
    by (cases path) (auto simp: tmpfs_null_path prod_eq_iff)
next
  case (put path off buf)
  then show ?thesis using assms(2) tmpfs_write_step [OF assms(2)]
    by (cases path) (auto simp: tmpfs_null_path prod_eq_iff)
next
  case (unlink path)
  then show ?thesis using assms(2) tmpfs_unlink_step [OF assms(2)]
    by (cases path) (auto simp: tmpfs_null_path prod_eq_iff)
next
  case (rmdir path)
  then show ?thesis using assms(2) tmpfs_rmdir_step [OF assms(2)]
    by (cases path) (auto simp: tmpfs_null_path prod_eq_iff)
next
  case (chmod path mode)
  then show ?thesis using assms(2) tmpfs_chmod_step [OF assms(2)]
    by (cases path) (auto simp: tmpfs_null_path prod_eq_iff)
next
  case (chown path uid gid)
  then show ?thesis using assms(2) tmpfs_chown_step [OF assms(2)]
    by (cases path) (auto simp: tmpfs_null_path prod_eq_iff)
qed

text \<open>A \<open>/tmp\<close> with a directory and a file in it.\<close>

definition sample_tmp0 :: tmpfs_state where
  "sample_tmp0 = tmpfs_init \<lparr>g_tmpfs_entries = [], g_tmpfs_next_inode = 0\<rparr>"

definition sample_tmp :: tmpfs_state where
  "sample_tmp = snd (tmpfs_write_path (Some ''/tmp/d/f'') 0 [1, 2, 3]
     (snd (tmpfs_create_path_mode (Some ''/tmp/d/f'') 0x1B4 7 7
       (snd (tmpfs_mkdir_path_mode (Some ''/tmp/d/'') 0x1ED 7 7 sample_tmp0)))))"

lemma sample_paths:
  "norm_path ''/tmp/d/'' = Some ''tmp/d''" "norm_path ''/tmp/d/f'' = Some ''tmp/d/f''" "norm_path ''tmp/g'' = Some ''tmp/g''"
  "parent_path_of ''tmp/d'' TMPFS_PATH_MAX = Some ''tmp''" "parent_path_of ''tmp/d/f'' TMPFS_PATH_MAX = Some ''tmp/d''"
  "parent_path_of ''tmp/g'' TMPFS_PATH_MAX = Some ''tmp''"
  by (simp_all add: normalize_tmpfs_path_def trim_slashes.simps TMPFS_PATH_MAX_def parent_path_of_def Let_def)

definition sample_dir :: tmpfs_entry where
  "sample_dir = tmpfs_entry_zero\<lparr>t_in_use := True, t_type := VFS_NODE_TYPE_DIRECTORY, t_mode := 0x1ED, t_uid := 7,
     t_gid := 7, t_inode := TMPFS_ROOT_INO + 1, t_path := ''tmp/d''\<rparr>"

definition sample_file :: tmpfs_entry where
  "sample_file = tmpfs_entry_zero\<lparr>t_in_use := True, t_type := VFS_NODE_TYPE_REGULAR, t_mode := 0x1B4, t_uid := 7,
     t_gid := 7, t_inode := TMPFS_ROOT_INO + 2, t_path := ''tmp/d/f''\<rparr>"

lemma sample_slots: "replicate 64 z = z # z # replicate 62 z"
  by (simp flip: replicate_Suc)

lemma sample_tmp1:
  "tmpfs_mkdir_path_mode (Some ''/tmp/d/'') 0x1ED 7 7 sample_tmp0 =
   (True, \<lparr>g_tmpfs_entries = sample_dir # tmpfs_entry_zero # replicate 62 tmpfs_entry_zero,
      g_tmpfs_next_inode = TMPFS_ROOT_INO + 2\<rparr>)"
  by (simp add: tmpfs_mkdir_path_mode_def sample_paths find_entry_def parent_directory_exists_def allocate_entry_def
      sample_tmp0_def tmpfs_init_def TMPFS_MAX_ENTRIES_def sample_slots find_slot_replicate path_equals_eq sample_dir_def
      tmpfs_entry_zero_def TMPFS_PATH_MAX_def TMPFS_ROOT_INO_def sample_paths [unfolded TMPFS_PATH_MAX_def])

lemma sample_tmp2:
  "snd (tmpfs_create_path_mode (Some ''/tmp/d/f'') 0x1B4 7 7
     \<lparr>g_tmpfs_entries = sample_dir # tmpfs_entry_zero # replicate 62 tmpfs_entry_zero,
      g_tmpfs_next_inode = TMPFS_ROOT_INO + 2\<rparr>) =
   \<lparr>g_tmpfs_entries = sample_dir # sample_file # replicate 62 tmpfs_entry_zero,
      g_tmpfs_next_inode = TMPFS_ROOT_INO + 3\<rparr>"
  by (simp add: tmpfs_create_path_mode_def sample_paths find_entry_def parent_directory_exists_def allocate_entry_def
      find_slot_replicate path_equals_eq sample_dir_def sample_file_def
      tmpfs_entry_zero_def TMPFS_PATH_MAX_def TMPFS_ROOT_INO_def sample_paths [unfolded TMPFS_PATH_MAX_def])

lemma sample_tmp3:
  "tmpfs_write_path (Some ''/tmp/d/f'') 0 [1, 2, 3]
     \<lparr>g_tmpfs_entries = sample_dir # sample_file # replicate 62 tmpfs_entry_zero,
      g_tmpfs_next_inode = TMPFS_ROOT_INO + 3\<rparr> =
   (Some (3, 3), \<lparr>g_tmpfs_entries = sample_dir # sample_file\<lparr>t_size := 3, t_data := [1, 2, 3] @ replicate 4093 0\<rparr> #
        replicate 62 tmpfs_entry_zero, g_tmpfs_next_inode = TMPFS_ROOT_INO + 3\<rparr>)"
  by (simp add: tmpfs_write_path_def regular_entry_def sample_paths find_entry_def find_slot_replicate path_equals_eq
      sample_dir_def sample_file_def tmpfs_entry_zero_def TMPFS_FILE_CAPACITY_def set_entry_def overwrite_def
      sample_paths [unfolded TMPFS_PATH_MAX_def] Let_def)

lemma sample_tmp_tree:
  "tmpfs_tree sample_tmp = [''tmp/d'' \<mapsto> (VFS_NODE_TYPE_DIRECTORY, 0x1ED, 7, 7, []),
     ''tmp/d/f'' \<mapsto> (VFS_NODE_TYPE_REGULAR, 0x1B4, 7, 7, [1, 2, 3])]"
  unfolding sample_tmp_def sample_tmp1 snd_conv sample_tmp2 sample_tmp3
  by (simp add: tmpfs_tree_def slot_map_def slot_of_def fun_eq_iff find_slot_replicate sample_dir_def sample_file_def
      tmpfs_entry_zero_def tmpfs_view_def)

lemma sample_tmp_reachable: "tmpfs_step\<^sup>*\<^sup>* sample_tmp0 sample_tmp"
  unfolding sample_tmp_def
  by (rule rtranclp.rtrancl_into_rtrancl [OF rtranclp.rtrancl_into_rtrancl [OF r_into_rtranclp]])
    (rule tmpfs_step.mkdir, rule tmpfs_step.create, rule tmpfs_step.put)



lemma sample_tmp_ok: "tmpfs_ok sample_tmp"
  using sample_tmp_reachable unfolding sample_tmp0_def
  by (induction rule: rtranclp_induct) (auto intro: tmpfs_ok_init tmpfs_step_ok)

text \<open>The abstract file system: what each successful operation does to the tree.\<close>

datatype tmpfs_op = Op_create u16 u32 u32 | Op_mkdir u16 u32 u32 | Op_resize nat | Op_write nat bytes
  | Op_unlink | Op_rmdir | Op_chmod u16 | Op_chown u32 u32

fun tmpfs_run :: "tmpfs_op \<Rightarrow> string \<Rightarrow> tmpfs_state \<Rightarrow> bool \<times> tmpfs_state" where
  "tmpfs_run (Op_create m u g) p s = (let (r, s') = tmpfs_create_path_mode (Some p) m u g s in (r \<noteq> None, s'))"
| "tmpfs_run (Op_mkdir m u g) p s = tmpfs_mkdir_path_mode (Some p) m u g s"
| "tmpfs_run (Op_resize n) p s = tmpfs_resize_path (Some p) n s"
| "tmpfs_run (Op_write off b) p s = (let (r, s') = tmpfs_write_path (Some p) off b s in (r \<noteq> None, s'))"
| "tmpfs_run Op_unlink p s = tmpfs_unlink_path (Some p) s"
| "tmpfs_run Op_rmdir p s = tmpfs_rmdir_path (Some p) s"
| "tmpfs_run (Op_chmod m) p s = tmpfs_chmod_path (Some p) m s"
| "tmpfs_run (Op_chown u g) p s = tmpfs_chown_path (Some p) u g s"

fun tree_spec :: "tmpfs_op \<Rightarrow> tmpfs_file option \<Rightarrow> tmpfs_file option" where
  "tree_spec (Op_create m u g) None = Some (VFS_NODE_TYPE_REGULAR, m AND 0xFFF, u, g, [])"
| "tree_spec (Op_create m u g) (Some f) = Some f"
| "tree_spec (Op_mkdir m u g) f = Some (VFS_NODE_TYPE_DIRECTORY, m AND 0xFFF, u, g, [])"
| "tree_spec (Op_resize n) (Some (t, m, u, g, d)) = Some (t, m, u, g, take n d @ replicate (n - length d) 0)"
| "tree_spec (Op_write off b) (Some (t, m, u, g, d)) =
     Some (t, m, u, g, overwrite off (take (TMPFS_FILE_CAPACITY - off) b) d)"
| "tree_spec (Op_chmod m') (Some (t, m, u, g, d)) = Some (t, m' AND 0xFFF, u, g, d)"
| "tree_spec (Op_chown u' g') (Some (t, m, u, g, d)) = Some (t, m, u', g', d)"
| "tree_spec _ _ = None"

lemma take_min_length: "take (min (length b) n) b = take n b"
  by (simp add: min_def)






section \<open>Directory listings\<close>

text \<open>The children of a directory in table order.\<close>

definition child_entry :: "string \<Rightarrow> tmpfs_entry \<Rightarrow> (string \<times> nat \<times> u8) option" where
  "child_entry dir e = (if t_in_use e then map_option (\<lambda>n. (n, t_size e,
     if t_type e = VFS_NODE_TYPE_DIRECTORY then LINUX_DTYPE_DIR else LINUX_DTYPE_REG)) (direct_child_name dir (t_path e)) else None)"

definition children :: "string \<Rightarrow> tmpfs_entry list \<Rightarrow> (string \<times> nat \<times> u8) list" where
  "children dir es = List.map_filter (child_entry dir) es"

lemma children_Cons:
  "children dir (e # es) = (case child_entry dir e of None \<Rightarrow> children dir es | Some c \<Rightarrow> c # children dir es)"
  by (simp add: children_def List.map_filter_simps split: option.split)

lemma dirent_loop_children:
  assumes "\<forall>(n, _) \<in> set (children dir es). length n < cap" "cur \<le> idx"
  shows "dirent_loop dir idx cur cap es =
    (if idx - cur < length (children dir es) then Some (children dir es ! (idx - cur)) else None)"
  using assms
proof (induction es arbitrary: cur)
  case (Cons e es)
  show ?case
  proof (cases "child_entry dir e")
    case None
    then show ?thesis using Cons by (auto simp: children_Cons child_entry_def split: if_splits)
  next
    case (Some c)
    have cap: "length (fst c) < cap" and rest: "\<forall>(n, _) \<in> set (children dir es). length n < cap"
      using Cons.prems(1) Some by (auto simp: children_Cons)
    show ?thesis
    proof (cases "cur = idx")
      case True
      then show ?thesis using Some cap by (auto simp: children_Cons child_entry_def split: if_splits)
    next
      case False
      then have "idx - cur = Suc (idx - Suc cur)" "Suc cur \<le> idx" using Cons.prems(2) by auto
      then show ?thesis using Some False Cons.IH [OF rest, of "Suc cur"]
        by (auto simp: children_Cons child_entry_def split: if_splits)
    qed
  qed
qed (simp add: children_def List.map_filter_simps)

lemma direct_child_name_iff:
  "direct_child_name dir path = Some n \<longleftrightarrow> path = dir @ CHR ''/'' # n \<and> n \<noteq> [] \<and> CHR ''/'' \<notin> set n"
proof
  assume a: "direct_child_name dir path = Some n"
  define c where "c = drop (length dir + 1) path"
  have d: "is_descendant dir path" "n = takeWhile (\<lambda>c. c \<noteq> CHR ''/'') c" "n \<noteq> []" "length n = length c"
    using a by (auto simp: direct_child_name_def Let_def c_def split: if_splits)
  have "n = c" using d(2,4) by (metis takeWhile_eq_take take_all order_refl)
  moreover have "path = take (length dir) path @ path ! length dir # drop (length dir + 1) path"
    using d(1) id_take_nth_drop [of "length dir" path] by (simp add: is_descendant_def)
  ultimately have "path = dir @ CHR ''/'' # n" using d(1) by (simp add: is_descendant_def c_def)
  moreover have "CHR ''/'' \<notin> set n" using d(2) by (metis set_takeWhileD)
  ultimately show "path = dir @ CHR ''/'' # n \<and> n \<noteq> [] \<and> CHR ''/'' \<notin> set n" using d(3) by blast
next
  assume a: "path = dir @ CHR ''/'' # n \<and> n \<noteq> [] \<and> CHR ''/'' \<notin> set n"
  then have tw: "takeWhile (\<lambda>c. c \<noteq> CHR ''/'') n = n" by (auto simp: takeWhile_eq_all_conv)
  show "direct_child_name dir path = Some n"
    using a by (simp add: direct_child_name_def is_descendant_def Let_def tw)
qed

lemma set_children:
  assumes "tmpfs_ok s"
  shows "fst ` set (children dir (g_tmpfs_entries s)) =
    {n. n \<noteq> [] \<and> CHR ''/'' \<notin> set n \<and> dir @ CHR ''/'' # n \<in> dom (tmpfs_tree s)}"
proof -
  have dom: "x \<in> dom (tmpfs_tree s) \<longleftrightarrow> (\<exists>e \<in> set (g_tmpfs_entries s). t_in_use e \<and> t_path e = x)" for x
  proof
    assume "x \<in> dom (tmpfs_tree s)"
    then show "\<exists>e \<in> set (g_tmpfs_entries s). t_in_use e \<and> t_path e = x" using tree_entry by blast
  next
    assume "\<exists>e \<in> set (g_tmpfs_entries s). t_in_use e \<and> t_path e = x"
    then have "slot_of t_in_use t_path (g_tmpfs_entries s) x \<noteq> None"
      unfolding slot_of_None by (auto simp: in_set_conv_nth)
    then show "x \<in> dom (tmpfs_tree s)" by (auto simp: tmpfs_tree_def slot_map_def)
  qed
  have "n \<in> fst ` set (children dir es) \<longleftrightarrow> (\<exists>e \<in> set es. t_in_use e \<and> direct_child_name dir (t_path e) = Some n)" for n es
  proof (induction es)
    case (Cons e es)
    then show ?case by (cases "direct_child_name dir (t_path e)") (auto simp: children_Cons child_entry_def)
  qed (simp add: children_def List.map_filter_simps)
  then show ?thesis
    unfolding direct_child_name_iff using dom by (auto simp: set_eq_iff)
qed

text \<open>
  C23. A directory listing is complete. After the entries \<open>.\<close> and \<open>..\<close>, reading entries 2, 3, ... of
  a directory until the first failure lists exactly the names of the files and directories
  directly in it: there is a list of entries that is what the reads return, index by index, and
  whose names are the children of the directory in the tree.\<close>

theorem tmpfs_listing_complete:
  assumes "tmpfs_ok s" and "norm_path p = Some dir"
    and "dir = ''tmp'' \<or> (\<exists>m u g d. tmpfs_tree s dir = Some (VFS_NODE_TYPE_DIRECTORY, m, u, g, d))"
  shows "\<exists>cs. (\<forall>k. tmpfs_dirent_at_index (Some p) (k + 2) 256 s = (if k < length cs then Some (cs ! k) else None)) \<and>
    fst ` set cs = {n. n \<noteq> [] \<and> CHR ''/'' \<notin> set n \<and> dir @ CHR ''/'' # n \<in> dom (tmpfs_tree s)} \<and>
    map fst (map (\<lambda>i. the (tmpfs_dirent_at_index (Some p) i 256 s)) [0, 1]) = [''.'', ''..'']"
proof -
  define cs where "cs = children dir (g_tmpfs_entries s)"
  have dirok: "\<not> (\<not> path_equals dir ''tmp'' \<and> (case find_entry dir s of None \<Rightarrow> True
      | Some i \<Rightarrow> t_type (g_tmpfs_entries s ! i) \<noteq> VFS_NODE_TYPE_DIRECTORY))"
    using assms(3) tmpfs_entry_found(5) [OF assms(1), of dir]
    by (cases "find_entry dir s")
      (auto simp: path_equals_eq tmpfs_tree_def find_entry_slot slot_map_def tmpfs_view_def)
  have short: "\<forall>(n, _) \<in> set cs. length n < 256"
  proof
    fix c assume c: "c \<in> set cs"
    then have "dir @ CHR ''/'' # fst c \<in> dom (tmpfs_tree s)" using set_children [OF assms(1), of dir] by (auto simp: cs_def)
    then obtain e where e: "e \<in> set (g_tmpfs_entries s)" "t_in_use e" "t_path e = dir @ CHR ''/'' # fst c"
      using tree_entry by blast
    then have "norm_path (t_path e) = Some (t_path e)" using assms(1) by (auto simp: tmpfs_ok_def entry_ok_def)
    then show "case c of (n, _) \<Rightarrow> length n < 256"
      using normalize_length [of "t_path e" "t_path e"] e(3) by (auto simp: TMPFS_PATH_MAX_def split: prod.splits)
  qed
  have at: "tmpfs_dirent_at_index (Some p) (k + 2) 256 s = (if k < length cs then Some (cs ! k) else None)" for k
    using dirent_loop_children [of dir "g_tmpfs_entries s" 256 0 k] short dirok
    by (auto simp: tmpfs_dirent_at_index_def assms(2) cs_def)
  have dots: "map fst (map (\<lambda>i. the (tmpfs_dirent_at_index (Some p) i 256 s)) [0, 1]) = [''.'', ''..'']"
    using dirok by (auto simp: tmpfs_dirent_at_index_def assms(2))
  show ?thesis
    by (intro exI [of _ cs] conjI allI at dots) (simp add: cs_def set_children [OF assms(1)])
qed

theorem tmpfs_listing_complete_witness:
  "\<exists>cs. fst ` set cs = {''f''} \<and>
     (\<forall>k. tmpfs_dirent_at_index (Some ''/tmp/d/'') (k + 2) 256 sample_tmp = (if k < length cs then Some (cs ! k) else None))"
proof -
  obtain cs where cs: "\<forall>k. tmpfs_dirent_at_index (Some ''/tmp/d/'') (k + 2) 256 sample_tmp = (if k < length cs then Some (cs ! k) else None)"
    "fst ` set cs = {n. n \<noteq> [] \<and> CHR ''/'' \<notin> set n \<and> ''tmp/d'' @ CHR ''/'' # n \<in> dom (tmpfs_tree sample_tmp)}"
    using tmpfs_listing_complete [OF sample_tmp_ok sample_paths(1)] by (auto simp: sample_tmp_tree)
  have "{n. n \<noteq> [] \<and> CHR ''/'' \<notin> set n \<and> ''tmp/d'' @ CHR ''/'' # n \<in> dom (tmpfs_tree sample_tmp)} = {''f''}"
    by (auto simp: sample_tmp_tree split: if_splits)
  with cs show ?thesis by (intro exI [of _ cs]) simp
qed

end
