(* ===== verification/Initrd.thy ===== *)
theory Initrd
  imports Prelude
begin

text \<open>
  The initial RAM disk, \<open>kernel/initrd.c\<close>: a cpio archive in the \<open>newc\<close> format at a range of
  physical memory that the boot loader fills, searched by name and listed by index.

  Memory is a function from addresses to bytes and addresses are natural numbers: the bounds of
  the archive are 32-bit values and every step adds at most two 32-bit sizes, so the 64-bit
  additions of the code never wrap. The messages on the serial line are not part of the model.

  The reference is a writer of such archives. An archive written by it and placed at an aligned
  address is read back: a file is found under its name with its contents, and the entries are
  listed in their order.
\<close>

type_synonym phys_memory = "nat \<Rightarrow> u8"

record initrd_state =
  g_initrd_start :: nat
  g_initrd_end :: nat

definition CPIO_HEADER_BYTES :: nat where "CPIO_HEADER_BYTES = 110"
definition CPIO_FILESIZE_OFFSET :: nat where "CPIO_FILESIZE_OFFSET = 54"
definition CPIO_NAMESIZE_OFFSET :: nat where "CPIO_NAMESIZE_OFFSET = 94"

definition hex_digit :: "u8 \<Rightarrow> u32" where
  "hex_digit c =
     (if of_char (CHR ''0'') \<le> c \<and> c \<le> of_char (CHR ''9'') then ucast c - of_char (CHR ''0'')
      else if of_char (CHR ''a'') \<le> c \<and> c \<le> of_char (CHR ''f'') then ucast c - of_char (CHR ''a'') + 10
      else if of_char (CHR ''A'') \<le> c \<and> c \<le> of_char (CHR ''F'') then ucast c - of_char (CHR ''A'') + 10
      else 0)"

fun parse_hex_loop :: "bytes \<Rightarrow> u32 \<Rightarrow> u32" where
  "parse_hex_loop [] res = res"
| "parse_hex_loop (c # cs) res = parse_hex_loop cs (push_bit 4 res + hex_digit c)"

definition parse_hex :: "phys_memory \<Rightarrow> nat \<Rightarrow> nat \<Rightarrow> u32" where
  "parse_hex mem a n = parse_hex_loop (map mem [a..<a + n]) 0"

fun strcmp :: "phys_memory \<Rightarrow> nat \<Rightarrow> string \<Rightarrow> int" where
  "strcmp mem a [] = uint (mem a)"
| "strcmp mem a (c # cs) =
     (if mem a \<noteq> 0 \<and> mem a = of_char c then strcmp mem (a + 1) cs
      else uint (mem a) - uint (of_char c :: u8))"

fun copy_name :: "phys_memory \<Rightarrow> nat \<Rightarrow> nat \<Rightarrow> string" where
  "copy_name mem 0 a = []"
| "copy_name mem (Suc k) a =
     (if mem a \<noteq> 0 \<and> 0 < k then char_of (unat (mem a)) # copy_name mem k (a + 1) else [])"

definition align4 :: "nat \<Rightarrow> nat" where
  "align4 x = (x + 3) div 4 * 4"

definition cpio_namesize :: "phys_memory \<Rightarrow> nat \<Rightarrow> nat" where
  "cpio_namesize mem h = unat (parse_hex mem (h + CPIO_NAMESIZE_OFFSET) 8)"

definition cpio_filesize :: "phys_memory \<Rightarrow> nat \<Rightarrow> u32" where
  "cpio_filesize mem h = parse_hex mem (h + CPIO_FILESIZE_OFFSET) 8"

definition cpio_name :: "nat \<Rightarrow> nat" where
  "cpio_name h = h + CPIO_HEADER_BYTES"

definition cpio_data :: "phys_memory \<Rightarrow> nat \<Rightarrow> nat" where
  "cpio_data mem h = align4 (h + CPIO_HEADER_BYTES + cpio_namesize mem h)"

definition cpio_next :: "phys_memory \<Rightarrow> nat \<Rightarrow> nat" where
  "cpio_next mem h = align4 (cpio_data mem h + unat (cpio_filesize mem h))"

definition cpio_magic_ok :: "phys_memory \<Rightarrow> nat \<Rightarrow> bool" where
  "cpio_magic_ok mem h \<longleftrightarrow> mem h = of_char (CHR ''0'') \<and> mem (h + 1) = of_char (CHR ''7'')"

lemma align4_le: "x \<le> align4 x"
  unfolding align4_def by presburger

lemma cpio_next_gt: "h < cpio_next mem h"
  using align4_le [of "h + CPIO_HEADER_BYTES + cpio_namesize mem h"]
    align4_le [of "cpio_data mem h + unat (cpio_filesize mem h)"]
  by (simp add: cpio_next_def cpio_data_def CPIO_HEADER_BYTES_def)

definition initrd_valid :: "initrd_state \<Rightarrow> bool" where
  "initrd_valid s \<longleftrightarrow> g_initrd_start s \<noteq> 0 \<and> g_initrd_end s \<noteq> 0 \<and> g_initrd_start s < g_initrd_end s"

function get_file_loop :: "phys_memory \<Rightarrow> nat \<Rightarrow> string \<Rightarrow> nat \<Rightarrow> (nat \<times> u32) option" where
  "get_file_loop mem end_addr filename h =
     (if h < end_addr \<and> cpio_magic_ok mem h
      then if strcmp mem (cpio_name h) ''TRAILER!!!'' = 0 then None
           else if strcmp mem (cpio_name h) filename = 0 then Some (cpio_data mem h, cpio_filesize mem h)
           else get_file_loop mem end_addr filename (cpio_next mem h)
      else None)"
  by pat_completeness auto
termination
  by (relation "measure (\<lambda>(mem, e, f, h). e - h)") (auto intro: diff_less_mono2 cpio_next_gt)

definition initrd_get_file :: "phys_memory \<Rightarrow> string option \<Rightarrow> initrd_state \<Rightarrow> (nat \<times> u32) option" where
  "initrd_get_file mem filename s =
     (case filename of None \<Rightarrow> None
      | Some f \<Rightarrow> if \<not> initrd_valid s then None
                  else get_file_loop mem (g_initrd_end s) f (g_initrd_start s))"

function get_entry_loop :: "phys_memory \<Rightarrow> nat \<Rightarrow> nat \<Rightarrow> nat \<Rightarrow> nat \<Rightarrow> nat \<Rightarrow> (string \<times> u32) option" where
  "get_entry_loop mem end_addr index name_buf_size current h =
     (if h < end_addr \<and> cpio_magic_ok mem h
      then if strcmp mem (cpio_name h) ''TRAILER!!!'' = 0 then None
           else if current = index then Some (copy_name mem name_buf_size (cpio_name h), cpio_filesize mem h)
           else get_entry_loop mem end_addr index name_buf_size (current + 1) (cpio_next mem h)
      else None)"
  by pat_completeness auto
termination
  by (relation "measure (\<lambda>(mem, e, i, n, c, h). e - h)") (auto intro: diff_less_mono2 cpio_next_gt)

definition initrd_get_entry :: "phys_memory \<Rightarrow> nat \<Rightarrow> nat \<Rightarrow> initrd_state \<Rightarrow> (string \<times> u32) option" where
  "initrd_get_entry mem index name_buf_size s =
     (if name_buf_size = 0 then None
      else if \<not> initrd_valid s then None
      else get_entry_loop mem (g_initrd_end s) index name_buf_size 0 (g_initrd_start s))"

definition init_initrd :: "phys_memory \<Rightarrow> u32 \<Rightarrow> u32 \<Rightarrow> initrd_state \<Rightarrow> bool \<times> initrd_state" where
  "init_initrd mem mod_start mod_end s =
     (if mod_end \<le> mod_start then (False, s)
      else let s' = s\<lparr>g_initrd_start := unat mod_start, g_initrd_end := unat mod_end\<rparr>
           in (cpio_magic_ok mem (unat mod_start), s'))"

declare get_file_loop.simps [simp del] get_entry_loop.simps [simp del] strcmp.simps [simp del]
  copy_name.simps [simp del]

text \<open>An archive has fewer members than bytes, so a scan over the index ends.\<close>

lemma get_entry_loop_bound:
  "get_entry_loop mem e i n cur h = Some r \<Longrightarrow> cur \<le> i \<Longrightarrow> i < cur + (e - h)"
proof (induction mem e i n cur h rule: get_entry_loop.induct)
  case (1 mem e i n cur h)
  have step: "h < e" "cur = i \<or> get_entry_loop mem e i n (cur + 1) (cpio_next mem h) = Some r"
    using "1.prems"(1) by (auto simp: get_entry_loop.simps [of mem e i n cur h] split: if_splits)
  show ?case
  proof (cases "cur = i")
    case True
    with step(1) show ?thesis by simp
  next
    case False
    have cond: "h < e \<and> cpio_magic_ok mem h" "strcmp mem (cpio_name h) ''TRAILER!!!'' \<noteq> 0"
      using "1.prems"(1) by (auto simp: get_entry_loop.simps [of mem e i n cur h] split: if_splits)
    from False step(2) have "get_entry_loop mem e i n (cur + 1) (cpio_next mem h) = Some r" by simp
    from "1.IH" [OF cond False this] False "1.prems"(2) have "i < cur + 1 + (e - cpio_next mem h)" by simp
    then show ?thesis using cpio_next_gt [of h mem] step(1) by linarith
  qed
qed

lemma initrd_get_entry_bound:
  "initrd_get_entry mem i n s = Some r \<Longrightarrow> i < g_initrd_end s - g_initrd_start s"
  using get_entry_loop_bound [of mem "g_initrd_end s" i n 0 "g_initrd_start s" r]
  by (auto simp: initrd_get_entry_def split: if_splits)

section \<open>The reference: an archive writer\<close>

definition hex_char :: "nat \<Rightarrow> char" where
  "hex_char d = ''0123456789ABCDEF'' ! (d mod 16)"

fun hex_field :: "nat \<Rightarrow> nat \<Rightarrow> string" where
  "hex_field 0 k = []"
| "hex_field (Suc n) k = hex_field n (k div 16) @ [hex_char k]"

definition pad4 :: "bytes \<Rightarrow> bytes" where
  "pad4 bs = bs @ replicate (align4 (length bs) - length bs) 0"

text \<open>One member: the header with its thirteen numbers, the name with its NUL, the data; name and
  data are padded to a multiple of four.\<close>

definition cpio_header :: "string \<Rightarrow> nat \<Rightarrow> string" where
  "cpio_header name filesize = ''070701'' @ concat (replicate 6 (hex_field 8 0)) @ hex_field 8 filesize @
     concat (replicate 4 (hex_field 8 0)) @ hex_field 8 (length name + 1) @ hex_field 8 0"

definition cpio_member :: "string \<times> bytes \<Rightarrow> bytes" where
  "cpio_member = (\<lambda>(name, content).
     pad4 (pad4 (map of_char (cpio_header name (length content) @ name) @ [0]) @ content))"

definition cpio_archive :: "(string \<times> bytes) list \<Rightarrow> bytes" where
  "cpio_archive files = concat (map cpio_member (files @ [(''TRAILER!!!'', [])]))"

definition member_ok :: "string \<times> bytes \<Rightarrow> bool" where
  "member_ok = (\<lambda>(name, content). CHR 0x00 \<notin> set name \<and> name \<noteq> ''TRAILER!!!'' \<and>
     length name < 2 ^ 31 \<and> length content < 2 ^ 32)"

definition in_memory :: "phys_memory \<Rightarrow> nat \<Rightarrow> bytes \<Rightarrow> bool" where
  "in_memory mem a bs \<longleftrightarrow> map mem [a..<a + length bs] = bs"

section \<open>Reading memory\<close>

lemma in_memory_Nil [simp]: "in_memory mem a []"
  by (simp add: in_memory_def)

lemma in_memory_append: "in_memory mem a (xs @ ys) \<longleftrightarrow> in_memory mem a xs \<and> in_memory mem (a + length xs) ys"
  by (simp add: in_memory_def upt_add_eq_append [of a "a + length xs"] add.assoc [symmetric])

lemma in_memory_Cons: "in_memory mem a (x # xs) \<longleftrightarrow> mem a = x \<and> in_memory mem (a + 1) xs"
  by (simp add: in_memory_def upt_conv_Cons del: upt_Suc)

lemma in_memory_bytes: "in_memory mem a bs \<Longrightarrow> length bs = n \<Longrightarrow> map mem [a..<a + n] = bs"
  by (simp add: in_memory_def)

lemma of_char_inj_u8: "(of_char c :: u8) = of_char d \<longleftrightarrow> c = d"
  using of_char_eq_iff [of c d] by (metis of_char_u8)

lemma uint_of_char_u8: "uint (of_char c :: u8) = uint (of_char d :: u8) \<longleftrightarrow> c = d" "uint (of_char c :: u8) = 0 \<longleftrightarrow> c = CHR 0x00"
  using of_char_inj_u8 [of c d] of_char_u8_0 [of c] by (metis word_uint_eq_iff, metis uint_0_iff)

lemma strcmp_iff:
  assumes "in_memory mem a (map of_char name @ [0])" "CHR 0x00 \<notin> set name" "CHR 0x00 \<notin> set f"
  shows "strcmp mem a f = 0 \<longleftrightarrow> f = name"
  using assms
proof (induction name arbitrary: a f)
  case Nil
  then show ?case by (cases f) (auto simp: in_memory_Cons uint_of_char_u8 strcmp.simps)
next
  case (Cons c name)
  then show ?case
    by (cases f) (auto simp: in_memory_Cons of_char_u8_0 of_char_inj_u8 uint_of_char_u8 strcmp.simps)
qed

lemma copy_name_string:
  assumes "in_memory mem a (map of_char name @ [0])" "CHR 0x00 \<notin> set name"
  shows "copy_name mem n a = copy_string n name"
  using assms
proof (induction n arbitrary: a name)
  case 0
  then show ?case by (cases name) (simp_all add: copy_name.simps)
next
  case (Suc n)
  then show ?case by (cases name) (auto simp: in_memory_Cons of_char_u8_0 of_char_u8 copy_name.simps)
qed



section \<open>Hexadecimal fields\<close>

lemma length_hex_field [simp]: "length (hex_field n k) = n"
  by (induction n arbitrary: k) simp_all

lemma hex_digit_table: "map (\<lambda>d. hex_digit (of_char (''0123456789ABCDEF'' ! d))) [0..<16] = map of_nat [0..<16]"
  by code_simp

lemma hex_digit_char: "hex_digit (of_char (hex_char k)) = of_nat (k mod 16)"
proof -
  have "map (\<lambda>d. hex_digit (of_char (''0123456789ABCDEF'' ! d))) [0..<16] ! (k mod 16) = (map of_nat [0..<16] :: u32 list) ! (k mod 16)"
    by (simp only: hex_digit_table)
  then show ?thesis unfolding hex_char_def by (simp only: nth_map_upt mod_less_divisor diff_zero length_upt nth_map) simp
qed

lemma parse_hex_loop_append: "parse_hex_loop (xs @ ys) res = parse_hex_loop ys (parse_hex_loop xs res)"
  by (induction xs arbitrary: res) simp_all

lemma parse_hex_field:
  "parse_hex_loop (map of_char (hex_field n k)) res = res * of_nat (16 ^ n) + of_nat (k mod 16 ^ n)"
proof (induction n arbitrary: k)
  case (Suc n)
  have "k mod 16 ^ Suc n = 16 * (k div 16 mod 16 ^ n) + k mod 16"
    using mod_mult2_eq [of k 16 "16 ^ n"] by (simp add: mult.commute)
  then show ?case
    using Suc by (simp add: parse_hex_loop_append hex_digit_char push_bit_eq_mult algebra_simps)
qed simp

lemma parse_hex_memory:
  assumes "in_memory mem a (map of_char (hex_field 8 k))" "k < 2 ^ 32"
  shows "parse_hex mem a 8 = of_nat k"
  using in_memory_bytes [OF assms(1), of 8] assms(2) by (simp add: parse_hex_def parse_hex_field)

section \<open>One member of an archive\<close>

lemma align4_add: "h mod 4 = 0 \<Longrightarrow> align4 (h + x) = h + align4 x"
  unfolding align4_def by presburger

lemma align4_idem: "align4 (align4 x) = align4 x" "align4 x mod 4 = 0"
  unfolding align4_def by simp_all

lemma length_pad4: "length (pad4 bs) = align4 (length bs)"
  using align4_le [of "length bs"] by (simp add: pad4_def)

lemma in_memory_pad4: "in_memory mem h (pad4 bs) \<Longrightarrow> in_memory mem h bs"
  by (simp add: pad4_def in_memory_append)

lemma length_cpio_header: "length (cpio_header name k) = 110"
  by (simp add: cpio_header_def length_concat sum_list_replicate)

lemma member_memory:
  assumes "in_memory mem h (cpio_member (name, content))"
  shows "in_memory mem h (map of_char (cpio_header name (length content)))"
    "in_memory mem (h + 110) (map of_char name @ [0])"
    "in_memory mem (h + align4 (111 + length name)) content"
proof -
  let ?hn = "map of_char (cpio_header name (length content) @ name) @ [0 :: u8]"
  have len: "length ?hn = 111 + length name" by (simp add: length_cpio_header)
  have m: "in_memory mem h (pad4 ?hn)" "in_memory mem (h + length (pad4 ?hn)) content"
    using assms by (simp_all add: cpio_member_def pad4_def [of "pad4 _ @ _"] in_memory_append)
  from m(1) have "in_memory mem h ?hn" by (rule in_memory_pad4)
  then show "in_memory mem h (map of_char (cpio_header name (length content)))"
    "in_memory mem (h + 110) (map of_char name @ [0])"
    by (simp_all add: in_memory_append length_cpio_header)
  show "in_memory mem (h + align4 (111 + length name)) content"
    using m(2) by (simp only: length_pad4 len)
qed

lemma header_memory:
  assumes "in_memory mem h (map of_char (cpio_header name k))" "k < 2 ^ 32" "length name + 1 < 2 ^ 32"
  shows "cpio_magic_ok mem h" "cpio_filesize mem h = of_nat k" "cpio_namesize mem h = length name + 1"
proof -
  define A where "A = ''070701'' @ concat (replicate 6 (hex_field 8 0))"
  define B where "B = concat (replicate 4 (hex_field 8 0))"
  have hd: "cpio_header name k = A @ hex_field 8 k @ B @ hex_field 8 (length name + 1) @ hex_field 8 0"
    by (simp only: cpio_header_def append_assoc A_def B_def)
  have lA: "length A = 54" and lB: "length B = 32"
    by (simp_all add: length_concat sum_list_replicate A_def B_def)
  have m: "in_memory mem h (map of_char A)" "in_memory mem (h + 54) (map of_char (hex_field 8 k))"
    "in_memory mem (h + 94) (map of_char (hex_field 8 (length name + 1)))"
    using assms(1) unfolding hd map_append in_memory_append length_map lA lB length_hex_field
    by (simp_all add: add.assoc)
  from m(1) show "cpio_magic_ok mem h" by (simp add: A_def in_memory_Cons cpio_magic_ok_def)
  from m(2) assms(2) show "cpio_filesize mem h = of_nat k"
    by (simp add: cpio_filesize_def CPIO_FILESIZE_OFFSET_def parse_hex_memory)
  have "parse_hex mem (h + 94) 8 = of_nat (length name + 1)" by (rule parse_hex_memory [OF m(3) assms(3)])
  then show "cpio_namesize mem h = length name + 1"
    using assms(3) by (simp add: cpio_namesize_def CPIO_NAMESIZE_OFFSET_def unat_of_nat_small del: of_nat_Suc of_nat_add)
qed

lemma member_step:
  assumes "in_memory mem h (cpio_member (name, content))" "h mod 4 = 0"
    and "length name < 2 ^ 31" "length content < 2 ^ 32" "CHR 0x00 \<notin> set name"
  shows "cpio_magic_ok mem h" "cpio_filesize mem h = of_nat (length content)"
    "CHR 0x00 \<notin> set f \<Longrightarrow> strcmp mem (cpio_name h) f = 0 \<longleftrightarrow> f = name"
    "copy_name mem n (cpio_name h) = copy_string n name"
    "in_memory mem (cpio_data mem h) content"
    "cpio_next mem h = h + length (cpio_member (name, content))"
proof -
  note m = member_memory [OF assms(1)]
  have b: "length name + 1 < 2 ^ 32" using assms(3) by simp
  note hm = header_memory [OF m(1) assms(4) b]
  show "cpio_magic_ok mem h" "cpio_filesize mem h = of_nat (length content)" by (rule hm)+
  show "strcmp mem (cpio_name h) f = 0 \<longleftrightarrow> f = name" if "CHR 0x00 \<notin> set f"
    using strcmp_iff [OF m(2) assms(5) that] by (simp add: cpio_name_def CPIO_HEADER_BYTES_def)
  show "copy_name mem n (cpio_name h) = copy_string n name"
    using copy_name_string [OF m(2) assms(5)] by (simp add: cpio_name_def CPIO_HEADER_BYTES_def)
  have d: "cpio_data mem h = h + align4 (111 + length name)"
    using align4_add [OF assms(2), of "111 + length name"]
    by (simp add: cpio_data_def hm(3) CPIO_HEADER_BYTES_def ac_simps)
  show "in_memory mem (cpio_data mem h) content" using m(3) d by simp
  have "unat (cpio_filesize mem h) = length content" using hm(2) assms(4) by (simp add: unat_of_nat_small)
  then show "cpio_next mem h = h + length (cpio_member (name, content))"
    using align4_add [OF assms(2), of "align4 (111 + length name) + length content"]
    by (simp add: cpio_next_def d cpio_member_def length_pad4 length_cpio_header add.assoc)
qed

lemma cpio_member_pos: "110 \<le> length (cpio_member m)" "length (cpio_member m) mod 4 = 0"
proof -
  obtain name content where m: "m = (name, content)" by fastforce
  have "110 \<le> align4 (length (pad4 (map of_char (cpio_header name (length content) @ name) @ [0]) @ content))"
    using align4_le [of "length (pad4 (map of_char (cpio_header name (length content) @ name) @ [0]) @ content)"]
      align4_le [of "length (map of_char (cpio_header name (length content) @ name) @ [0 :: u8])"]
    by (simp add: length_pad4 length_cpio_header)
  then show "110 \<le> length (cpio_member m)" by (simp only: m cpio_member_def length_pad4 prod.case)
  show "length (cpio_member m) mod 4 = 0" by (simp add: m cpio_member_def length_pad4 align4_idem(2))
qed

section \<open>Whole archives\<close>

definition archive_at :: "phys_memory \<Rightarrow> nat \<Rightarrow> nat \<Rightarrow> (string \<times> bytes) list \<Rightarrow> bool" where
  "archive_at mem h end_addr files \<longleftrightarrow> h mod 4 = 0 \<and> (\<forall>m \<in> set files. member_ok m) \<and>
     in_memory mem h (cpio_archive files) \<and> h + length (cpio_archive files) \<le> end_addr"

lemma archive_Cons:
  assumes "archive_at mem h e (m # files)"
  shows "in_memory mem h (cpio_member m)" "archive_at mem (h + length (cpio_member m)) e files" "h < e" "member_ok m"
  using assms cpio_member_pos [of m] unfolding archive_at_def
  by (auto simp: cpio_archive_def in_memory_append)

lemma archive_Nil:
  assumes "archive_at mem h e []"
  shows "in_memory mem h (cpio_member (''TRAILER!!!'', []))" "h mod 4 = 0" "h < e"
  using assms cpio_member_pos(1) [of "(''TRAILER!!!'', [])"] unfolding archive_at_def
  by (auto simp: cpio_archive_def)

lemma archive_end:
  assumes "archive_at mem h e []"
  shows "get_file_loop mem e f h = None" "get_entry_loop mem e i n cur h = None"
proof -
  note N = archive_Nil [OF assms] and S = member_step [OF archive_Nil(1,2) [OF assms]]
  have "strcmp mem (cpio_name h) ''TRAILER!!!'' = 0" using S(3) [of "''TRAILER!!!''"] by simp
  then show "get_file_loop mem e f h = None" "get_entry_loop mem e i n cur h = None"
    by (simp_all add: get_file_loop.simps [of mem e f h] get_entry_loop.simps [of mem e i n cur h])
qed

lemma archive_step:
  assumes "archive_at mem h e ((name, content) # files)" "CHR 0x00 \<notin> set f"
  shows "get_file_loop mem e f h = (if f = name then Some (cpio_data mem h, of_nat (length content))
      else get_file_loop mem e f (h + length (cpio_member (name, content))))"
    "get_entry_loop mem e i n cur h = (if cur = i then Some (copy_string n name, of_nat (length content))
      else get_entry_loop mem e i n (cur + 1) (h + length (cpio_member (name, content))))"
    "in_memory mem (cpio_data mem h) content"
proof -
  note A = archive_Cons [OF assms(1)]
  have ok: "length name < 2 ^ 31" "length content < 2 ^ 32" "CHR 0x00 \<notin> set name" "name \<noteq> ''TRAILER!!!''"
    using A(4) by (simp_all add: member_ok_def)
  have h4: "h mod 4 = 0" using assms(1) by (simp add: archive_at_def)
  note S = member_step [OF A(1) h4 ok(1-3)]
  have "strcmp mem (cpio_name h) ''TRAILER!!!'' \<noteq> 0" using S(3) ok(4) by auto
  then show "get_file_loop mem e f h = (if f = name then Some (cpio_data mem h, of_nat (length content))
      else get_file_loop mem e f (h + length (cpio_member (name, content))))"
    "get_entry_loop mem e i n cur h = (if cur = i then Some (copy_string n name, of_nat (length content))
      else get_entry_loop mem e i n (cur + 1) (h + length (cpio_member (name, content))))"
    using S(1,2,4,6) S(3) [OF assms(2)] A(3)
    by (simp_all add: get_file_loop.simps [of mem e f h] get_entry_loop.simps [of mem e i n cur h])
  show "in_memory mem (cpio_data mem h) content" by (rule S(5))
qed

lemma get_file_archive:
  assumes "archive_at mem h e files" "CHR 0x00 \<notin> set f"
  shows "case map_of files f of None \<Rightarrow> get_file_loop mem e f h = None
    | Some c \<Rightarrow> \<exists>a. get_file_loop mem e f h = Some (a, of_nat (length c)) \<and> in_memory mem a c"
  using assms
proof (induction files arbitrary: h)
  case Nil
  then show ?case by (simp add: archive_end)
next
  case (Cons m files)
  obtain name content where m: "m = (name, content)" by fastforce
  note S = archive_step [OF Cons.prems(1) [unfolded m] Cons.prems(2)]
  note IH = Cons.IH [OF archive_Cons(2) [OF Cons.prems(1)] Cons.prems(2), unfolded m]
  show ?case
  proof (cases "f = name")
    case True
    then show ?thesis using S(1,3) by (auto simp: m)
  next
    case False
    then show ?thesis using S(1) IH by (cases "map_of files f") (simp_all add: m)
  qed
qed

lemma get_entry_archive:
  assumes "archive_at mem h e files"
  shows "get_entry_loop mem e (cur + i) n cur h =
    (if i < length files then Some (copy_string n (fst (files ! i)), of_nat (length (snd (files ! i)))) else None)"
  using assms
proof (induction files arbitrary: h cur i)
  case Nil
  then show ?case by (simp add: archive_end)
next
  case (Cons m files)
  obtain name content where m: "m = (name, content)" by fastforce
  note S = archive_step(2) [OF Cons.prems(1) [unfolded m], of "[]"]
  show ?case
  proof (cases i)
    case 0
    then show ?thesis using S by (simp add: m)
  next
    case (Suc j)
    then show ?thesis
      using S Cons.IH [OF archive_Cons(2) [OF Cons.prems(1)], of "cur + 1" j] by (simp add: m)
  qed
qed

lemma init_archive:
  assumes "archive_at mem (unat start) (unat end_addr) files"
  shows "fst (init_initrd mem start end_addr s)"
    "g_initrd_start (snd (init_initrd mem start end_addr s)) = unat start"
    "g_initrd_end (snd (init_initrd mem start end_addr s)) = unat end_addr"
proof -
  obtain m rest where mr: "files @ [(''TRAILER!!!'', [])] = m # rest" by (cases files) auto
  have in_m: "in_memory mem (unat start) (cpio_member m)" and lt: "unat start < unat end_addr"
    using assms cpio_member_pos(1) [of m]
    by (simp_all add: archive_at_def cpio_archive_def mr in_memory_append)
  obtain name content where m: "m = (name, content)" by fastforce
  have ok: "length name < 2 ^ 31" "length content < 2 ^ 32"
    using mr m assms by (cases files; auto simp: archive_at_def member_ok_def)+
  have "cpio_magic_ok mem (unat start)"
    using header_memory(1) [OF member_memory(1) [OF in_m [unfolded m]] ok(2)] ok(1) by simp
  moreover have "\<not> end_addr \<le> start" using lt by (simp add: word_le_nat_alt)
  ultimately show "fst (init_initrd mem start end_addr s)"
    "g_initrd_start (snd (init_initrd mem start end_addr s)) = unat start"
    "g_initrd_end (snd (init_initrd mem start end_addr s)) = unat end_addr"
    by (simp_all add: init_initrd_def Let_def)
qed

lemma init_archive_valid:
  assumes "archive_at mem (unat start) (unat end_addr) files" "start \<noteq> 0"
  shows "initrd_valid (snd (init_initrd mem start end_addr s))"
proof -
  have "unat start < unat end_addr"
    using assms(1) cpio_member_pos(1) [of "(''TRAILER!!!'', [])"] by (simp add: archive_at_def cpio_archive_def)
  moreover have "unat start \<noteq> 0" using assms(2) by (simp add: unat_eq_zero)
  ultimately show "initrd_valid (snd (init_initrd mem start end_addr s))"
    using init_archive [OF assms(1), of s] by (simp add: initrd_valid_def)
qed

section \<open>Properties\<close>

definition memory_with :: "nat \<Rightarrow> bytes \<Rightarrow> phys_memory" where
  "memory_with start bs = (\<lambda>a. if start \<le> a \<and> a < start + length bs then bs ! (a - start) else 0)"

definition sample_files :: "(string \<times> bytes) list" where
  "sample_files = [(''ls'', [1, 2, 3]), (''cat'', [7])]"

definition sample_memory :: phys_memory where
  "sample_memory = memory_with 4096 (cpio_archive sample_files)"

lemma in_memory_with: "in_memory (memory_with start bs) start bs"
  unfolding in_memory_def memory_with_def by (rule nth_equalityI) auto

lemma sample_archive: "archive_at sample_memory 4096 8192 sample_files"
proof -
  have "length (cpio_archive sample_files) = 364"
    by (simp add: cpio_archive_def sample_files_def cpio_member_def length_pad4 length_cpio_header align4_def)
  then show ?thesis
    by (auto simp: archive_at_def sample_memory_def in_memory_with) (auto simp: sample_files_def member_ok_def)
qed

text \<open>
  C10. After \<open>init_initrd\<close> on a cpio archive in memory, \<open>initrd_get_file\<close> finds exactly the files of
  the archive: for a name that the archive holds it returns the address and size of the first
  member of that name, and the bytes at that address are its contents; for any other name it
  fails.
\<close>

theorem initrd_get_file_correct:
  assumes "archive_at mem (unat start) (unat end_addr) files" "start \<noteq> 0" "CHR 0x00 \<notin> set name"
  shows "case map_of files name of
      None \<Rightarrow> initrd_get_file mem (Some name) (snd (init_initrd mem start end_addr s)) = None
    | Some content \<Rightarrow> \<exists>addr. initrd_get_file mem (Some name) (snd (init_initrd mem start end_addr s)) =
        Some (addr, of_nat (length content)) \<and> in_memory mem addr content"
proof -
  note I = init_archive [OF assms(1), of s]
  have "initrd_valid (snd (init_initrd mem start end_addr s))" by (rule init_archive_valid [OF assms(1,2)])
  then have "initrd_get_file mem (Some name) (snd (init_initrd mem start end_addr s)) =
      get_file_loop mem (unat end_addr) name (unat start)"
    using I(2,3) by (simp add: initrd_get_file_def)
  with get_file_archive [OF assms(1,3)] show ?thesis by (simp cong: option.case_cong)
qed

theorem initrd_get_file_correct_witness:
  "\<exists>addr. initrd_get_file sample_memory (Some ''cat'') (snd (init_initrd sample_memory 4096 8192
     \<lparr>g_initrd_start = 0, g_initrd_end = 0\<rparr>)) = Some (addr, 1) \<and> in_memory sample_memory addr [7]"
proof -
  have a: "archive_at sample_memory (unat (4096 :: u32)) (unat (8192 :: u32)) sample_files"
    using sample_archive by simp
  have m: "map_of sample_files ''cat'' = Some [7]" by (simp add: sample_files_def)
  show ?thesis
    using initrd_get_file_correct [OF a, of "''cat''" "\<lparr>g_initrd_start = 0, g_initrd_end = 0\<rparr>"]
    unfolding m by simp
qed

text \<open>
  C11. \<open>initrd_get_entry\<close> lists an archive: index \<open>i\<close> yields the name of member \<open>i\<close>, cut to the buffer,
  and its size, and an index past the last member fails.
\<close>

theorem initrd_get_entry_correct:
  assumes "archive_at mem (unat start) (unat end_addr) files" "start \<noteq> 0" "0 < name_buf_size"
  shows "initrd_get_entry mem i name_buf_size (snd (init_initrd mem start end_addr s)) =
    (if i < length files
     then Some (copy_string name_buf_size (fst (files ! i)), of_nat (length (snd (files ! i)))) else None)"
proof -
  note I = init_archive [OF assms(1), of s]
  have "initrd_valid (snd (init_initrd mem start end_addr s))" by (rule init_archive_valid [OF assms(1,2)])
  then show ?thesis
    using I(2,3) assms(3) get_entry_archive [OF assms(1), of 0 i name_buf_size] by (simp add: initrd_get_entry_def)
qed

theorem initrd_get_entry_correct_witness:
  "initrd_get_entry sample_memory 1 4 (snd (init_initrd sample_memory 4096 8192
     \<lparr>g_initrd_start = 0, g_initrd_end = 0\<rparr>)) = Some (''cat'', 1)"
proof -
  have a: "archive_at sample_memory (unat (4096 :: u32)) (unat (8192 :: u32)) sample_files"
    using sample_archive by simp
  show ?thesis
    using initrd_get_entry_correct [OF a, of 4 1] by (simp add: sample_files_def)
qed

end
