(* ===== verification/Aosfs.thy ===== *)
theory Aosfs
  imports Partition Vfs_Node Slots Initrd
begin

text \<open>
  The AOS file system, \<open>kernel/aosfs.c\<close>: eight instances, one per partition role, each a table of
  entries addressed by path. An instance on a block device keeps its table at offset 4096 of its
  partition and the file contents in extents behind it; the instance in memory keeps the contents
  of its first 64 entries in 8 KiB buffers. This theory holds the definitions.

  \<open>g_active\<close> is the index of the active instance, and an entry pointer is an index into its table.
  The state also holds the parts of the kernel that the file system calls: block devices,
  partitions and the initial RAM disk. File sizes, data offsets and capacities are natural numbers,
  with the 64-bit reductions written where the code does not exclude them. Results 0 and -1 are
  \<open>True\<close> and \<open>False\<close> or an option; paths and output pointers are non-null, as in every call in the
  kernel.
\<close>

definition AOSFS_ROOT_INO :: u64 where "AOSFS_ROOT_INO = 0xA05F0001"
definition AOSFS_DIR_INO_BASE :: u64 where "AOSFS_DIR_INO_BASE = 0xA05F1000"
definition AOSFS_FILE_INO_BASE :: u64 where "AOSFS_FILE_INO_BASE = 0xA05F8000"
definition AOSFS_DYNAMIC_INO_BASE :: u64 where "AOSFS_DYNAMIC_INO_BASE = 0xA05FD000"
definition AOSFS_MAX_ENTRIES :: nat where "AOSFS_MAX_ENTRIES = 2000"
definition AOSFS_COMPAT_MAX_ENTRIES :: nat where "AOSFS_COMPAT_MAX_ENTRIES = 1024"
definition AOSFS_LEGACY_MAX_ENTRIES :: nat where "AOSFS_LEGACY_MAX_ENTRIES = 64"
definition AOSFS_PATH_MAX :: nat where "AOSFS_PATH_MAX = 128"
definition AOSFS_INLINE_CAPACITY :: nat where "AOSFS_INLINE_CAPACITY = 8192"
definition AOSFS_MEMORY_FILE_LIMIT :: nat where "AOSFS_MEMORY_FILE_LIMIT = 64"
definition AOSFS_COMPAT_MAX_FILE_SIZE :: nat where "AOSFS_COMPAT_MAX_FILE_SIZE = 64 * 1024 * 1024"
definition AOSFS_MAX_FILE_SIZE :: nat where "AOSFS_MAX_FILE_SIZE = 1024 * 1024 * 1024"
definition AOSFS_MIN_EXTENT_CAPACITY :: nat where "AOSFS_MIN_EXTENT_CAPACITY = 64 * 1024"
definition AOSFS_EXTENT_ALIGNMENT :: nat where "AOSFS_EXTENT_ALIGNMENT = 4096"
definition AOSFS_MAGIC0 :: nat where "AOSFS_MAGIC0 = 0x46534F41"
definition AOSFS_MAGIC1 :: nat where "AOSFS_MAGIC1 = 0x00003153"
definition AOSFS_LEGACY_VERSION :: nat where "AOSFS_LEGACY_VERSION = 3"
definition AOSFS_VERSION :: nat where "AOSFS_VERSION = 4"
definition AOSFS_BLOCK_SIZE :: nat where "AOSFS_BLOCK_SIZE = 512"
definition AOSFS_SUPER_OFFSET :: nat where "AOSFS_SUPER_OFFSET = 0"
definition AOSFS_TABLE_OFFSET :: nat where "AOSFS_TABLE_OFFSET = 4096"
definition AOSFS_DATA_OFFSET :: nat where "AOSFS_DATA_OFFSET = 524288"
definition AOSFS_LEGACY_DATA_OFFSET :: nat where "AOSFS_LEGACY_DATA_OFFSET = 65536"
definition AOSFS_ENTRY_REGULAR :: u8 where "AOSFS_ENTRY_REGULAR = 0"
definition AOSFS_ENTRY_DIRECTORY :: u8 where "AOSFS_ENTRY_DIRECTORY = 1"
definition AOSFS_ENTRY_SYMLINK :: u8 where "AOSFS_ENTRY_SYMLINK = 2"
definition AOSFS_DISK_MODE_VALID :: u16 where "AOSFS_DISK_MODE_VALID = 0x8000"
definition AOSFS_DEFAULT_FILE_MODE :: u16 where "AOSFS_DEFAULT_FILE_MODE = 0x1A4"
definition AOSFS_DEFAULT_DIRECTORY_MODE :: u16 where "AOSFS_DEFAULT_DIRECTORY_MODE = 0x1ED"
definition AOSFS_DEFAULT_SYMLINK_MODE :: u16 where "AOSFS_DEFAULT_SYMLINK_MODE = 0x1FF"
definition AOSFS_MODE_BITS :: u16 where "AOSFS_MODE_BITS = 0xFFF"
definition SUPER_BYTES :: nat where "SUPER_BYTES = 512"
definition DISK_ENTRY_BYTES :: nat where "DISK_ENTRY_BYTES = 256"
definition EXTENT_COPY_BYTES :: nat where "EXTENT_COPY_BYTES = 4096"
definition NODE_PATH_BYTES :: nat where "NODE_PATH_BYTES = 144"
definition ZERO_CHUNK_BYTES :: nat where "ZERO_CHUNK_BYTES = 512"
definition UINT64_MAX :: nat where "UINT64_MAX = 2 ^ 64 - 1"

lemmas aosfs_layout_defs = AOSFS_MAX_ENTRIES_def AOSFS_COMPAT_MAX_ENTRIES_def AOSFS_SUPER_OFFSET_def
  AOSFS_TABLE_OFFSET_def AOSFS_DATA_OFFSET_def SUPER_BYTES_def DISK_ENTRY_BYTES_def

definition g_root_dirs :: "string list" where
  "g_root_dirs = [''aos'', ''bin'', ''boot'', ''bootloader'', ''Bluetooth'', ''commands'', ''configs'',
     ''drivers'', ''dev'', ''etc'', ''home'', ''kernel'', ''lib'', ''lib64'', ''logs'', ''main'', ''memory'',
     ''mnt'', ''MUI'', ''networking-stack'', ''opt'', ''proc'', ''run'', ''runtime'', ''root'', ''sbin'',
     ''sqausased'', ''sudo'', ''sys'', ''squashed'', ''tmp'', ''trash'', ''usr'', ''var'']"

record aosfs_entry =
  ae_in_use :: bool
  ae_kind :: u8
  ae_mode :: u16
  ae_size :: nat
  ae_uid :: u32
  ae_gid :: u32
  ae_inode :: u64
  ae_data_offset :: nat
  ae_data_capacity :: nat
  ae_path :: string

record aosfs_superblock =
  sb_magic0 :: nat
  sb_magic1 :: nat
  sb_version :: nat
  sb_block_size :: nat
  sb_max_entries :: nat
  sb_path_max :: nat
  sb_file_capacity :: nat
  sb_table_offset :: nat
  sb_data_offset :: nat

record aosfs_disk_entry =
  de_in_use :: u8
  de_kind :: u8
  de_mode :: u16
  de_size :: nat
  de_inode :: u64
  de_path :: bytes
  de_data_offset :: nat
  de_data_capacity :: nat
  de_uid :: u32
  de_gid :: u32

record aosfs_instance =
  ai_mounted :: bool
  ai_role :: u8
  ai_block_backed :: bool
  ai_blkdev_id :: u32
  ai_base_offset :: u64
  ai_next_inode :: u64
  ai_next_data_offset :: nat
  ai_format_version :: nat
  ai_entry_limit :: nat
  ai_entries :: "aosfs_entry list"

record 'd aosfs_state =
  g_instances :: "aosfs_instance list"
  g_active :: nat
  g_memory_data :: "bytes list list"
  fs_blk :: "'d blk_state"
  fs_parts :: part_state
  fs_initrd :: initrd_state

definition aosfs_entry_zero :: aosfs_entry where
  "aosfs_entry_zero = \<lparr>ae_in_use = False, ae_kind = 0, ae_mode = 0, ae_size = 0, ae_uid = 0, ae_gid = 0,
     ae_inode = 0, ae_data_offset = 0, ae_data_capacity = 0, ae_path = []\<rparr>"

definition aosfs_instance_zero :: aosfs_instance where
  "aosfs_instance_zero = \<lparr>ai_mounted = False, ai_role = 0, ai_block_backed = False, ai_blkdev_id = 0,
     ai_base_offset = 0, ai_next_inode = 0, ai_next_data_offset = 0, ai_format_version = 0,
     ai_entry_limit = 0, ai_entries = replicate AOSFS_MAX_ENTRIES aosfs_entry_zero\<rparr>"

text \<open>The active instance and its table, which the code names through the macros \<open>g_entries\<close>,
  \<open>g_next_inode\<close> and so on.\<close>

definition active :: "'d aosfs_state \<Rightarrow> aosfs_instance" where
  "active s = g_instances s ! g_active s"

definition update_active :: "(aosfs_instance \<Rightarrow> aosfs_instance) \<Rightarrow> 'd aosfs_state \<Rightarrow> 'd aosfs_state" where
  "update_active f s = s\<lparr>g_instances := (g_instances s)[g_active s := f (active s)]\<rparr>"

definition entry_at :: "nat \<Rightarrow> 'd aosfs_state \<Rightarrow> aosfs_entry" where
  "entry_at i s = ai_entries (active s) ! i"

definition set_entry :: "nat \<Rightarrow> aosfs_entry \<Rightarrow> 'd aosfs_state \<Rightarrow> 'd aosfs_state" where
  "set_entry i e = update_active (\<lambda>a. a\<lparr>ai_entries := (ai_entries a)[i := e]\<rparr>)"

definition initrd_memory :: "'d aosfs_state \<Rightarrow> phys_memory" where
  "initrd_memory s = (\<lambda>a. memory (fs_blk s) (of_nat a))"

section \<open>Paths\<close>

fun contains_slash :: "string \<Rightarrow> bool" where
  "contains_slash [] = False"
| "contains_slash (c # cs) = (c = CHR ''/'' \<or> contains_slash cs)"

definition root_dir_index :: "string \<Rightarrow> nat option" where
  "root_dir_index path = find_slot (path_equals path) g_root_dirs"

definition last_slash :: "string \<Rightarrow> nat" where
  "last_slash path = length (dropWhile (\<lambda>c. c \<noteq> CHR ''/'') (rev path))"

definition aosfs_parent_path_of :: "string \<Rightarrow> nat \<Rightarrow> string option" where
  "aosfs_parent_path_of path out_size =
     (if out_size = 0 then None
      else if path = [] then Some []
      else let slash = last_slash path
           in if slash = 0 then Some []
              else if slash - 1 \<ge> out_size then None
              else Some (take (slash - 1) path))"

definition path_starts_with_component :: "string \<Rightarrow> string \<Rightarrow> bool" where
  "path_starts_with_component path prefix \<longleftrightarrow>
     prefix = [] \<or> (take (length prefix) path = prefix \<and>
       (let rest = drop (length prefix) path in rest = [] \<or> hd rest = CHR ''/''))"

definition role_from_selector :: "string \<Rightarrow> u8" where
  "role_from_selector selector =
     (if selector = ''root'' then PARTITION_ROLE_ROOT
      else if selector = ''main'' then PARTITION_ROLE_MAIN
      else if selector = ''etc'' then PARTITION_ROLE_ETC
      else if selector = ''commands'' then PARTITION_ROLE_COMMANDS
      else if selector = ''tmp'' then PARTITION_ROLE_TMP
      else if selector = ''trash'' then PARTITION_ROLE_TRASH
      else PARTITION_ROLE_UNKNOWN)"

definition instance_for_role :: "u8 \<Rightarrow> nat" where
  "instance_for_role role = unat (if role > PARTITION_ROLE_TRASH then PARTITION_ROLE_ROOT else role)"

definition skip_slashes :: "string \<Rightarrow> string" where
  "skip_slashes = dropWhile (\<lambda>c. c = CHR ''/'')"

definition selected_role :: "string \<Rightarrow> 'd aosfs_state \<Rightarrow> u8 \<times> string" where
  "selected_role path s =
     (if path \<noteq> [] \<and> hd path = CHR ''@''
      then let selector = tl path; role = role_from_selector (takeWhile (\<lambda>c. c \<noteq> CHR ''/'') selector)
           in (role, if role \<noteq> PARTITION_ROLE_UNKNOWN
                     then skip_slashes (dropWhile (\<lambda>c. c \<noteq> CHR ''/'') selector) else path)
      else let role = role_from_selector (takeWhile (\<lambda>c. c \<noteq> CHR ''/'') path)
           in if role \<noteq> PARTITION_ROLE_UNKNOWN \<and> ai_mounted (g_instances s ! unat role)
              then (role, skip_slashes (dropWhile (\<lambda>c. c \<noteq> CHR ''/'') path))
              else (PARTITION_ROLE_ROOT, path))"

definition select_instance_for_path :: "string \<Rightarrow> 'd aosfs_state \<Rightarrow> string \<times> 'd aosfs_state" where
  "select_instance_for_path path s =
     (case selected_role (skip_slashes path) s of (role, rest) \<Rightarrow>
        let i = instance_for_role role
        in (rest, s\<lparr>g_active := if \<not> ai_mounted (g_instances s ! i) \<and> role \<noteq> PARTITION_ROLE_ROOT
                                 then instance_for_role PARTITION_ROLE_ROOT else i\<rparr>))"

definition make_node_path :: "string \<Rightarrow> nat \<Rightarrow> 'd aosfs_state \<Rightarrow> string" where
  "make_node_path path out_size s =
     (if ai_role (active s) = PARTITION_ROLE_ROOT then copy_string out_size path
      else if out_size < 3 then []
      else let head = CHR ''@'' # copy_string (out_size - 1) (partition_role_name (ai_role (active s)))
           in if path \<noteq> [] \<and> length head + 1 < out_size
              then head @ CHR ''/'' # copy_string (out_size - (length head + 1)) path
              else head)"

definition immediate_child_name :: "string \<Rightarrow> string \<Rightarrow> string option" where
  "immediate_child_name parent child_path =
     (let rest = (if parent = [] then Some child_path
                  else if \<not> path_starts_with_component child_path parent then None
                  else case drop (length parent) child_path of
                         [] \<Rightarrow> None | c # cs \<Rightarrow> if c \<noteq> CHR ''/'' then None else Some cs)
      in case rest of None \<Rightarrow> None
         | Some rest \<Rightarrow> if rest = [] then None
                        else let len = length (takeWhile (\<lambda>c. c \<noteq> CHR ''/'') rest)
                             in if len = 0 \<or> len < length rest then None else Some rest)"

definition name_equals_len :: "string \<Rightarrow> string \<Rightarrow> nat \<Rightarrow> bool" where
  "name_equals_len a b b_len \<longleftrightarrow> length a = b_len \<and> a = take b_len b"

definition root_name_is_builtin :: "string \<Rightarrow> bool" where
  "root_name_is_builtin name \<longleftrightarrow> root_dir_index name \<noteq> None"

definition commands_leaf :: "string \<Rightarrow> string option" where
  "commands_leaf path =
     (if take 9 path \<noteq> ''commands/'' then None
      else if drop 9 path = [] \<or> contains_slash (drop 9 path) then None
      else Some (drop 9 path))"

section \<open>Entries and the on-disk layout\<close>

definition aosfs_find_entry :: "string \<Rightarrow> 'd aosfs_state \<Rightarrow> nat option" where
  "aosfs_find_entry path s =
     find_slot (\<lambda>e. ae_in_use e \<and> path_equals (ae_path e) path)
       (take (ai_entry_limit (active s)) (ai_entries (active s)))"

definition entry_index :: "nat option \<Rightarrow> 'd aosfs_state \<Rightarrow> nat option" where
  "entry_index entry s =
     (case entry of None \<Rightarrow> None | Some i \<Rightarrow> if i < ai_entry_limit (active s) then Some i else None)"

definition align_up_u64 :: "nat \<Rightarrow> nat \<Rightarrow> nat" where
  "align_up_u64 value alignment =
     (if alignment = 0 \<or> value > UINT64_MAX - (alignment - 1) then UINT64_MAX
      else unat ((of_nat (value + alignment - 1) :: u64) AND NOT (of_nat (alignment - 1))))"

definition legacy_entry_data_offset :: "nat \<Rightarrow> nat" where
  "legacy_entry_data_offset index = AOSFS_LEGACY_DATA_OFFSET + index * AOSFS_INLINE_CAPACITY"

definition memory_entry_data :: "nat \<Rightarrow> 'd aosfs_state \<Rightarrow> bytes option" where
  "memory_entry_data index s =
     (if ai_role (active s) > PARTITION_ROLE_TRASH \<or> index \<ge> AOSFS_MEMORY_FILE_LIMIT then None
      else Some (g_memory_data s ! unat (ai_role (active s)) ! index))"

definition set_memory_entry_data :: "nat \<Rightarrow> bytes \<Rightarrow> 'd aosfs_state \<Rightarrow> 'd aosfs_state" where
  "set_memory_entry_data index bs s =
     (let r = unat (ai_role (active s))
      in s\<lparr>g_memory_data := (g_memory_data s)[r := (g_memory_data s ! r)[index := bs]]\<rparr>)"

definition entry_data_offset :: "nat \<Rightarrow> 'd aosfs_state \<Rightarrow> nat" where
  "entry_data_offset index s =
     (if ai_format_version (active s) \<ge> AOSFS_VERSION \<and> ae_data_capacity (entry_at index s) \<noteq> 0
      then ae_data_offset (entry_at index s) else legacy_entry_data_offset index)"

definition active_storage_size :: "'d aosfs_state \<Rightarrow> nat" where
  "active_storage_size s =
     (let a = active s
      in case blkdev_get (ai_blkdev_id a) (fs_blk s) of None \<Rightarrow> 0
         | Some dev \<Rightarrow>
             if ai_base_offset a \<ge> bd_size dev then 0
             else case partition_find_by_role (ai_role a) (fs_parts s) of
                    Some part \<Rightarrow>
                      if p_blkdev_id part = ai_blkdev_id a \<and> p_offset part = ai_base_offset a \<and>
                         p_size part \<le> bd_size dev - ai_base_offset a
                      then unat (p_size part) else unat (bd_size dev - ai_base_offset a)
                  | None \<Rightarrow> unat (bd_size dev - ai_base_offset a))"

definition encode_super :: "aosfs_superblock \<Rightarrow> bytes" where
  "encode_super b = le_enc 4 (sb_magic0 b) @ le_enc 4 (sb_magic1 b) @ le_enc 4 (sb_version b) @
     le_enc 4 (sb_block_size b) @ le_enc 4 (sb_max_entries b) @ le_enc 4 (sb_path_max b) @
     le_enc 4 (sb_file_capacity b) @ le_enc 4 (sb_table_offset b) @ le_enc 4 (sb_data_offset b) @
     replicate 476 0"

definition decode_super :: "bytes \<Rightarrow> aosfs_superblock" where
  "decode_super bs = \<lparr>sb_magic0 = le_dec (subarr 0 4 bs), sb_magic1 = le_dec (subarr 4 4 bs),
     sb_version = le_dec (subarr 8 4 bs), sb_block_size = le_dec (subarr 12 4 bs),
     sb_max_entries = le_dec (subarr 16 4 bs), sb_path_max = le_dec (subarr 20 4 bs),
     sb_file_capacity = le_dec (subarr 24 4 bs), sb_table_offset = le_dec (subarr 28 4 bs),
     sb_data_offset = le_dec (subarr 32 4 bs)\<rparr>"

definition fill_superblock :: aosfs_superblock where
  "fill_superblock = \<lparr>sb_magic0 = AOSFS_MAGIC0, sb_magic1 = AOSFS_MAGIC1, sb_version = AOSFS_VERSION,
     sb_block_size = AOSFS_BLOCK_SIZE, sb_max_entries = AOSFS_MAX_ENTRIES, sb_path_max = AOSFS_PATH_MAX,
     sb_file_capacity = AOSFS_MAX_FILE_SIZE, sb_table_offset = AOSFS_TABLE_OFFSET,
     sb_data_offset = AOSFS_DATA_OFFSET\<rparr>"

definition superblock_valid :: "aosfs_superblock \<Rightarrow> bool" where
  "superblock_valid super \<longleftrightarrow>
     sb_magic0 super = AOSFS_MAGIC0 \<and> sb_magic1 super = AOSFS_MAGIC1 \<and> sb_version super = AOSFS_VERSION \<and>
     (sb_max_entries super = AOSFS_MAX_ENTRIES \<or> sb_max_entries super = AOSFS_COMPAT_MAX_ENTRIES) \<and>
     sb_path_max super = AOSFS_PATH_MAX \<and>
     (sb_file_capacity super = AOSFS_MAX_FILE_SIZE \<or> sb_file_capacity super = AOSFS_COMPAT_MAX_FILE_SIZE) \<and>
     sb_table_offset super = AOSFS_TABLE_OFFSET \<and> sb_data_offset super = AOSFS_DATA_OFFSET"

definition legacy_superblock_valid :: "aosfs_superblock \<Rightarrow> bool" where
  "legacy_superblock_valid super \<longleftrightarrow>
     sb_magic0 super = AOSFS_MAGIC0 \<and> sb_magic1 super = AOSFS_MAGIC1 \<and>
     sb_version super = AOSFS_LEGACY_VERSION \<and> sb_max_entries super = AOSFS_LEGACY_MAX_ENTRIES \<and>
     sb_path_max super = AOSFS_PATH_MAX \<and> sb_file_capacity super = AOSFS_INLINE_CAPACITY \<and>
     sb_table_offset super = AOSFS_TABLE_OFFSET \<and> sb_data_offset super = AOSFS_LEGACY_DATA_OFFSET"

definition encode_disk_entry :: "aosfs_disk_entry \<Rightarrow> bytes" where
  "encode_disk_entry d = [de_in_use d, de_kind d] @ le_enc 2 (unat (de_mode d)) @ le_enc 4 (de_size d) @
     le_enc 8 (unat (de_inode d)) @ de_path d @ le_enc 8 (de_data_offset d) @ le_enc 8 (de_data_capacity d) @
     le_enc 4 (unat (de_uid d)) @ le_enc 4 (unat (de_gid d)) @ replicate 88 0"

definition decode_disk_entry :: "bytes \<Rightarrow> aosfs_disk_entry" where
  "decode_disk_entry bs = \<lparr>de_in_use = bs ! 0, de_kind = bs ! 1, de_mode = of_nat (le_dec (subarr 2 2 bs)),
     de_size = le_dec (subarr 4 4 bs), de_inode = of_nat (le_dec (subarr 8 8 bs)), de_path = subarr 16 128 bs,
     de_data_offset = le_dec (subarr 144 8 bs), de_data_capacity = le_dec (subarr 152 8 bs),
     de_uid = of_nat (le_dec (subarr 160 4 bs)), de_gid = of_nat (le_dec (subarr 164 4 bs))\<rparr>"

text \<open>The disk entry that \<open>sync_entry\<close> fills from an entry.\<close>

definition disk_entry_of :: "aosfs_entry \<Rightarrow> aosfs_disk_entry" where
  "disk_entry_of e = \<lparr>de_in_use = (if ae_in_use e then 1 else 0), de_kind = ae_kind e,
     de_mode = AOSFS_DISK_MODE_VALID OR (ae_mode e AND AOSFS_MODE_BITS), de_size = ae_size e,
     de_inode = ae_inode e, de_path = name_field AOSFS_PATH_MAX (ae_path e),
     de_data_offset = ae_data_offset e, de_data_capacity = ae_data_capacity e, de_uid = ae_uid e,
     de_gid = ae_gid e\<rparr>"

text \<open>Transfers at an offset of the active instance's partition.\<close>

definition volume_read :: "nat \<Rightarrow> nat \<Rightarrow> 'd aosfs_state \<Rightarrow> bytes option \<times> 'd aosfs_state" where
  "volume_read off len s =
     (case blkdev_read (ai_blkdev_id (active s)) (ai_base_offset (active s) + of_nat off) True (of_nat len) (fs_blk s) of
        (r, b) \<Rightarrow> (r, s\<lparr>fs_blk := b\<rparr>))"

definition volume_write :: "nat \<Rightarrow> bytes \<Rightarrow> 'd aosfs_state \<Rightarrow> bool \<times> 'd aosfs_state" where
  "volume_write off buf s =
     (case blkdev_write (ai_blkdev_id (active s)) (ai_base_offset (active s) + of_nat off) (Some buf) (fs_blk s) of
        (r, b) \<Rightarrow> (r, s\<lparr>fs_blk := b\<rparr>))"

definition sync_superblock :: "'d aosfs_state \<Rightarrow> bool \<times> 'd aosfs_state" where
  "sync_superblock s =
     (if \<not> ai_block_backed (active s) then (True, s)
      else volume_write AOSFS_SUPER_OFFSET (encode_super fill_superblock) s)"

definition sync_entry :: "nat \<Rightarrow> 'd aosfs_state \<Rightarrow> bool \<times> 'd aosfs_state" where
  "sync_entry index s =
     (if \<not> ai_block_backed (active s) \<or> index \<ge> ai_entry_limit (active s) then (True, s)
      else volume_write (AOSFS_TABLE_OFFSET + index * DISK_ENTRY_BYTES)
             (encode_disk_entry (disk_entry_of (entry_at index s))) s)"

text \<open>The loop \<open>for (i = 0; i < AOSFS_MAX_ENTRIES; i++) if (sync_entry(i) != 0) return -1;\<close>.\<close>

fun sync_entries :: "nat \<Rightarrow> nat \<Rightarrow> 'd aosfs_state \<Rightarrow> bool \<times> 'd aosfs_state" where
  "sync_entries i 0 s = (True, s)"
| "sync_entries i (Suc n) s =
     (case sync_entry i s of (False, s') \<Rightarrow> (False, s') | (True, s') \<Rightarrow> sync_entries (i + 1) n s')"

definition sync_entry_data :: "nat \<Rightarrow> 'd aosfs_state \<Rightarrow> bool" where
  "sync_entry_data index s = True"

text \<open>Copying \<open>size\<close> bytes between two places of the partition through \<open>g_extent_copy_buffer\<close>.\<close>

function copy_extent_loop :: "nat \<Rightarrow> nat \<Rightarrow> nat \<Rightarrow> nat \<Rightarrow> 'd aosfs_state \<Rightarrow> bool \<times> 'd aosfs_state" where
  "copy_extent_loop from to copied sz s =
     (if copied < sz
      then let chunk = (if sz - copied > EXTENT_COPY_BYTES then EXTENT_COPY_BYTES else sz - copied)
           in case volume_read (from + copied) chunk s of
                (None, s') \<Rightarrow> (False, s')
              | (Some buf, s') \<Rightarrow>
                  (case volume_write (to + copied) buf s' of
                     (False, s'') \<Rightarrow> (False, s'')
                   | (True, s'') \<Rightarrow> copy_extent_loop from to (copied + chunk) sz s'')
      else (True, s))"
  by pat_completeness auto
termination
  by (relation "measure (\<lambda>(from, to, copied, sz, s). sz - copied)")
    (auto simp: EXTENT_COPY_BYTES_def split: if_splits)

declare copy_extent_loop.simps [simp del]

definition dynamic_child_seen :: "string \<Rightarrow> string \<Rightarrow> 'd aosfs_state \<Rightarrow> bool" where
  "dynamic_child_seen parent name s \<longleftrightarrow>
     list_ex (\<lambda>e. ae_in_use e \<and>
         (case immediate_child_name parent (ae_path e) of None \<Rightarrow> False
          | Some child \<Rightarrow> name_equals_len name child (length child)))
       (take (ai_entry_limit (active s)) (ai_entries (active s)))"

definition dynamic_dir_has_children :: "string \<Rightarrow> 'd aosfs_state \<Rightarrow> bool" where
  "dynamic_dir_has_children path s \<longleftrightarrow>
     list_ex (\<lambda>e. ae_in_use e \<and> immediate_child_name path (ae_path e) \<noteq> None)
       (take (ai_entry_limit (active s)) (ai_entries (active s)))"

definition entry_dirent_type :: "aosfs_entry \<Rightarrow> u8" where
  "entry_dirent_type e =
     (if ae_kind e = AOSFS_ENTRY_DIRECTORY then LINUX_DTYPE_DIR
      else if ae_kind e = AOSFS_ENTRY_SYMLINK then LINUX_DTYPE_LNK else LINUX_DTYPE_REG)"

definition dir_exists :: "string \<Rightarrow> 'd aosfs_state \<Rightarrow> bool" where
  "dir_exists path s =
     (if path = [] \<or> root_dir_index path \<noteq> None then True
      else case aosfs_find_entry path s of None \<Rightarrow> False
           | Some i \<Rightarrow> ae_kind (entry_at i s) = AOSFS_ENTRY_DIRECTORY)"

definition fill_dir_node :: "string \<Rightarrow> u64 \<Rightarrow> 'd aosfs_state \<Rightarrow> vfs_node" where
  "fill_dir_node path inode s =
     vfs_node_zero\<lparr>n_type := VFS_NODE_TYPE_DIRECTORY, n_backend := VFS_BACKEND_AOSFS,
       n_mode := AOSFS_DEFAULT_DIRECTORY_MODE, n_inode := inode,
       n_path := copy_string VFS_PATH_BYTES (make_node_path path NODE_PATH_BYTES s)\<rparr>"

definition fill_file_node :: "string \<Rightarrow> nat \<Rightarrow> u32 \<Rightarrow> 'd aosfs_state \<Rightarrow> vfs_node" where
  "fill_file_node path data sz s =
     vfs_node_zero\<lparr>n_type := VFS_NODE_TYPE_REGULAR, n_backend := VFS_BACKEND_AOSFS, n_mode := 0x16D,
       n_size := sz, n_inode := AOSFS_FILE_INO_BASE + drop_bit 4 (of_nat data), n_u := U_data (of_nat data),
       n_path := copy_string VFS_PATH_BYTES (make_node_path path NODE_PATH_BYTES s)\<rparr>"

definition fill_dynamic_node :: "nat \<Rightarrow> 'd aosfs_state \<Rightarrow> vfs_node" where
  "fill_dynamic_node i s =
     (let e = entry_at i s
      in vfs_node_zero\<lparr>
        n_type := (if ae_kind e = AOSFS_ENTRY_DIRECTORY then VFS_NODE_TYPE_DIRECTORY
                   else if ae_kind e = AOSFS_ENTRY_SYMLINK then VFS_NODE_TYPE_SYMLINK
                   else VFS_NODE_TYPE_REGULAR),
        n_backend := VFS_BACKEND_AOSFS, n_mode := ae_mode e, n_uid := ae_uid e, n_gid := ae_gid e,
        n_size := of_nat (ae_size e), n_inode := ae_inode e,
        n_u := (if ai_block_backed (active s) \<or> entry_index (Some i) s = None \<or> memory_entry_data i s = None
                then U_null else U_aosfs_data (unat (ai_role (active s))) i),
        n_path := copy_string VFS_PATH_BYTES (make_node_path (ae_path e) NODE_PATH_BYTES s)\<rparr>)"

section \<open>Mounting and formatting\<close>

definition fresh_instance :: "nat \<Rightarrow> aosfs_instance" where
  "fresh_instance i = aosfs_instance_zero\<lparr>ai_role := of_nat i, ai_blkdev_id := BLKDEV_INVALID_ID,
     ai_next_inode := AOSFS_DYNAMIC_INO_BASE, ai_next_data_offset := AOSFS_DATA_OFFSET,
     ai_format_version := AOSFS_VERSION, ai_entry_limit := AOSFS_MAX_ENTRIES\<rparr>"

definition aosfs_init :: "'d aosfs_state \<Rightarrow> 'd aosfs_state" where
  "aosfs_init s = s\<lparr>g_instances := map fresh_instance [0..<8],
     g_memory_data := replicate 8 (replicate AOSFS_MEMORY_FILE_LIMIT (replicate AOSFS_INLINE_CAPACITY 0)),
     g_active := instance_for_role PARTITION_ROLE_ROOT\<rparr>"

definition mount_mode :: "aosfs_disk_entry \<Rightarrow> u16" where
  "mount_mode d =
     (if de_mode d AND AOSFS_DISK_MODE_VALID \<noteq> 0 then de_mode d AND AOSFS_MODE_BITS
      else if de_kind d = AOSFS_ENTRY_DIRECTORY then AOSFS_DEFAULT_DIRECTORY_MODE
      else if de_kind d = AOSFS_ENTRY_SYMLINK then AOSFS_DEFAULT_SYMLINK_MODE
      else AOSFS_DEFAULT_FILE_MODE)"

definition mount_extent_check :: "bool \<Rightarrow> nat \<Rightarrow> nat \<Rightarrow> 'd aosfs_state \<Rightarrow> bool \<times> 'd aosfs_state" where
  "mount_extent_check legacy storage_size i s =
     (let e = entry_at i s
      in if ae_data_capacity e = 0 then (True, s)
         else if ae_data_offset e > UINT64_MAX - ae_data_capacity e then (False, s)
         else let extent_end = ae_data_offset e + ae_data_capacity e
              in if extent_end > storage_size then (False, s)
                 else (True, if \<not> legacy \<and> extent_end > ai_next_data_offset (active s)
                             then update_active (\<lambda>a. a\<lparr>ai_next_data_offset := extent_end\<rparr>) s else s))"

definition mount_extent :: "bool \<Rightarrow> nat \<Rightarrow> nat \<Rightarrow> aosfs_disk_entry \<Rightarrow> 'd aosfs_state \<Rightarrow> bool \<times> 'd aosfs_state" where
  "mount_extent legacy storage_size i d s =
     (if legacy
      then let new_offset = ai_next_data_offset (active s)
           in if ae_size (entry_at i s) > AOSFS_INLINE_CAPACITY then (False, s)
              else if new_offset > UINT64_MAX - AOSFS_INLINE_CAPACITY \<or>
                      new_offset + AOSFS_INLINE_CAPACITY > storage_size then (False, s)
              else case copy_extent_loop (legacy_entry_data_offset i) new_offset 0 (ae_size (entry_at i s)) s of
                     (False, s') \<Rightarrow> (False, s')
                   | (True, s') \<Rightarrow>
                       let s' = set_entry i ((entry_at i s')\<lparr>ae_data_offset := new_offset,
                                  ae_data_capacity := AOSFS_INLINE_CAPACITY\<rparr>) s';
                           s' = update_active (\<lambda>a. a\<lparr>ai_next_data_offset := new_offset + AOSFS_INLINE_CAPACITY\<rparr>) s'
                       in mount_extent_check legacy storage_size i s'
      else let s' = set_entry i ((entry_at i s)\<lparr>ae_data_offset := de_data_offset d,
                      ae_data_capacity := de_data_capacity d\<rparr>) s;
               e = entry_at i s'
           in if ae_size e > AOSFS_MAX_FILE_SIZE \<or> ae_size e > ae_data_capacity e \<or>
                 (ae_data_capacity e \<noteq> 0 \<and> ae_data_offset e < AOSFS_DATA_OFFSET) then (False, s')
              else mount_extent_check legacy storage_size i s')"

definition mount_entry :: "bool \<Rightarrow> nat \<Rightarrow> nat \<Rightarrow> u64 \<Rightarrow> 'd aosfs_state \<Rightarrow> u64 option \<times> 'd aosfs_state" where
  "mount_entry legacy storage_size i highest s =
     (case volume_read (AOSFS_TABLE_OFFSET + i * DISK_ENTRY_BYTES) DISK_ENTRY_BYTES s of
        (None, s') \<Rightarrow> (None, s')
      | (Some bs, s') \<Rightarrow>
          let d = decode_disk_entry bs
          in if de_in_use d = 0 then (Some highest, s')
             else let s' = set_entry i ((entry_at i s')\<lparr>ae_in_use := True\<rparr>) s'
                  in if de_kind d > AOSFS_ENTRY_SYMLINK then (None, s')
                     else let s' = set_entry i ((entry_at i s')\<lparr>ae_kind := de_kind d, ae_mode := mount_mode d,
                                  ae_uid := de_uid d, ae_gid := de_gid d, ae_size := de_size d,
                                  ae_inode := de_inode d,
                                  ae_path := copy_string AOSFS_PATH_MAX (cstr (de_path d))\<rparr>) s';
                              highest' = (if de_inode d > highest then de_inode d else highest)
                          in if de_kind d \<noteq> AOSFS_ENTRY_DIRECTORY
                             then (case mount_extent legacy storage_size i d s' of
                                     (False, s'') \<Rightarrow> (None, s'')
                                   | (True, s'') \<Rightarrow> (Some highest', s''))
                             else (Some highest', s'))"

fun mount_entries :: "bool \<Rightarrow> nat \<Rightarrow> nat \<Rightarrow> nat \<Rightarrow> u64 \<Rightarrow> 'd aosfs_state \<Rightarrow> u64 option \<times> 'd aosfs_state" where
  "mount_entries legacy storage_size i 0 highest s = (Some highest, s)"
| "mount_entries legacy storage_size i (Suc n) highest s =
     (case mount_entry legacy storage_size i highest s of
        (None, s') \<Rightarrow> (None, s')
      | (Some highest', s') \<Rightarrow> mount_entries legacy storage_size (i + 1) n highest' s')"

definition clear_entries :: "'d aosfs_state \<Rightarrow> 'd aosfs_state" where
  "clear_entries = update_active (\<lambda>a. a\<lparr>ai_entries := replicate AOSFS_MAX_ENTRIES aosfs_entry_zero\<rparr>)"

definition mount_blank :: "'d aosfs_state \<Rightarrow> bool \<times> 'd aosfs_state" where
  "mount_blank s =
     (case sync_superblock (clear_entries s) of
        (False, s') \<Rightarrow> (False, s')
      | (True, s') \<Rightarrow>
          (case sync_entries 0 AOSFS_MAX_ENTRIES s' of
             (False, s'') \<Rightarrow> (False, s'')
           | (True, s'') \<Rightarrow> (True, update_active (\<lambda>a. a\<lparr>ai_next_inode := AOSFS_DYNAMIC_INO_BASE\<rparr>) s'')))"

definition mount_table :: "bool \<Rightarrow> nat \<Rightarrow> nat \<Rightarrow> 'd aosfs_state \<Rightarrow> bool \<times> 'd aosfs_state" where
  "mount_table legacy max_entries storage_size s =
     (let limit = (if legacy then AOSFS_LEGACY_MAX_ENTRIES else max_entries);
          s = update_active (\<lambda>a. a\<lparr>ai_entry_limit := limit\<rparr>) (clear_entries s);
          s = (if legacy then update_active (\<lambda>a. a\<lparr>ai_next_data_offset :=
                 align_up_u64 (legacy_entry_data_offset AOSFS_LEGACY_MAX_ENTRIES) AOSFS_EXTENT_ALIGNMENT\<rparr>) s else s)
      in case mount_entries legacy storage_size 0 limit (AOSFS_DYNAMIC_INO_BASE - 1) s of
           (None, s') \<Rightarrow> (False, s')
         | (Some highest, s') \<Rightarrow>
             let s' = update_active (\<lambda>a. a\<lparr>ai_next_inode := highest + 1\<rparr>) s'
             in if legacy
                then let s' = update_active (\<lambda>a. a\<lparr>ai_format_version := AOSFS_VERSION,
                                ai_entry_limit := AOSFS_MAX_ENTRIES\<rparr>) s'
                     in (case sync_entries 0 AOSFS_MAX_ENTRIES s' of
                           (False, s'') \<Rightarrow> (False, s'')
                         | (True, s'') \<Rightarrow> sync_superblock s'')
                else (True, s'))"

definition mount_start :: "u8 \<Rightarrow> u32 \<Rightarrow> u64 \<Rightarrow> 'd aosfs_state \<Rightarrow> 'd aosfs_state" where
  "mount_start role blkdev_id base_offset s =
     update_active (\<lambda>a. a\<lparr>ai_blkdev_id := blkdev_id, ai_base_offset := base_offset,
         ai_block_backed := True, ai_mounted := True, ai_format_version := AOSFS_VERSION,
         ai_entry_limit := AOSFS_MAX_ENTRIES, ai_next_data_offset := AOSFS_DATA_OFFSET\<rparr>)
       (s\<lparr>g_active := instance_for_role role\<rparr>)"

definition aosfs_mount_role :: "u8 \<Rightarrow> u32 \<Rightarrow> u64 \<Rightarrow> 'd aosfs_state \<Rightarrow> bool \<times> 'd aosfs_state" where
  "aosfs_mount_role role blkdev_id base_offset s =
     (if blkdev_get blkdev_id (fs_blk s) = None then (False, s)
      else let s = mount_start role blkdev_id base_offset s;
               storage_size = active_storage_size s
           in if storage_size < AOSFS_DATA_OFFSET then (False, s)
              else case volume_read AOSFS_SUPER_OFFSET SUPER_BYTES s of
                     (None, s') \<Rightarrow> (False, s')
                   | (Some bs, s') \<Rightarrow>
                       let super = decode_super bs; legacy = legacy_superblock_valid super
                       in if \<not> superblock_valid super \<and> \<not> legacy then mount_blank s'
                          else mount_table legacy (sb_max_entries super) storage_size s')"

definition aosfs_mount_at :: "u32 \<Rightarrow> u64 \<Rightarrow> 'd aosfs_state \<Rightarrow> bool \<times> 'd aosfs_state" where
  "aosfs_mount_at blkdev_id base_offset s = aosfs_mount_role PARTITION_ROLE_ROOT blkdev_id base_offset s"

definition aosfs_mount :: "u32 \<Rightarrow> 'd aosfs_state \<Rightarrow> bool \<times> 'd aosfs_state" where
  "aosfs_mount blkdev_id s = aosfs_mount_at blkdev_id 0 s"

definition format_start :: "u8 \<Rightarrow> u32 \<Rightarrow> u64 \<Rightarrow> 'd aosfs_state \<Rightarrow> 'd aosfs_state" where
  "format_start role blkdev_id base_offset s =
     update_active (\<lambda>_. aosfs_instance_zero\<lparr>ai_mounted := True, ai_role := role, ai_block_backed := True,
         ai_blkdev_id := blkdev_id, ai_base_offset := base_offset, ai_next_inode := AOSFS_DYNAMIC_INO_BASE,
         ai_next_data_offset := AOSFS_DATA_OFFSET, ai_format_version := AOSFS_VERSION,
         ai_entry_limit := AOSFS_MAX_ENTRIES\<rparr>)
       (s\<lparr>g_active := instance_for_role role\<rparr>)"

definition aosfs_format_role :: "u8 \<Rightarrow> u32 \<Rightarrow> u64 \<Rightarrow> 'd aosfs_state \<Rightarrow> bool \<times> 'd aosfs_state" where
  "aosfs_format_role role blkdev_id base_offset s =
     (if blkdev_get blkdev_id (fs_blk s) = None then (False, s)
      else let s = format_start role blkdev_id base_offset s
           in if active_storage_size s < AOSFS_DATA_OFFSET then (False, s)
              else case sync_superblock s of
                     (False, s') \<Rightarrow> (False, s')
                   | (True, s') \<Rightarrow> sync_entries 0 AOSFS_MAX_ENTRIES s')"

section \<open>Operations\<close>

definition aosfs_lookup_path :: "string \<Rightarrow> 'd aosfs_state \<Rightarrow> vfs_node option \<times> 'd aosfs_state" where
  "aosfs_lookup_path path0 s0 =
     (case select_instance_for_path path0 s0 of (path, s) \<Rightarrow>
        case aosfs_find_entry path s of
          Some i \<Rightarrow> (Some (fill_dynamic_node i s), s)
        | None \<Rightarrow>
            if path = [] then (Some (fill_dir_node [] AOSFS_ROOT_INO s), s)
            else case root_dir_index path of
                   Some dir_index \<Rightarrow> (Some (fill_dir_node path (AOSFS_DIR_INO_BASE + of_nat dir_index) s), s)
                 | None \<Rightarrow>
                     (case (case commands_leaf path of None \<Rightarrow> None
                            | Some leaf \<Rightarrow> initrd_get_file (initrd_memory s) (Some leaf) (fs_initrd s)) of
                        Some (data, sz) \<Rightarrow> (Some (fill_file_node path data sz s), s)
                      | None \<Rightarrow>
                          (case initrd_get_file (initrd_memory s) (Some path) (fs_initrd s) of
                             Some (data, sz) \<Rightarrow> (Some (fill_file_node path data sz s), s)
                           | None \<Rightarrow> (None, s))))"

definition new_entry :: "u8 \<Rightarrow> u16 \<Rightarrow> u32 \<Rightarrow> u32 \<Rightarrow> u64 \<Rightarrow> string \<Rightarrow> aosfs_entry" where
  "new_entry kind mode uid gid inode path =
     aosfs_entry_zero\<lparr>ae_in_use := True, ae_kind := kind, ae_mode := mode AND AOSFS_MODE_BITS, ae_uid := uid,
       ae_gid := gid, ae_inode := inode, ae_path := copy_string AOSFS_PATH_MAX path\<rparr>"

text \<open>The body of the allocation loops of \<open>aosfs_create_path_mode\<close> and \<open>aosfs_mkdir_path_mode\<close>.\<close>

definition allocate_entry_at :: "nat \<Rightarrow> u8 \<Rightarrow> u16 \<Rightarrow> u32 \<Rightarrow> u32 \<Rightarrow> string \<Rightarrow> 'd aosfs_state \<Rightarrow> bool \<times> 'd aosfs_state" where
  "allocate_entry_at i kind mode uid gid path s =
     (let s' = set_entry i (new_entry kind mode uid gid (ai_next_inode (active s)) path) s;
          s' = update_active (\<lambda>a. a\<lparr>ai_next_inode := ai_next_inode a + 1\<rparr>) s'
      in case sync_entry i s' of
           (False, s'') \<Rightarrow> (False, set_entry i aosfs_entry_zero s'')
         | (True, s'') \<Rightarrow> (True, s''))"

definition aosfs_create_path_mode ::
  "string \<Rightarrow> u16 \<Rightarrow> u32 \<Rightarrow> u32 \<Rightarrow> 'd aosfs_state \<Rightarrow> vfs_node option \<times> 'd aosfs_state" where
  "aosfs_create_path_mode path0 mode uid gid s0 =
     (if path0 = [] \<or> length path0 \<ge> AOSFS_PATH_MAX then (None, s0)
      else case select_instance_for_path path0 s0 of (path, s) \<Rightarrow>
        if path = [] \<or> length path \<ge> AOSFS_PATH_MAX then (None, s)
        else if commands_leaf path \<noteq> None then (None, s)
        else if \<not> contains_slash path \<and> initrd_get_file (initrd_memory s) (Some path) (fs_initrd s) \<noteq> None then (None, s)
        else case aosfs_parent_path_of path AOSFS_PATH_MAX of
               None \<Rightarrow> (None, s)
             | Some parent \<Rightarrow>
                 if \<not> dir_exists parent s then (None, s)
                 else (case aosfs_find_entry path s of
                   Some i \<Rightarrow> if ae_kind (entry_at i s) = AOSFS_ENTRY_DIRECTORY then (None, s)
                             else (Some (fill_dynamic_node i s), s)
                 | None \<Rightarrow>
                     let file_entry_limit = (if ai_block_backed (active s) then ai_entry_limit (active s)
                                             else AOSFS_MEMORY_FILE_LIMIT)
                     in case find_slot (\<lambda>e. \<not> ae_in_use e) (take file_entry_limit (ai_entries (active s))) of
                          None \<Rightarrow> (None, s)
                        | Some i \<Rightarrow>
                            (case allocate_entry_at i AOSFS_ENTRY_REGULAR mode uid gid path s of
                               (False, s') \<Rightarrow> (None, s')
                             | (True, s') \<Rightarrow> (Some (fill_dynamic_node i s'), s'))))"

definition aosfs_create_path :: "string \<Rightarrow> 'd aosfs_state \<Rightarrow> vfs_node option \<times> 'd aosfs_state" where
  "aosfs_create_path path s = aosfs_create_path_mode path AOSFS_DEFAULT_FILE_MODE 0 0 s"

definition aosfs_mkdir_path_mode :: "string \<Rightarrow> u16 \<Rightarrow> u32 \<Rightarrow> u32 \<Rightarrow> 'd aosfs_state \<Rightarrow> bool \<times> 'd aosfs_state" where
  "aosfs_mkdir_path_mode path0 mode uid gid s0 =
     (if path0 = [] \<or> length path0 \<ge> AOSFS_PATH_MAX then (False, s0)
      else case select_instance_for_path path0 s0 of (path, s) \<Rightarrow>
        if path = [] \<or> length path \<ge> AOSFS_PATH_MAX then (False, s)
        else if aosfs_find_entry path s \<noteq> None \<or> root_dir_index path \<noteq> None then (False, s)
        else if commands_leaf path \<noteq> None \<or> (\<not> contains_slash path \<and> root_name_is_builtin path) then (False, s)
        else case aosfs_parent_path_of path AOSFS_PATH_MAX of
               None \<Rightarrow> (False, s)
             | Some parent \<Rightarrow>
                 if \<not> dir_exists parent s then (False, s)
                 else case find_slot (\<lambda>e. \<not> ae_in_use e) (take (ai_entry_limit (active s)) (ai_entries (active s))) of
                        None \<Rightarrow> (False, s)
                      | Some i \<Rightarrow> allocate_entry_at i AOSFS_ENTRY_DIRECTORY mode uid gid path s)"

definition aosfs_mkdir_path :: "string \<Rightarrow> 'd aosfs_state \<Rightarrow> bool \<times> 'd aosfs_state" where
  "aosfs_mkdir_path path s = aosfs_mkdir_path_mode path AOSFS_DEFAULT_DIRECTORY_MODE 0 0 s"

text \<open>The capacity loop of \<open>reserve_entry_extent\<close>. It starts at \<open>AOSFS_MIN_EXTENT_CAPACITY\<close> or more, so the
  capacity is never zero in it.\<close>

function grow_capacity :: "nat \<Rightarrow> nat \<Rightarrow> nat" where
  "grow_capacity required new_capacity =
     (if 0 < new_capacity \<and> new_capacity < required
      then if new_capacity > AOSFS_MAX_FILE_SIZE div 2 then AOSFS_MAX_FILE_SIZE
           else grow_capacity required (new_capacity * 2)
      else new_capacity)"
  by pat_completeness auto
termination
  by (relation "measure (\<lambda>(required, new_capacity). required - new_capacity)") auto

declare grow_capacity.simps [simp del]

definition extent_capacity :: "nat \<Rightarrow> nat \<Rightarrow> nat" where
  "extent_capacity capacity required =
     grow_capacity required (if capacity < AOSFS_MIN_EXTENT_CAPACITY then AOSFS_MIN_EXTENT_CAPACITY else capacity)"

definition reserve_entry_extent :: "nat \<Rightarrow> nat \<Rightarrow> 'd aosfs_state \<Rightarrow> bool \<times> 'd aosfs_state" where
  "reserve_entry_extent index required s =
     (let e = entry_at index s; old_offset = ae_data_offset e; old_capacity = ae_data_capacity e;
          new_capacity = extent_capacity old_capacity required; next = ai_next_data_offset (active s)
      in if index \<ge> ai_entry_limit (active s) \<or> \<not> ai_block_backed (active s) \<or>
            ai_format_version (active s) < AOSFS_VERSION \<or> required > AOSFS_MAX_FILE_SIZE then (False, s)
         else if required \<le> old_capacity then (True, s)
         else if new_capacity < required \<or> new_capacity > AOSFS_MAX_FILE_SIZE then (False, s)
         else if old_capacity \<noteq> 0 \<and> old_offset \<le> UINT64_MAX - old_capacity \<and> old_offset + old_capacity = next
         then let new_end = (old_offset + new_capacity) mod 2 ^ 64
              in if blkdev_get (ai_blkdev_id (active s)) (fs_blk s) = None \<or> new_end > active_storage_size s then (False, s)
                 else (case sync_entry index (set_entry index (e\<lparr>ae_data_capacity := new_capacity\<rparr>) s) of
                         (False, s') \<Rightarrow> (False, set_entry index ((entry_at index s')\<lparr>ae_data_capacity := old_capacity\<rparr>) s')
                       | (True, s') \<Rightarrow> (True, update_active (\<lambda>a. a\<lparr>ai_next_data_offset := new_end\<rparr>) s'))
         else let new_offset = align_up_u64 next AOSFS_EXTENT_ALIGNMENT
              in if new_offset = UINT64_MAX \<or> new_offset > UINT64_MAX - new_capacity then (False, s)
                 else let new_end = new_offset + new_capacity
                      in if blkdev_get (ai_blkdev_id (active s)) (fs_blk s) = None \<or> new_end > active_storage_size s
                         then (False, s)
                         else (case (if ae_size e = 0 then (True, s) else if old_capacity = 0 then (False, s)
                                     else copy_extent_loop old_offset new_offset 0 (ae_size e) s) of
                             (False, s') \<Rightarrow> (False, s')
                           | (True, s') \<Rightarrow>
                               (case sync_entry index (set_entry index ((entry_at index s')\<lparr>ae_data_offset := new_offset,
                                        ae_data_capacity := new_capacity\<rparr>) s') of
                                  (False, s'') \<Rightarrow> (False, set_entry index ((entry_at index s'')\<lparr>ae_data_offset := old_offset,
                                        ae_data_capacity := old_capacity\<rparr>) s'')
                                | (True, s'') \<Rightarrow> (True, update_active (\<lambda>a. a\<lparr>ai_next_data_offset := new_end\<rparr>) s''))))"

definition aosfs_read_path :: "string \<Rightarrow> nat \<Rightarrow> nat \<Rightarrow> 'd aosfs_state \<Rightarrow> bytes option \<times> 'd aosfs_state" where
  "aosfs_read_path path0 offset len s0 =
     (case select_instance_for_path path0 s0 of (path, s) \<Rightarrow>
        case entry_index (aosfs_find_entry path s) s of
          None \<Rightarrow> (None, s)
        | Some i \<Rightarrow>
            let e = entry_at i s
            in if ae_kind e = AOSFS_ENTRY_DIRECTORY \<or> offset > ae_size e \<or> len > ae_size e - offset then (None, s)
               else if len = 0 then (Some [], s)
               else if ai_block_backed (active s) \<and> ai_format_version (active s) \<ge> AOSFS_VERSION
               then if ae_data_capacity e = 0 \<or> offset > ae_data_capacity e \<or> len > ae_data_capacity e - offset
                    then (None, s)
                    else volume_read (entry_data_offset i s + offset) len s
               else if offset > AOSFS_INLINE_CAPACITY \<or> len > AOSFS_INLINE_CAPACITY - offset then (None, s)
               else (map_option (subarr offset len) (memory_entry_data i s), s))"

definition aosfs_write_path ::
  "string \<Rightarrow> nat \<Rightarrow> bytes \<Rightarrow> 'd aosfs_state \<Rightarrow> (nat \<times> nat) option \<times> 'd aosfs_state" where
  "aosfs_write_path path0 offset buffer s0 =
     (case select_instance_for_path path0 s0 of (path, s) \<Rightarrow>
        case entry_index (aosfs_find_entry path s) s of
          None \<Rightarrow> (None, s)
        | Some i \<Rightarrow>
            let e = entry_at i s; len = length buffer; write_end = offset + len;
                finish = (\<lambda>s. let e = entry_at i s;
                    s' = (if write_end > ae_size e then set_entry i (e\<lparr>ae_size := write_end\<rparr>) s else s)
                  in case sync_entry i s' of
                       (False, s'') \<Rightarrow> (None, s'')
                     | (True, s'') \<Rightarrow> (Some (len, ae_size (entry_at i s'')), s''))
            in if ae_kind e = AOSFS_ENTRY_DIRECTORY \<or> offset > AOSFS_MAX_FILE_SIZE \<or> len > AOSFS_MAX_FILE_SIZE - offset
               then (None, s)
               else if len = 0 then (Some (0, ae_size e), s)
               else if ai_block_backed (active s) \<and> ai_format_version (active s) \<ge> AOSFS_VERSION
               then (case reserve_entry_extent i write_end s of
                       (False, s') \<Rightarrow> (None, s')
                     | (True, s') \<Rightarrow>
                         (case volume_write (entry_data_offset i s' + offset) buffer s' of
                            (False, s'') \<Rightarrow> (None, s'')
                          | (True, s'') \<Rightarrow> finish s''))
               else if offset > AOSFS_INLINE_CAPACITY \<or> len > AOSFS_INLINE_CAPACITY - offset then (None, s)
               else (case memory_entry_data i s of
                       None \<Rightarrow> (None, s)
                     | Some d \<Rightarrow> finish (set_memory_entry_data i (overwrite offset buffer d) s)))"

definition aosfs_truncate_path :: "string \<Rightarrow> 'd aosfs_state \<Rightarrow> bool \<times> 'd aosfs_state" where
  "aosfs_truncate_path path0 s0 =
     (case select_instance_for_path path0 s0 of (path, s) \<Rightarrow>
        case aosfs_find_entry path s of
          None \<Rightarrow> (False, s)
        | Some i \<Rightarrow>
            if ae_kind (entry_at i s) \<noteq> AOSFS_ENTRY_REGULAR then (False, s)
            else let s' = set_entry i ((entry_at i s)\<lparr>ae_size := 0\<rparr>) s;
                     s' = (if \<not> ai_block_backed (active s') \<and> memory_entry_data i s' \<noteq> None
                           then set_memory_entry_data i (replicate AOSFS_INLINE_CAPACITY 0) s' else s')
                 in sync_entry i s')"

text \<open>The zero-filling loop of \<open>aosfs_resize_path\<close>.\<close>

function zero_fill_loop :: "nat \<Rightarrow> nat \<Rightarrow> nat \<Rightarrow> 'd aosfs_state \<Rightarrow> bool \<times> 'd aosfs_state" where
  "zero_fill_loop i position sz s =
     (if position < sz
      then let chunk = (if sz - position > ZERO_CHUNK_BYTES then ZERO_CHUNK_BYTES else sz - position)
           in case volume_write (entry_data_offset i s + position) (replicate chunk 0) s of
                (False, s') \<Rightarrow> (False, s')
              | (True, s') \<Rightarrow> zero_fill_loop i (position + chunk) sz s'
      else (True, s))"
  by pat_completeness auto
termination
  by (relation "measure (\<lambda>(i, position, sz, s). sz - position)")
    (auto simp: ZERO_CHUNK_BYTES_def split: if_splits)

declare zero_fill_loop.simps [simp del]

definition resize_grow :: "nat \<Rightarrow> nat \<Rightarrow> 'd aosfs_state \<Rightarrow> bool \<times> 'd aosfs_state" where
  "resize_grow i sz s =
     (let old_size = ae_size (entry_at i s)
      in if ai_block_backed (active s) \<and> ai_format_version (active s) \<ge> AOSFS_VERSION
         then (case reserve_entry_extent i sz s of
                 (False, s') \<Rightarrow> (False, s')
               | (True, s') \<Rightarrow> zero_fill_loop i old_size sz s')
         else if sz > AOSFS_INLINE_CAPACITY then (False, s)
         else case memory_entry_data i s of
                None \<Rightarrow> (False, s)
              | Some d \<Rightarrow> (True, set_memory_entry_data i (overwrite old_size (replicate (sz - old_size) 0) d) s))"

definition aosfs_resize_path :: "string \<Rightarrow> nat \<Rightarrow> 'd aosfs_state \<Rightarrow> bool \<times> 'd aosfs_state" where
  "aosfs_resize_path path0 sz s0 =
     (if sz > AOSFS_MAX_FILE_SIZE then (False, s0)
      else case select_instance_for_path path0 s0 of (path, s) \<Rightarrow>
        case entry_index (aosfs_find_entry path s) s of
          None \<Rightarrow> (False, s)
        | Some i \<Rightarrow>
            if ae_kind (entry_at i s) \<noteq> AOSFS_ENTRY_REGULAR then (False, s)
            else case (if sz > ae_size (entry_at i s) then resize_grow i sz s else (True, s)) of
                   (False, s') \<Rightarrow> (False, s')
                 | (True, s') \<Rightarrow> sync_entry i (set_entry i ((entry_at i s')\<lparr>ae_size := sz\<rparr>) s'))"

definition aosfs_unlink_path :: "string \<Rightarrow> 'd aosfs_state \<Rightarrow> bool \<times> 'd aosfs_state" where
  "aosfs_unlink_path path0 s0 =
     (if path0 = [] then (False, s0)
      else case select_instance_for_path path0 s0 of (path, s) \<Rightarrow>
        if path = [] then (False, s)
        else case entry_index (aosfs_find_entry path s) s of
          None \<Rightarrow> (False, s)
        | Some i \<Rightarrow>
            if ae_kind (entry_at i s) = AOSFS_ENTRY_DIRECTORY then (False, s)
            else sync_entry i (set_entry i aosfs_entry_zero s))"

definition aosfs_rmdir_path :: "string \<Rightarrow> 'd aosfs_state \<Rightarrow> bool \<times> 'd aosfs_state" where
  "aosfs_rmdir_path path0 s0 =
     (if path0 = [] then (False, s0)
      else case select_instance_for_path path0 s0 of (path, s) \<Rightarrow>
        if path = [] then (False, s)
        else if root_dir_index path \<noteq> None then (False, s)
        else case entry_index (aosfs_find_entry path s) s of
          None \<Rightarrow> (False, s)
        | Some i \<Rightarrow>
            if ae_kind (entry_at i s) \<noteq> AOSFS_ENTRY_DIRECTORY then (False, s)
            else if dynamic_dir_has_children path s then (False, s)
            else sync_entry i (set_entry i aosfs_entry_zero s))"

definition aosfs_chmod_path :: "string \<Rightarrow> u16 \<Rightarrow> 'd aosfs_state \<Rightarrow> bool \<times> 'd aosfs_state" where
  "aosfs_chmod_path path0 mode s0 =
     (case select_instance_for_path path0 s0 of (path, s) \<Rightarrow>
        case entry_index (aosfs_find_entry path s) s of
          None \<Rightarrow> (False, s)
        | Some i \<Rightarrow> sync_entry i (set_entry i ((entry_at i s)\<lparr>ae_mode := mode AND AOSFS_MODE_BITS\<rparr>) s))"

definition aosfs_chown_path :: "string \<Rightarrow> u32 \<Rightarrow> u32 \<Rightarrow> 'd aosfs_state \<Rightarrow> bool \<times> 'd aosfs_state" where
  "aosfs_chown_path path0 uid gid s0 =
     (case select_instance_for_path path0 s0 of (path, s) \<Rightarrow>
        case entry_index (aosfs_find_entry path s) s of
          None \<Rightarrow> (False, s)
        | Some i \<Rightarrow> sync_entry i (set_entry i ((entry_at i s)\<lparr>ae_uid := uid, ae_gid := gid\<rparr>) s))"

definition aosfs_symlink_path :: "string \<Rightarrow> string \<Rightarrow> u32 \<Rightarrow> u32 \<Rightarrow> 'd aosfs_state \<Rightarrow> bool \<times> 'd aosfs_state" where
  "aosfs_symlink_path target path0 uid gid s0 =
     (if target = [] \<or> length target \<ge> AOSFS_PATH_MAX then (False, s0)
      else case aosfs_create_path_mode path0 AOSFS_DEFAULT_SYMLINK_MODE uid gid s0 of
          (None, s) \<Rightarrow> (False, s)
        | (Some node, s1) \<Rightarrow>
            (case select_instance_for_path path0 s1 of (path, s) \<Rightarrow>
               let fail = (\<lambda>s. (False, snd (aosfs_unlink_path path0 s)))
               in case entry_index (aosfs_find_entry path s) s of
                    None \<Rightarrow> fail s
                  | Some i \<Rightarrow>
                      if ae_kind (entry_at i s) \<noteq> AOSFS_ENTRY_REGULAR then fail s
                      else (case sync_entry i (set_entry i ((entry_at i s)\<lparr>ae_kind := AOSFS_ENTRY_SYMLINK,
                               ae_mode := AOSFS_DEFAULT_SYMLINK_MODE\<rparr>) s) of
                              (False, s') \<Rightarrow> fail s'
                            | (True, s') \<Rightarrow>
                                (case aosfs_write_path path0 0 (map of_char target) s' of
                                   (None, s'') \<Rightarrow> fail s''
                                 | (Some (written, new_size), s'') \<Rightarrow>
                                     if written \<noteq> length target then fail s'' else (True, s'')))))"

definition aosfs_readlink_path :: "string \<Rightarrow> nat \<Rightarrow> 'd aosfs_state \<Rightarrow> bytes option \<times> 'd aosfs_state" where
  "aosfs_readlink_path path0 capacity s0 =
     (case select_instance_for_path path0 s0 of (path, s) \<Rightarrow>
        case entry_index (aosfs_find_entry path s) s of
          None \<Rightarrow> (None, s)
        | Some i \<Rightarrow>
            if ae_kind (entry_at i s) \<noteq> AOSFS_ENTRY_SYMLINK then (None, s)
            else let sz = (if ae_size (entry_at i s) < capacity then ae_size (entry_at i s) else capacity)
                 in if sz = 0 then (Some [], s) else aosfs_read_path path0 0 sz s)"

text \<open>The scans of \<open>aosfs_dirent_at_index\<close>: over the table, and over the initial RAM disk.\<close>

fun child_scan :: "(aosfs_entry \<Rightarrow> string option) \<Rightarrow> nat \<Rightarrow> nat \<Rightarrow> aosfs_entry list \<Rightarrow> (string \<times> aosfs_entry) + nat" where
  "child_scan child seen index [] = Inr seen"
| "child_scan child seen index (e # es) =
     (case child e of None \<Rightarrow> child_scan child seen index es
      | Some name \<Rightarrow> if seen = index then Inl (name, e) else child_scan child (seen + 1) index es)"

definition table_child :: "string \<Rightarrow> aosfs_entry \<Rightarrow> string option" where
  "table_child path e = (if ae_in_use e then immediate_child_name path (ae_path e) else None)"

definition root_child :: "aosfs_entry \<Rightarrow> string option" where
  "root_child e = (case table_child [] e of None \<Rightarrow> None
     | Some child \<Rightarrow> if root_name_is_builtin child then None else Some child)"

function initrd_scan :: "nat \<Rightarrow> nat \<Rightarrow> nat \<Rightarrow> 'd aosfs_state \<Rightarrow> (string \<times> u32) option" where
  "initrd_scan initrd_index index name_buf_size s =
     (case initrd_get_entry (initrd_memory s) initrd_index name_buf_size (fs_initrd s) of
        None \<Rightarrow> None
      | Some (name, sz) \<Rightarrow>
          if root_name_is_builtin name \<or> dynamic_child_seen [] name s
          then initrd_scan (initrd_index + 1) index name_buf_size s
          else if index = 0 then Some (name, sz)
          else initrd_scan (initrd_index + 1) (index - 1) name_buf_size s)"
  by pat_completeness auto
termination
  by (relation "measure (\<lambda>(initrd_index, index, n, s). g_initrd_end (fs_initrd s) - g_initrd_start (fs_initrd s) - initrd_index)")
    (auto dest!: initrd_get_entry_bound)

declare initrd_scan.simps [simp del]

definition entry_dirent :: "nat \<Rightarrow> string \<times> aosfs_entry \<Rightarrow> (string \<times> nat \<times> u8) option" where
  "entry_dirent name_buf_size = (\<lambda>(child, e).
     if length child \<ge> name_buf_size then None else Some (child, ae_size e, entry_dirent_type e))"

definition aosfs_dirent_at_index ::
  "string \<Rightarrow> nat \<Rightarrow> nat \<Rightarrow> 'd aosfs_state \<Rightarrow> (string \<times> nat \<times> u8) option \<times> 'd aosfs_state" where
  "aosfs_dirent_at_index path0 index name_buf_size s0 =
     (if name_buf_size = 0 then (None, s0)
      else case select_instance_for_path path0 s0 of (path, s) \<Rightarrow>
        let table = take (ai_entry_limit (active s)) (ai_entries (active s))
        in (if index = 0 then Some (copy_string name_buf_size ''.'', 0, LINUX_DTYPE_DIR)
            else if index = 1 then Some (copy_string name_buf_size ''..'', 0, LINUX_DTYPE_DIR)
            else let index = index - 2
                 in if path = []
                    then if index < length g_root_dirs
                         then Some (copy_string name_buf_size (g_root_dirs ! index), 0, LINUX_DTYPE_DIR)
                         else let index = index - length g_root_dirs
                              in (case child_scan root_child 0 index table of
                                    Inl found \<Rightarrow> entry_dirent name_buf_size found
                                  | Inr seen \<Rightarrow>
                                      map_option (\<lambda>(name, sz). (name, unat sz, LINUX_DTYPE_REG))
                                        (initrd_scan 0 (index - seen) name_buf_size s))
                    else (case child_scan (table_child path) 0 index table of
                            Inl found \<Rightarrow> entry_dirent name_buf_size found
                          | Inr seen \<Rightarrow>
                              if path_equals path ''commands''
                              then map_option (\<lambda>(name, sz). (name, unat sz, LINUX_DTYPE_REG))
                                     (initrd_get_entry (initrd_memory s) (index - seen) name_buf_size (fs_initrd s))
                              else None), s))"

end
