(* ===== verification/Vfs.thy ===== *)
theory Vfs
  imports Paths Tmpfs Aosfs
begin

text \<open>
  The virtual file system, \<open>kernel/vfs.c\<close>: path normalisation, the mount table, lookup through
  mounts and symbolic links, and the operations on nodes and paths that dispatch to the file systems.

  The state joins the mount table with the states of tmpfs and AOSFS. The FAT32 and ext4 drivers are a
  parameter \<open>drv\<close> on a state of their own, and so is the number \<open>VFS_DEV_URANDOM\<close>, which no header
  of the repository defines; \<open>vs_command\<close> is what \<open>process_get_command\<close> returns.
  Lookups return the state as well, because AOSFS remembers the instance it selected and reading a
  link reads the device. Functions that the sources share by name with other files carry the prefix
  \<open>vfs_\<close>.
\<close>

definition MAX_VFS_PATH :: nat where "MAX_VFS_PATH = 256"
definition VFS_MAX_MOUNTS :: nat where "VFS_MAX_MOUNTS = 12"
definition VFS_SYMLINK_LIMIT :: nat where "VFS_SYMLINK_LIMIT = 16"
definition VFS_SYNTH_ROOT_INO :: u64 where "VFS_SYNTH_ROOT_INO = 1"
definition VFS_SYNTH_MNT_INO :: u64 where "VFS_SYNTH_MNT_INO = 2"
definition VFS_SYNTH_DYNAMIC_DIR_BASE :: u64 where "VFS_SYNTH_DYNAMIC_DIR_BASE = 0x2000"
definition VFS_DEV_CONSOLE :: u64 where "VFS_DEV_CONSOLE = 1"
definition VFS_DEV_TTY0 :: u64 where "VFS_DEV_TTY0 = 2"
definition VFS_DEV_NULL :: u64 where "VFS_DEV_NULL = 3"
definition LINUX_R_OK :: u64 where "LINUX_R_OK = 4"
definition LINUX_W_OK :: u64 where "LINUX_W_OK = 2"
definition LINUX_X_OK :: u64 where "LINUX_X_OK = 1"

record vfs_mount_entry =
  vm_in_use :: bool
  vm_backend :: vfs_backend
  vm_path :: string
  vm_backend_root :: string

definition vfs_mount_zero :: vfs_mount_entry where
  "vfs_mount_zero = \<lparr>vm_in_use = False, vm_backend = VFS_BACKEND_NONE, vm_path = [], vm_backend_root = []\<rparr>"

record vfs_mount_info =
  mi_backend :: vfs_backend
  mi_path :: string
  mi_backend_root :: string

text \<open>The interfaces of the FAT32 and ext4 drivers.\<close>

record 'o disk_fs =
  df_lookup_path :: "string \<Rightarrow> 'o \<Rightarrow> (bool \<times> u32 \<times> u32) option \<times> 'o"
  df_read_file :: "u32 \<Rightarrow> u32 \<Rightarrow> nat \<Rightarrow> nat \<Rightarrow> 'o \<Rightarrow> bytes option \<times> 'o"
  df_write_path :: "string \<Rightarrow> nat \<Rightarrow> bytes \<Rightarrow> 'o \<Rightarrow> (nat \<times> nat) option \<times> 'o"
  df_dirent_at_index :: "string \<Rightarrow> nat \<Rightarrow> nat \<Rightarrow> 'o \<Rightarrow> (string \<times> nat \<times> u8) option \<times> 'o"

record 'o disk_drivers =
  drv_fat32 :: "'o disk_fs"
  drv_ext4 :: "'o disk_fs"
  dev_urandom :: u64

record ('d, 'o) vfs_state =
  g_mounts :: "vfs_mount_entry list"
  vs_tmpfs :: tmpfs_state
  vs_aosfs :: "'d aosfs_state"
  vs_disk :: 'o
  vs_command :: string

section \<open>Paths\<close>

definition component_is_dot :: "string \<Rightarrow> bool" where
  "component_is_dot s \<longleftrightarrow> s = ''.''"

definition component_is_dotdot :: "string \<Rightarrow> bool" where
  "component_is_dotdot s \<longleftrightarrow> s = ''..''"

definition pop_path_component :: "string \<Rightarrow> string" where
  "pop_path_component out = butlast (rev (dropWhile (\<lambda>c. c \<noteq> CHR ''/'') (rev out)))"

definition append_path_component :: "string \<Rightarrow> nat \<Rightarrow> string \<Rightarrow> string option" where
  "append_path_component out out_size component =
     (if out \<noteq> [] \<and> length out + 1 \<ge> out_size then None
      else let out = (if out \<noteq> [] then out @ ''/'' else out)
           in if length out + length component \<ge> out_size then None else Some (out @ component))"

function normalize_loop :: "string \<Rightarrow> string \<Rightarrow> nat \<Rightarrow> string option" where
  "normalize_loop cursor out out_size =
     (let cursor = dropWhile (\<lambda>c. c = CHR ''/'') cursor;
          component = takeWhile (\<lambda>c. c \<noteq> CHR ''/'') cursor;
          next_cursor = dropWhile (\<lambda>c. c \<noteq> CHR ''/'') cursor
      in if component = [] then Some out
         else if component_is_dot component then normalize_loop next_cursor out out_size
         else if component_is_dotdot component then normalize_loop next_cursor (pop_path_component out) out_size
         else case append_path_component out out_size component of
                None \<Rightarrow> None
              | Some out' \<Rightarrow> normalize_loop next_cursor out' out_size)"
  by auto
termination
  by (relation "measure (\<lambda>(cursor, out, out_size). length cursor)")
    (auto simp del: takeWhile_eq_Nil_iff intro: next_component_shorter)

declare normalize_loop.simps [simp del]

definition normalize_path :: "string option \<Rightarrow> nat \<Rightarrow> string option" where
  "normalize_path path out_size =
     (case path of None \<Rightarrow> None
      | Some path \<Rightarrow> if out_size = 0 then None else normalize_loop path [] out_size)"

definition vfs_path_starts_with_component :: "string \<Rightarrow> string \<Rightarrow> bool" where
  "vfs_path_starts_with_component path prefix \<longleftrightarrow>
     prefix = [] \<or> (take (length prefix) path = prefix \<and>
       (let rest = drop (length prefix) path in rest = [] \<or> hd rest = CHR ''/''))"

definition vfs_parent_path_of :: "string \<Rightarrow> nat \<Rightarrow> string option" where
  "vfs_parent_path_of path out_size =
     (if out_size = 0 then None
      else if path = [] then Some []
      else let slash_pos = length (dropWhile (\<lambda>c. c \<noteq> CHR ''/'') (rev path))
           in if slash_pos = 0 then Some []
              else if slash_pos - 1 \<ge> out_size then None
              else Some (take (slash_pos - 1) path))"

section \<open>The mount table\<close>

definition immediate_mount_child :: "string \<Rightarrow> string \<Rightarrow> string option" where
  "immediate_mount_child parent mount_path =
     (let rest = (if parent = [] then Some mount_path
                  else if \<not> vfs_path_starts_with_component mount_path parent then None
                  else case drop (length parent) mount_path of
                         [] \<Rightarrow> None | c # cs \<Rightarrow> if c \<noteq> CHR ''/'' then None else Some cs)
      in case rest of None \<Rightarrow> None
         | Some rest \<Rightarrow> let child = takeWhile (\<lambda>c. c \<noteq> CHR ''/'') rest in if child = [] then None else Some child)"

definition mount_child_seen_before :: "string \<Rightarrow> vfs_mount_entry list \<Rightarrow> string \<Rightarrow> bool" where
  "mount_child_seen_before parent earlier child \<longleftrightarrow>
     list_ex (\<lambda>m. vm_in_use m \<and> immediate_mount_child parent (vm_path m) = Some child) earlier"

text \<open>The loop of \<open>dirent_mount_child_at\<close> over the table; \<open>earlier\<close> are the entries before the current one.\<close>

fun dirent_mount_loop ::
  "string \<Rightarrow> nat \<Rightarrow> nat \<Rightarrow> nat \<Rightarrow> vfs_mount_entry list \<Rightarrow> vfs_mount_entry list \<Rightarrow> (string \<times> nat \<times> u8) option" where
  "dirent_mount_loop parent index name_buf_size seen earlier [] = None"
| "dirent_mount_loop parent index name_buf_size seen earlier (m # ms) =
     (if \<not> vm_in_use m then dirent_mount_loop parent index name_buf_size seen (earlier @ [m]) ms
      else case immediate_mount_child parent (vm_path m) of
             None \<Rightarrow> dirent_mount_loop parent index name_buf_size seen (earlier @ [m]) ms
           | Some child \<Rightarrow>
               if mount_child_seen_before parent earlier child
               then dirent_mount_loop parent index name_buf_size seen (earlier @ [m]) ms
               else if seen = index
               then (if name_buf_size = 0 \<or> length child \<ge> name_buf_size then None
                     else Some (child, 0, LINUX_DTYPE_DIR))
               else dirent_mount_loop parent index name_buf_size (seen + 1) (earlier @ [m]) ms)"

definition dirent_mount_child_at ::
  "string \<Rightarrow> nat \<Rightarrow> nat \<Rightarrow> vfs_mount_entry list \<Rightarrow> (string \<times> nat \<times> u8) option" where
  "dirent_mount_child_at parent index name_buf_size mounts = dirent_mount_loop parent index name_buf_size 0 [] mounts"

text \<open>There are at most as many children as table entries, so that the counting loop ends.\<close>

lemma dirent_mount_loop_bound:
  "dirent_mount_loop parent index n seen earlier ms \<noteq> None \<Longrightarrow> index < seen + length ms"
  by (induction parent index n seen earlier ms rule: dirent_mount_loop.induct)
    (fastforce split: if_splits option.splits)+

function mount_child_count_loop :: "string \<Rightarrow> vfs_mount_entry list \<Rightarrow> nat \<Rightarrow> nat" where
  "mount_child_count_loop parent mounts count =
     (if dirent_mount_child_at parent count 64 mounts \<noteq> None
      then mount_child_count_loop parent mounts (count + 1) else count)"
  by auto
termination
  by (relation "measure (\<lambda>(parent, mounts, count). length mounts - count)")
    (use dirent_mount_loop_bound in \<open>force simp: dirent_mount_child_at_def\<close>)+

declare mount_child_count_loop.simps [simp del]

definition mount_child_count :: "string \<Rightarrow> vfs_mount_entry list \<Rightarrow> nat" where
  "mount_child_count parent mounts = mount_child_count_loop parent mounts 0"

definition synthetic_dir_exists :: "string \<Rightarrow> vfs_mount_entry list \<Rightarrow> bool" where
  "synthetic_dir_exists normalized mounts \<longleftrightarrow>
     normalized = [] \<or> path_equals normalized ''mnt'' \<or> path_equals normalized ''dev'' \<or>
     list_ex (\<lambda>m. vm_in_use m \<and> (case vfs_parent_path_of (vm_path m) MAX_VFS_PATH of
         None \<Rightarrow> False | Some parent \<Rightarrow> path_equals parent normalized)) mounts"

definition make_mount_backend_path :: "string \<Rightarrow> string \<Rightarrow> string \<Rightarrow> nat \<Rightarrow> string option" where
  "make_mount_backend_path normalized mount_path backend_root out_size =
     (if out_size = 0 \<or> \<not> vfs_path_starts_with_component normalized mount_path then None
      else let rest = dropWhile (\<lambda>c. c = CHR ''/'') (drop (length mount_path) normalized)
           in if rest = [] then Some (copy_string out_size backend_root)
              else if backend_root = [] then Some (copy_string out_size rest)
              else if length backend_root + 1 \<ge> out_size then None
              else Some (backend_root @ CHR ''/'' # copy_string (out_size - length backend_root - 1) rest))"

fun best_mount :: "string \<Rightarrow> vfs_mount_entry list \<Rightarrow> vfs_mount_entry option \<Rightarrow> vfs_mount_entry option" where
  "best_mount normalized [] best = best"
| "best_mount normalized (m # ms) best =
     (if \<not> vm_in_use m \<or> \<not> vfs_path_starts_with_component normalized (vm_path m) then best_mount normalized ms best
      else best_mount normalized ms
        (case best of None \<Rightarrow> Some m
         | Some b \<Rightarrow> if length (vm_path m) > length (vm_path b) then Some m else Some b))"

definition find_mount_for_path :: "string \<Rightarrow> nat \<Rightarrow> vfs_mount_entry list \<Rightarrow> (vfs_mount_entry \<times> string) option" where
  "find_mount_for_path normalized backend_path_size mounts =
     (case best_mount normalized mounts None of
        None \<Rightarrow> None
      | Some best \<Rightarrow>
          (case make_mount_backend_path normalized (vm_path best) (vm_backend_root best) backend_path_size of
             None \<Rightarrow> None | Some backend_path \<Rightarrow> Some (best, backend_path)))"

definition fill_synthetic_dir :: "u64 \<Rightarrow> string \<Rightarrow> vfs_node" where
  "fill_synthetic_dir inode path = vfs_node_zero\<lparr>n_type := VFS_NODE_TYPE_DIRECTORY,
     n_backend := VFS_BACKEND_SYNTHETIC, n_mode := 0x1ED, n_inode := inode, n_path := copy_string VFS_PATH_BYTES path\<rparr>"

definition fill_synthetic_char_device :: "u64 \<Rightarrow> string \<Rightarrow> vfs_node" where
  "fill_synthetic_char_device device_id path = vfs_node_zero\<lparr>n_type := VFS_NODE_TYPE_CHAR_DEVICE,
     n_backend := VFS_BACKEND_SYNTHETIC, n_mode := 0x1B6, n_inode := 0xD000 + device_id,
     n_u := U_first_cluster (ucast device_id), n_path := copy_string VFS_PATH_BYTES path\<rparr>"

definition vfs_mount :: "string option \<Rightarrow> vfs_backend \<Rightarrow> string option \<Rightarrow> vfs_mount_entry list \<Rightarrow> bool \<times> vfs_mount_entry list" where
  "vfs_mount path backend backend_root mounts =
     (case (normalize_path path MAX_VFS_PATH, normalize_path backend_root MAX_VFS_PATH) of
        (Some normalized, Some root_normalized) \<Rightarrow>
          (case find_slot (\<lambda>m. vm_in_use m \<and> path_equals (vm_path m) normalized) mounts of
             Some i \<Rightarrow> (True, mounts[i := (mounts ! i)\<lparr>vm_backend := backend,
                         vm_backend_root := copy_string MAX_VFS_PATH root_normalized\<rparr>])
           | None \<Rightarrow>
               (case find_slot (\<lambda>m. \<not> vm_in_use m) mounts of
                  Some i \<Rightarrow> (True, mounts[i := \<lparr>vm_in_use = True, vm_backend = backend,
                      vm_path = copy_string MAX_VFS_PATH normalized,
                      vm_backend_root = copy_string MAX_VFS_PATH root_normalized\<rparr>])
                | None \<Rightarrow> (False, mounts)))
      | _ \<Rightarrow> (False, mounts))"

definition init_mount_list :: "(string \<times> vfs_backend \<times> string) list" where
  "init_mount_list =
     [(''/'', VFS_BACKEND_AOSFS, ''/''), (''commands'', VFS_BACKEND_INITRD, ''/''), (''lib'', VFS_BACKEND_AOSFS, ''lib''),
      (''lib64'', VFS_BACKEND_AOSFS, ''lib64''), (''main'', VFS_BACKEND_AOSFS, ''main''), (''etc'', VFS_BACKEND_AOSFS, ''etc''),
      (''tmp'', VFS_BACKEND_TMPFS, ''tmp''), (''proc'', VFS_BACKEND_PROCFS, ''proc''), (''trash'', VFS_BACKEND_FAT32, []),
      (''fat32'', VFS_BACKEND_FAT32, ''fat32''), (''mnt/fat32'', VFS_BACKEND_FAT32, ''fat32''),
      (''ext4'', VFS_BACKEND_EXT4, ''ext4''), (''mnt/ext4'', VFS_BACKEND_EXT4, ''ext4'')]"

definition vfs_init_mounts :: "('d, 'o) vfs_state \<Rightarrow> ('d, 'o) vfs_state" where
  "vfs_init_mounts s = s\<lparr>vs_aosfs := aosfs_init (vs_aosfs s),
     g_mounts := fold (\<lambda>(path, backend, root) ms. snd (vfs_mount (Some path) backend (Some root) ms))
       init_mount_list (replicate VFS_MAX_MOUNTS vfs_mount_zero)\<rparr>"

fun mount_info_loop :: "nat \<Rightarrow> nat \<Rightarrow> vfs_mount_entry list \<Rightarrow> vfs_mount_info option" where
  "mount_info_loop seen index [] = None"
| "mount_info_loop seen index (m # ms) =
     (if \<not> vm_in_use m then mount_info_loop seen index ms
      else if seen = index
      then Some \<lparr>mi_backend = vm_backend m, mi_path = copy_string 64 (vm_path m),
             mi_backend_root = copy_string 64 (vm_backend_root m)\<rparr>
      else mount_info_loop (seen + 1) index ms)"

definition vfs_mount_info_at :: "nat \<Rightarrow> vfs_mount_entry list \<Rightarrow> vfs_mount_info option" where
  "vfs_mount_info_at index mounts = mount_info_loop 0 index mounts"

section \<open>Lookup\<close>

text \<open>Running an operation of one file system on the joint state.\<close>

definition on_aosfs :: "('d aosfs_state \<Rightarrow> 'r \<times> 'd aosfs_state) \<Rightarrow> ('d, 'o) vfs_state \<Rightarrow> 'r \<times> ('d, 'o) vfs_state" where
  "on_aosfs f s = (case f (vs_aosfs s) of (r, a) \<Rightarrow> (r, s\<lparr>vs_aosfs := a\<rparr>))"

definition on_tmpfs :: "(tmpfs_state \<Rightarrow> 'r \<times> tmpfs_state) \<Rightarrow> ('d, 'o) vfs_state \<Rightarrow> 'r \<times> ('d, 'o) vfs_state" where
  "on_tmpfs f s = (case f (vs_tmpfs s) of (r, t) \<Rightarrow> (r, s\<lparr>vs_tmpfs := t\<rparr>))"

definition on_disk :: "('o \<Rightarrow> 'r \<times> 'o) \<Rightarrow> ('d, 'o) vfs_state \<Rightarrow> 'r \<times> ('d, 'o) vfs_state" where
  "on_disk f s = (case f (vs_disk s) of (r, d) \<Rightarrow> (r, s\<lparr>vs_disk := d\<rparr>))"

definition lookup_fat32_node :: "'o disk_drivers \<Rightarrow> string \<Rightarrow> ('d, 'o) vfs_state \<Rightarrow> vfs_node option \<times> ('d, 'o) vfs_state" where
  "lookup_fat32_node drv normalized s =
     (case on_disk (df_lookup_path (drv_fat32 drv) normalized) s of
        (None, s') \<Rightarrow> (None, s')
      | (Some (is_dir, first_cluster, sz), s') \<Rightarrow>
          (Some (vfs_node_zero\<lparr>n_type := (if is_dir then VFS_NODE_TYPE_DIRECTORY else VFS_NODE_TYPE_REGULAR),
             n_backend := VFS_BACKEND_FAT32, n_mode := (if is_dir then 0x1ED else 0x1A4), n_size := sz,
             n_inode := (if first_cluster \<noteq> 0 then ucast first_cluster else 3), n_u := U_first_cluster first_cluster,
             n_path := copy_string VFS_PATH_BYTES normalized\<rparr>), s'))"

definition lookup_ext4_node :: "'o disk_drivers \<Rightarrow> string \<Rightarrow> ('d, 'o) vfs_state \<Rightarrow> vfs_node option \<times> ('d, 'o) vfs_state" where
  "lookup_ext4_node drv normalized s =
     (case on_disk (df_lookup_path (drv_ext4 drv) normalized) s of
        (None, s') \<Rightarrow> (None, s')
      | (Some (is_dir, inode, sz), s') \<Rightarrow>
          (Some (vfs_node_zero\<lparr>n_type := (if is_dir then VFS_NODE_TYPE_DIRECTORY else VFS_NODE_TYPE_REGULAR),
             n_backend := VFS_BACKEND_EXT4, n_mode := (if is_dir then 0x1ED else 0x1A4), n_size := sz,
             n_inode := ucast inode, n_path := copy_string VFS_PATH_BYTES normalized\<rparr>), s'))"

definition lookup_tmpfs_node :: "string \<Rightarrow> tmpfs_state \<Rightarrow> vfs_node option" where
  "lookup_tmpfs_node normalized t =
     (if \<not> vfs_path_starts_with_component normalized ''tmp'' then None else tmpfs_lookup_path (Some normalized) t)"

definition lookup_procfs_node :: "string \<Rightarrow> string \<Rightarrow> vfs_node option" where
  "lookup_procfs_node normalized command =
     (if path_equals normalized ''proc'' then Some ((fill_synthetic_dir 0x50524F43 normalized)\<lparr>n_backend := VFS_BACKEND_PROCFS\<rparr>)
      else if path_equals normalized ''proc/self''
      then Some ((fill_synthetic_dir 0x50524F44 normalized)\<lparr>n_backend := VFS_BACKEND_PROCFS\<rparr>)
      else if \<not> path_equals normalized ''proc/self/exe'' then None
      else if command = [] then None
      else Some (vfs_node_zero\<lparr>n_type := VFS_NODE_TYPE_SYMLINK, n_backend := VFS_BACKEND_PROCFS, n_mode := 0x1FF,
             n_size := of_nat (length command) + (if hd command = CHR ''/'' then 0 else 1), n_inode := 0x50524F45,
             n_path := copy_string VFS_PATH_BYTES normalized\<rparr>))"

definition lookup_initrd_node :: "string \<Rightarrow> 'd aosfs_state \<Rightarrow> vfs_node option" where
  "lookup_initrd_node normalized a =
     (if normalized = []
      then Some (vfs_node_zero\<lparr>n_type := VFS_NODE_TYPE_DIRECTORY, n_backend := VFS_BACKEND_INITRD, n_mode := 0x1ED,
             n_inode := 0x1A17D, n_path := copy_string VFS_PATH_BYTES []\<rparr>)
      else case initrd_get_file (initrd_memory a) (Some normalized) (fs_initrd a) of
             None \<Rightarrow> None
           | Some (data, sz) \<Rightarrow>
               Some (vfs_node_zero\<lparr>n_type := VFS_NODE_TYPE_REGULAR, n_backend := VFS_BACKEND_INITRD, n_mode := 0x16D,
                 n_size := sz, n_inode := 0x1A000 + of_nat data, n_u := U_data (of_nat data),
                 n_path := copy_string VFS_PATH_BYTES normalized\<rparr>))"

definition lookup_normalized :: "'o disk_drivers \<Rightarrow> string \<Rightarrow> ('d, 'o) vfs_state \<Rightarrow> vfs_node option \<times> ('d, 'o) vfs_state" where
  "lookup_normalized drv normalized s =
     (if normalized = [] then on_aosfs (aosfs_lookup_path []) s
      else if path_equals normalized ''dev'' then (Some (fill_synthetic_dir 0xD00 normalized), s)
      else if path_equals normalized ''dev/console'' then (Some (fill_synthetic_char_device VFS_DEV_CONSOLE normalized), s)
      else if path_equals normalized ''dev/tty0'' then (Some (fill_synthetic_char_device VFS_DEV_TTY0 normalized), s)
      else if path_equals normalized ''dev/null'' then (Some (fill_synthetic_char_device VFS_DEV_NULL normalized), s)
      else if path_equals normalized ''dev/urandom''
      then (Some (fill_synthetic_char_device (dev_urandom drv) normalized), s)
      else
        let fallback =
          (if synthetic_dir_exists normalized (g_mounts s)
           then (Some (fill_synthetic_dir (if path_equals normalized ''mnt'' then VFS_SYNTH_MNT_INO
                         else VFS_SYNTH_DYNAMIC_DIR_BASE) normalized), s)
           else on_aosfs (aosfs_lookup_path normalized) s)
        in case find_mount_for_path normalized MAX_VFS_PATH (g_mounts s) of
             None \<Rightarrow> fallback
           | Some (mount, backend_path) \<Rightarrow>
               (case vm_backend mount of
                  VFS_BACKEND_TMPFS \<Rightarrow> (lookup_tmpfs_node backend_path (vs_tmpfs s), s)
                | VFS_BACKEND_PROCFS \<Rightarrow> (lookup_procfs_node backend_path (vs_command s), s)
                | VFS_BACKEND_INITRD \<Rightarrow> (lookup_initrd_node backend_path (vs_aosfs s), s)
                | VFS_BACKEND_FAT32 \<Rightarrow> lookup_fat32_node drv backend_path s
                | VFS_BACKEND_EXT4 \<Rightarrow> lookup_ext4_node drv backend_path s
                | VFS_BACKEND_AOSFS \<Rightarrow> on_aosfs (aosfs_lookup_path backend_path) s
                | _ \<Rightarrow> fallback))"

section \<open>Symbolic links\<close>

definition append_text :: "string \<Rightarrow> nat \<Rightarrow> string \<Rightarrow> string option" where
  "append_text out out_size txt =
     (if txt \<noteq> [] \<and> length out + length txt \<ge> out_size then None else Some (out @ txt))"

definition readlink_node :: "vfs_node \<Rightarrow> nat \<Rightarrow> ('d, 'o) vfs_state \<Rightarrow> bytes option \<times> ('d, 'o) vfs_state" where
  "readlink_node node capacity s =
     (if n_type node \<noteq> VFS_NODE_TYPE_SYMLINK then (None, s)
      else if n_backend node = VFS_BACKEND_AOSFS then on_aosfs (aosfs_readlink_path (n_path node) capacity) s
      else if n_backend node = VFS_BACKEND_PROCFS \<and> path_equals (n_path node) ''proc/self/exe''
      then (let command = vs_command s;
                target = (if take 1 command = ''/'' then command else CHR ''/'' # command)
            in (Some (map of_char (take capacity target)), s))
      else (None, s))"

definition build_link_destination :: "string \<Rightarrow> string \<Rightarrow> string \<Rightarrow> nat \<Rightarrow> string option" where
  "build_link_destination link_path target remaining out_size =
     (let base = (if take 1 target \<noteq> ''/''
                  then (case vfs_parent_path_of link_path MAX_VFS_PATH of
                          None \<Rightarrow> None
                        | Some parent \<Rightarrow>
                            (case append_text [] MAX_VFS_PATH parent of
                               None \<Rightarrow> None
                             | Some combined \<Rightarrow>
                                 if combined \<noteq> [] \<and> target \<noteq> []
                                 then if length combined + 1 \<ge> MAX_VFS_PATH then None else Some (combined @ ''/'')
                                 else Some combined))
                  else Some [])
      in case base of None \<Rightarrow> None
         | Some combined \<Rightarrow>
             (case append_text combined MAX_VFS_PATH target of
                None \<Rightarrow> None
              | Some combined \<Rightarrow>
                  (if remaining = [] then normalize_path (Some combined) out_size
                   else case (if combined \<noteq> [] then if length combined + 1 \<ge> MAX_VFS_PATH then None else Some (combined @ ''/'')
                              else Some combined) of
                          None \<Rightarrow> None
                        | Some combined \<Rightarrow>
                            (case append_text combined MAX_VFS_PATH remaining of
                               None \<Rightarrow> None
                             | Some combined \<Rightarrow> normalize_path (Some combined) out_size))))"

datatype walk = Walk_failed | Walk_end | Walk_link string

lemma remaining_shorter:
  "cursor \<noteq> [] \<Longrightarrow>
   length (dropWhile (\<lambda>c. c = slash) (drop (length (takeWhile (\<lambda>c. c \<noteq> slash) cursor)) cursor)) < length cursor"
proof (cases cursor)
  case (Cons c cs)
  then show ?thesis
    by (cases "c = slash") (simp_all add: le_imp_less_Suc length_dropWhile_le order_trans [OF length_dropWhile_le])
qed simp

function walk_components ::
  "'o disk_drivers \<Rightarrow> bool \<Rightarrow> nat \<Rightarrow> string \<Rightarrow> string \<Rightarrow> ('d, 'o) vfs_state \<Rightarrow> walk \<times> ('d, 'o) vfs_state" where
  "walk_components drv follow_final hop prefix cursor s =
     (if cursor = [] then (Walk_end, s)
      else let component = takeWhile (\<lambda>c. c \<noteq> slash) cursor;
               remaining = dropWhile (\<lambda>c. c = slash) (drop (length component) cursor)
           in case append_path_component prefix MAX_VFS_PATH component of
                None \<Rightarrow> (Walk_failed, s)
              | Some prefix' \<Rightarrow>
                  (case lookup_normalized drv prefix' s of
                     (None, s') \<Rightarrow> (Walk_failed, s')
                   | (Some node, s') \<Rightarrow>
                       if n_type node = VFS_NODE_TYPE_SYMLINK \<and> (follow_final \<or> remaining \<noteq> [])
                       then if hop = VFS_SYMLINK_LIMIT then (Walk_failed, s')
                            else (case readlink_node node (MAX_VFS_PATH - 1) s' of
                                    (None, s'') \<Rightarrow> (Walk_failed, s'')
                                  | (Some target, s'') \<Rightarrow>
                                      (case build_link_destination prefix' (cstr target) remaining MAX_VFS_PATH of
                                         None \<Rightarrow> (Walk_failed, s'')
                                       | Some destination \<Rightarrow> (Walk_link destination, s'')))
                       else walk_components drv follow_final hop prefix' remaining s'))"
  by auto
termination
  by (relation "measure (\<lambda>(drv, follow_final, hop, prefix, cursor, s). length cursor)")
    (auto intro: remaining_shorter)

declare walk_components.simps [simp del]

text \<open>The loop over the hops; \<open>left\<close> is the number of rounds that are left, \<open>VFS_SYMLINK_LIMIT + 1 - hop\<close>.\<close>

fun lookup_hops ::
  "'o disk_drivers \<Rightarrow> bool \<Rightarrow> nat \<Rightarrow> string \<Rightarrow> ('d, 'o) vfs_state \<Rightarrow> vfs_node option \<times> ('d, 'o) vfs_state" where
  "lookup_hops drv follow_final 0 current s = (None, s)"
| "lookup_hops drv follow_final (Suc left) current s =
     (case walk_components drv follow_final (VFS_SYMLINK_LIMIT - left) [] current s of
        (Walk_failed, s') \<Rightarrow> (None, s')
      | (Walk_end, s') \<Rightarrow> lookup_normalized drv current s'
      | (Walk_link destination, s') \<Rightarrow> lookup_hops drv follow_final left destination s')"

definition lookup_with_links ::
  "'o disk_drivers \<Rightarrow> string option \<Rightarrow> bool \<Rightarrow> ('d, 'o) vfs_state \<Rightarrow> vfs_node option \<times> ('d, 'o) vfs_state" where
  "lookup_with_links drv path follow_final s =
     (case normalize_path path MAX_VFS_PATH of
        None \<Rightarrow> (None, s)
      | Some current \<Rightarrow> lookup_hops drv follow_final (VFS_SYMLINK_LIMIT + 1) current s)"

definition vfs_lookup :: "'o disk_drivers \<Rightarrow> string option \<Rightarrow> ('d, 'o) vfs_state \<Rightarrow> vfs_node option \<times> ('d, 'o) vfs_state" where
  "vfs_lookup drv path s = lookup_with_links drv path True s"

definition vfs_lstat :: "'o disk_drivers \<Rightarrow> string option \<Rightarrow> ('d, 'o) vfs_state \<Rightarrow> vfs_node option \<times> ('d, 'o) vfs_state" where
  "vfs_lstat drv path s = lookup_with_links drv path False s"

section \<open>Operations on nodes and paths\<close>

definition vfs_access_path :: "'o disk_drivers \<Rightarrow> string option \<Rightarrow> u64 \<Rightarrow> ('d, 'o) vfs_state \<Rightarrow> bool \<times> ('d, 'o) vfs_state" where
  "vfs_access_path drv path mode s =
     (if path = None then (False, s)
      else if mode AND NOT (LINUX_R_OK OR LINUX_W_OK OR LINUX_X_OK) \<noteq> 0 then (False, s)
      else case vfs_lookup drv path s of
             (None, s') \<Rightarrow> (False, s')
           | (Some node, s') \<Rightarrow>
               (if n_type node = VFS_NODE_TYPE_CHAR_DEVICE then True
                else if mode AND LINUX_W_OK \<noteq> 0
                then n_backend node \<in> {VFS_BACKEND_AOSFS, VFS_BACKEND_TMPFS, VFS_BACKEND_FAT32, VFS_BACKEND_EXT4}
                else True, s'))"

definition vfs_read_node :: "'o disk_drivers \<Rightarrow> vfs_node \<Rightarrow> nat \<Rightarrow> nat \<Rightarrow> ('d, 'o) vfs_state \<Rightarrow> bytes option \<times> ('d, 'o) vfs_state" where
  "vfs_read_node drv node offset len s =
     (if n_type node \<noteq> VFS_NODE_TYPE_REGULAR then (None, s)
      else if offset > unat (n_size node) \<or> len > unat (n_size node) - offset then (None, s)
      else case n_backend node of
             VFS_BACKEND_FAT32 \<Rightarrow>
               (case n_u node of
                  U_first_cluster c \<Rightarrow> on_disk (df_read_file (drv_fat32 drv) c (n_size node) offset len) s
                | _ \<Rightarrow> (None, s))
           | VFS_BACKEND_EXT4 \<Rightarrow> on_disk (df_read_file (drv_ext4 drv) (ucast (n_inode node)) (n_size node) offset len) s
           | VFS_BACKEND_TMPFS \<Rightarrow> (tmpfs_read_path (Some (n_path node)) offset len (vs_tmpfs s), s)
           | VFS_BACKEND_AOSFS \<Rightarrow>
               (case n_u node of
                  U_data data \<Rightarrow> (Some (mem_load (data + of_nat offset) len (memory (fs_blk (vs_aosfs s)))), s)
                | U_aosfs_data k i \<Rightarrow> (Some (subarr offset len (g_memory_data (vs_aosfs s) ! k ! i)), s)
                | _ \<Rightarrow> on_aosfs (aosfs_read_path (n_path node) offset len) s)
           | VFS_BACKEND_INITRD \<Rightarrow>
               (case n_u node of
                  U_data data \<Rightarrow> (Some (mem_load (data + of_nat offset) len (memory (fs_blk (vs_aosfs s)))), s)
                | _ \<Rightarrow> (None, s))
           | _ \<Rightarrow> (None, s))"

definition vfs_write_node ::
  "'o disk_drivers \<Rightarrow> vfs_node \<Rightarrow> nat \<Rightarrow> bytes \<Rightarrow> ('d, 'o) vfs_state \<Rightarrow> (nat \<times> nat) option \<times> ('d, 'o) vfs_state" where
  "vfs_write_node drv node offset buffer s =
     (if n_type node \<noteq> VFS_NODE_TYPE_REGULAR then (None, s)
      else case n_backend node of
             VFS_BACKEND_TMPFS \<Rightarrow> on_tmpfs (tmpfs_write_path (Some (n_path node)) offset buffer) s
           | VFS_BACKEND_FAT32 \<Rightarrow> on_disk (df_write_path (drv_fat32 drv) (n_path node) offset buffer) s
           | VFS_BACKEND_EXT4 \<Rightarrow> on_disk (df_write_path (drv_ext4 drv) (n_path node) offset buffer) s
           | VFS_BACKEND_AOSFS \<Rightarrow> on_aosfs (aosfs_write_path (n_path node) offset buffer) s
           | _ \<Rightarrow> (None, s))"

definition vfs_mkdir_path ::
  "'o disk_drivers \<Rightarrow> string option \<Rightarrow> u16 \<Rightarrow> u32 \<Rightarrow> u32 \<Rightarrow> ('d, 'o) vfs_state \<Rightarrow> bool \<times> ('d, 'o) vfs_state" where
  "vfs_mkdir_path drv path mode uid gid s =
     (case normalize_path path MAX_VFS_PATH of
        None \<Rightarrow> (False, s)
      | Some normalized \<Rightarrow>
          if normalized = [] then (False, s)
          else case vfs_lstat drv (Some normalized) s of
                 (Some existing, s') \<Rightarrow> (False, s')
               | (None, s') \<Rightarrow>
                   (case find_mount_for_path normalized MAX_VFS_PATH (g_mounts s') of
                      None \<Rightarrow> on_aosfs (aosfs_mkdir_path_mode normalized mode uid gid) s'
                    | Some (mount, backend_path) \<Rightarrow>
                        if vm_backend mount = VFS_BACKEND_TMPFS
                        then on_tmpfs (tmpfs_mkdir_path_mode (Some backend_path) mode uid gid) s'
                        else if vm_backend mount = VFS_BACKEND_AOSFS
                        then on_aosfs (aosfs_mkdir_path_mode backend_path mode uid gid) s'
                        else (False, s')))"

definition vfs_unlink_path :: "'o disk_drivers \<Rightarrow> string option \<Rightarrow> ('d, 'o) vfs_state \<Rightarrow> bool \<times> ('d, 'o) vfs_state" where
  "vfs_unlink_path drv path s =
     (case normalize_path path MAX_VFS_PATH of
        None \<Rightarrow> (False, s)
      | Some normalized \<Rightarrow>
          if normalized = [] then (False, s)
          else case vfs_lstat drv (Some normalized) s of
                 (None, s') \<Rightarrow> (False, s')
               | (Some node, s') \<Rightarrow>
                   if n_type node \<noteq> VFS_NODE_TYPE_REGULAR \<and> n_type node \<noteq> VFS_NODE_TYPE_SYMLINK then (False, s')
                   else (case find_mount_for_path normalized MAX_VFS_PATH (g_mounts s') of
                           Some (mount, backend_path) \<Rightarrow>
                             if vm_backend mount = VFS_BACKEND_TMPFS then on_tmpfs (tmpfs_unlink_path (Some backend_path)) s'
                             else if vm_backend mount = VFS_BACKEND_AOSFS then on_aosfs (aosfs_unlink_path (n_path node)) s'
                             else (False, s')
                         | None \<Rightarrow>
                             if n_backend node = VFS_BACKEND_TMPFS then on_tmpfs (tmpfs_unlink_path (Some normalized)) s'
                             else if n_backend node = VFS_BACKEND_AOSFS then on_aosfs (aosfs_unlink_path normalized) s'
                             else (False, s')))"

definition vfs_rmdir_path :: "'o disk_drivers \<Rightarrow> string option \<Rightarrow> ('d, 'o) vfs_state \<Rightarrow> bool \<times> ('d, 'o) vfs_state" where
  "vfs_rmdir_path drv path s =
     (case normalize_path path MAX_VFS_PATH of
        None \<Rightarrow> (False, s)
      | Some normalized \<Rightarrow>
          if normalized = [] then (False, s)
          else case vfs_lstat drv (Some normalized) s of
                 (None, s') \<Rightarrow> (False, s')
               | (Some node, s') \<Rightarrow>
                   if n_type node \<noteq> VFS_NODE_TYPE_DIRECTORY then (False, s')
                   else (case find_mount_for_path normalized MAX_VFS_PATH (g_mounts s') of
                           Some (mount, backend_path) \<Rightarrow>
                             if vm_backend mount = VFS_BACKEND_TMPFS then on_tmpfs (tmpfs_rmdir_path (Some backend_path)) s'
                             else if vm_backend mount = VFS_BACKEND_AOSFS then on_aosfs (aosfs_rmdir_path (n_path node)) s'
                             else (False, s')
                         | None \<Rightarrow>
                             if n_backend node = VFS_BACKEND_AOSFS then on_aosfs (aosfs_rmdir_path normalized) s'
                             else (False, s')))"

definition vfs_symlink_path ::
  "'o disk_drivers \<Rightarrow> string option \<Rightarrow> string option \<Rightarrow> u32 \<Rightarrow> u32 \<Rightarrow> ('d, 'o) vfs_state \<Rightarrow> bool \<times> ('d, 'o) vfs_state" where
  "vfs_symlink_path drv target path uid gid s =
     (case (target, normalize_path path MAX_VFS_PATH) of
        (Some target, Some normalized) \<Rightarrow>
          if target = [] \<or> normalized = [] then (False, s)
          else (case vfs_lstat drv (Some normalized) s of
                  (Some existing, s') \<Rightarrow> (False, s')
                | (None, s') \<Rightarrow>
                    (case find_mount_for_path normalized MAX_VFS_PATH (g_mounts s') of
                       None \<Rightarrow> on_aosfs (aosfs_symlink_path target normalized uid gid) s'
                     | Some (mount, backend_path) \<Rightarrow>
                         if vm_backend mount = VFS_BACKEND_AOSFS
                         then on_aosfs (aosfs_symlink_path target backend_path uid gid) s'
                         else (False, s')))
      | _ \<Rightarrow> (False, s))"

definition vfs_readlink_path :: "'o disk_drivers \<Rightarrow> string option \<Rightarrow> nat \<Rightarrow> ('d, 'o) vfs_state \<Rightarrow> bytes option \<times> ('d, 'o) vfs_state" where
  "vfs_readlink_path drv path capacity s =
     (case vfs_lstat drv path s of
        (None, s') \<Rightarrow> (None, s')
      | (Some node, s') \<Rightarrow> readlink_node node capacity s')"

definition vfs_chmod_path :: "'o disk_drivers \<Rightarrow> string option \<Rightarrow> u16 \<Rightarrow> bool \<Rightarrow> ('d, 'o) vfs_state \<Rightarrow> bool \<times> ('d, 'o) vfs_state" where
  "vfs_chmod_path drv path mode nofollow s =
     (case (if nofollow then vfs_lstat drv path s else vfs_lookup drv path s) of
        (None, s') \<Rightarrow> (False, s')
      | (Some node, s') \<Rightarrow>
          if n_backend node = VFS_BACKEND_TMPFS then on_tmpfs (tmpfs_chmod_path (Some (n_path node)) mode) s'
          else if n_backend node = VFS_BACKEND_AOSFS then on_aosfs (aosfs_chmod_path (n_path node) mode) s'
          else (False, s'))"

definition vfs_chown_path ::
  "'o disk_drivers \<Rightarrow> string option \<Rightarrow> u32 \<Rightarrow> u32 \<Rightarrow> bool \<Rightarrow> ('d, 'o) vfs_state \<Rightarrow> bool \<times> ('d, 'o) vfs_state" where
  "vfs_chown_path drv path uid gid nofollow s =
     (case (if nofollow then vfs_lstat drv path s else vfs_lookup drv path s) of
        (None, s') \<Rightarrow> (False, s')
      | (Some node, s') \<Rightarrow>
          if n_backend node = VFS_BACKEND_TMPFS then on_tmpfs (tmpfs_chown_path (Some (n_path node)) uid gid) s'
          else if n_backend node = VFS_BACKEND_AOSFS then on_aosfs (aosfs_chown_path (n_path node) uid gid) s'
          else (False, s'))"

text \<open>The entries \<open>.\<close> and \<open>..\<close> that open every listing made here.\<close>

definition dot_entry :: "nat \<Rightarrow> nat \<Rightarrow> (string \<times> nat \<times> u8) option" where
  "dot_entry index name_buf_size =
     (if index = 0 then Some (copy_string name_buf_size ''.'', 0, LINUX_DTYPE_DIR)
      else if index = 1 then Some (copy_string name_buf_size ''..'', 0, LINUX_DTYPE_DIR) else None)"

definition initrd_dirent :: "nat \<Rightarrow> nat \<Rightarrow> 'd aosfs_state \<Rightarrow> (string \<times> nat \<times> u8) option" where
  "initrd_dirent index name_buf_size a =
     map_option (\<lambda>(name, sz). (name, unat sz, LINUX_DTYPE_REG)) (initrd_get_entry (initrd_memory a) index name_buf_size (fs_initrd a))"

definition synthetic_root_dirent :: "nat \<Rightarrow> nat \<Rightarrow> ('d, 'o) vfs_state \<Rightarrow> (string \<times> nat \<times> u8) option" where
  "synthetic_root_dirent index name_buf_size s =
     (if index < 2 then dot_entry index name_buf_size
      else case dirent_mount_child_at [] (index - 2) name_buf_size (g_mounts s) of
             Some e \<Rightarrow> Some e
           | None \<Rightarrow>
               let mount_count = mount_child_count [] (g_mounts s)
               in if index < 2 + mount_count then None
                  else if index = 2 + mount_count then Some (copy_string name_buf_size ''dev'', 0, LINUX_DTYPE_DIR)
                  else initrd_dirent (index - 3 - mount_count) name_buf_size (vs_aosfs s))"

definition dev_dirent :: "nat \<Rightarrow> nat \<Rightarrow> (string \<times> nat \<times> u8) option" where
  "dev_dirent index name_buf_size =
     (if index < 2 then dot_entry index name_buf_size
      else if index = 2 then Some (copy_string name_buf_size ''console'', 0, LINUX_DTYPE_CHR)
      else if index = 3 then Some (copy_string name_buf_size ''tty0'', 0, LINUX_DTYPE_CHR)
      else if index = 4 then Some (copy_string name_buf_size ''null'', 0, LINUX_DTYPE_CHR)
      else if index = 5 then Some (copy_string name_buf_size ''urandom'', 0, LINUX_DTYPE_CHR)
      else None)"

definition procfs_dirent :: "string \<Rightarrow> nat \<Rightarrow> nat \<Rightarrow> (string \<times> nat \<times> u8) option" where
  "procfs_dirent path index name_buf_size =
     (if index < 2 then dot_entry index name_buf_size
      else if path_equals path ''proc'' \<and> index = 2 then Some (copy_string name_buf_size ''self'', 0, LINUX_DTYPE_DIR)
      else if path_equals path ''proc/self'' \<and> index = 2 then Some (copy_string name_buf_size ''exe'', 0, LINUX_DTYPE_LNK)
      else None)"

definition vfs_dirent_at ::
  "'o disk_drivers \<Rightarrow> vfs_node \<Rightarrow> nat \<Rightarrow> nat \<Rightarrow> ('d, 'o) vfs_state \<Rightarrow> (string \<times> nat \<times> u8) option \<times> ('d, 'o) vfs_state" where
  "vfs_dirent_at drv node index name_buf_size s =
     (if name_buf_size = 0 \<or> n_type node \<noteq> VFS_NODE_TYPE_DIRECTORY then (None, s)
      else case n_backend node of
             VFS_BACKEND_FAT32 \<Rightarrow> on_disk (df_dirent_at_index (drv_fat32 drv) (n_path node) index name_buf_size) s
           | VFS_BACKEND_EXT4 \<Rightarrow> on_disk (df_dirent_at_index (drv_ext4 drv) (n_path node) index name_buf_size) s
           | VFS_BACKEND_AOSFS \<Rightarrow> on_aosfs (aosfs_dirent_at_index (n_path node) index name_buf_size) s
           | VFS_BACKEND_INITRD \<Rightarrow>
               (if index < 2 then dot_entry index name_buf_size
                else initrd_dirent (index - 2) name_buf_size (vs_aosfs s), s)
           | VFS_BACKEND_SYNTHETIC \<Rightarrow>
               (if n_inode node = VFS_SYNTH_ROOT_INO then synthetic_root_dirent index name_buf_size s
                else if path_equals (n_path node) ''dev'' then dev_dirent index name_buf_size
                else if index < 2 then dot_entry index name_buf_size
                else dirent_mount_child_at (n_path node) (index - 2) name_buf_size (g_mounts s), s)
           | VFS_BACKEND_PROCFS \<Rightarrow> (procfs_dirent (n_path node) index name_buf_size, s)
           | VFS_BACKEND_TMPFS \<Rightarrow> (tmpfs_dirent_at_index (Some (n_path node)) index name_buf_size (vs_tmpfs s), s)
           | _ \<Rightarrow> (None, s))"

end
