(* ===== verification/Aosfs_Volume.thy ===== *)
theory Aosfs_Volume
  imports Aosfs
begin

text \<open>
  An AOSFS instance on a block device. A volume is the instance record together with the bytes of
  its partition. This theory gives the invariant of a volume (the table on disk agrees with the
  table in memory, the extents of distinct files are disjoint and lie inside the partition), shows
  what the disk primitives of \<open>kernel/aosfs.c\<close> do to a volume, and derives the effect of reserving
  an extent.

  The lemmas are proved for any device that fulfils the contract \<^term>\<open>byte_store\<close>.
\<close>

section \<open>State updates\<close>

definition fs_wf :: "'d aosfs_state \<Rightarrow> bool" where
  "fs_wf s \<longleftrightarrow> length (g_instances s) = 8 \<and> g_active s < 8"

text \<open>The state after an operation that replaced the active instance and the block devices.\<close>

definition post :: "aosfs_instance \<Rightarrow> 'd blk_state \<Rightarrow> 'd aosfs_state \<Rightarrow> 'd aosfs_state" where
  "post a b s = s\<lparr>g_instances := (g_instances s)[g_active s := a], fs_blk := b\<rparr>"

named_theorems post_simps "states after an operation"

lemma active_post [post_simps]: "fs_wf s \<Longrightarrow> active (post a b s) = a"
  by (simp add: active_def post_def fs_wf_def)

lemma fs_wf_post [post_simps]: "fs_wf (post a b s) = fs_wf s"
  by (simp add: post_def fs_wf_def)

lemma post_post [post_simps]: "post a b (post a' b' s) = post a b s"
  by (simp add: post_def)

lemma post_fields [post_simps]: "fs_blk (post a b s) = b" "fs_parts (post a b s) = fs_parts s"
  "fs_initrd (post a b s) = fs_initrd s" "g_memory_data (post a b s) = g_memory_data s"
  "g_active (post a b s) = g_active s" "length (g_instances (post a b s)) = length (g_instances s)"
  by (simp_all add: post_def)

lemma post_self [post_simps]: "post (active s) (fs_blk s) s = s"
  by (simp add: post_def active_def)

lemma update_active_post [post_simps]:
  "fs_wf s \<Longrightarrow> update_active f (post a b s) = post (f a) b s"
  by (simp add: update_active_def active_def post_def fs_wf_def)

lemma set_entry_post [post_simps]:
  "fs_wf s \<Longrightarrow> set_entry i e (post a b s) = post (a\<lparr>ai_entries := (ai_entries a)[i := e]\<rparr>) b s"
  by (simp add: set_entry_def post_simps)

lemma entry_at_post [post_simps]: "fs_wf s \<Longrightarrow> entry_at i (post a b s) = ai_entries a ! i"
  by (simp add: entry_at_def post_simps)

lemma fs_blk_post [post_simps]: "(post a b s)\<lparr>fs_blk := b'\<rparr> = post a b' s"
  by (simp add: post_def)

text \<open>What identifies a volume does not change during operations on it.\<close>

definition same_volume :: "aosfs_instance \<Rightarrow> aosfs_instance \<Rightarrow> bool" where
  "same_volume a a' \<longleftrightarrow> ai_mounted a' = ai_mounted a \<and> ai_role a' = ai_role a \<and>
     ai_block_backed a' = ai_block_backed a \<and> ai_blkdev_id a' = ai_blkdev_id a \<and>
     ai_base_offset a' = ai_base_offset a \<and> ai_format_version a' = ai_format_version a \<and>
     ai_entry_limit a' = ai_entry_limit a"

lemma same_volume_refl [simp]: "same_volume a a"
  by (simp add: same_volume_def)

lemma same_volume_trans: "same_volume a b \<Longrightarrow> same_volume b c \<Longrightarrow> same_volume a c"
  by (simp add: same_volume_def)

lemma same_volume_update [simp]:
  "same_volume a (b\<lparr>ai_entries := es\<rparr>) = same_volume a b"
  "same_volume a (b\<lparr>ai_next_inode := n\<rparr>) = same_volume a b"
  "same_volume a (b\<lparr>ai_next_data_offset := k\<rparr>) = same_volume a b"
  by (simp_all add: same_volume_def)

lemma blkdev_get_same: "g_blkdevs b = g_blkdevs b' \<Longrightarrow> blkdev_get bid b = blkdev_get bid b'"
  by (simp add: blkdev_get_def)

lemma storage_size_post [post_simps]:
  assumes "fs_wf s" "same_volume (active s) a" "g_blkdevs b = g_blkdevs (fs_blk s)"
  shows "active_storage_size (post a b s) = active_storage_size s"
proof -
  have "ai_role a = ai_role (active s)" "ai_blkdev_id a = ai_blkdev_id (active s)"
    "ai_base_offset a = ai_base_offset (active s)"
    using assms(2) by (simp_all add: same_volume_def)
  then show ?thesis
    by (simp only: active_storage_size_def active_post [OF assms(1)] post_fields blkdev_get_same [OF assms(3)] Let_def)
qed

section \<open>Arithmetic of the layout\<close>

lemma unat_base_add:
  fixes base :: u64
  assumes "unat base + n < 2 ^ 64"
  shows "unat (base + of_nat n) = unat base + n"
  using assms by (simp add: unat_add_small unat_of_nat_small)

lemma grow_capacity_bounds:
  "0 < c \<Longrightarrow> c \<le> AOSFS_MAX_FILE_SIZE \<Longrightarrow> required \<le> AOSFS_MAX_FILE_SIZE \<Longrightarrow>
   required \<le> grow_capacity required c \<and> grow_capacity required c \<le> AOSFS_MAX_FILE_SIZE \<and> c \<le> grow_capacity required c"
proof (induction required c rule: grow_capacity.induct)
  case (1 required c)
  show ?case
  proof (cases "c < required \<and> \<not> c > AOSFS_MAX_FILE_SIZE div 2")
    case True
    then have "c * 2 \<le> AOSFS_MAX_FILE_SIZE" by linarith
    with True 1 show ?thesis by (simp add: grow_capacity.simps [of required c])
  next
    case False
    with "1.prems" show ?thesis by (auto simp: grow_capacity.simps [of required c])
  qed
qed

lemma extent_capacity_bounds:
  assumes "c \<le> AOSFS_MAX_FILE_SIZE" "required \<le> AOSFS_MAX_FILE_SIZE"
  shows "required \<le> extent_capacity c required" "extent_capacity c required \<le> AOSFS_MAX_FILE_SIZE"
    "c \<le> extent_capacity c required" "0 < extent_capacity c required"
  using grow_capacity_bounds [of "if c < AOSFS_MIN_EXTENT_CAPACITY then AOSFS_MIN_EXTENT_CAPACITY else c" required] assms
  by (auto simp: extent_capacity_def AOSFS_MIN_EXTENT_CAPACITY_def AOSFS_MAX_FILE_SIZE_def split: if_splits)

lemma align_up_bounds:
  assumes "v \<le> UINT64_MAX - 4095"
  shows "v \<le> align_up_u64 v AOSFS_EXTENT_ALIGNMENT" "align_up_u64 v AOSFS_EXTENT_ALIGNMENT < v + 4096"
    "align_up_u64 v AOSFS_EXTENT_ALIGNMENT mod 4096 = 0"
proof -
  have u: "unat (of_nat (v + 4095) :: u64) = v + 4095"
    using assms by (intro unat_of_nat_small) (simp add: UINT64_MAX_def)
  have "align_up_u64 v AOSFS_EXTENT_ALIGNMENT = unat ((of_nat (v + 4095) :: u64) AND NOT 0xFFF)"
    using assms by (simp add: align_up_u64_def AOSFS_EXTENT_ALIGNMENT_def UINT64_MAX_def add.commute)
  then have *: "align_up_u64 v AOSFS_EXTENT_ALIGNMENT = (v + 4095) div 4096 * 4096"
    by (simp only: unat_page_down u)
  show "v \<le> align_up_u64 v AOSFS_EXTENT_ALIGNMENT" "align_up_u64 v AOSFS_EXTENT_ALIGNMENT < v + 4096"
    "align_up_u64 v AOSFS_EXTENT_ALIGNMENT mod 4096 = 0"
    unfolding * using div_mult_mod_eq [of "v + 4095" 4096] mod_less_divisor [of 4096 "v + 4095"]
    by (linarith, linarith, simp)
qed

section \<open>The bytes of a volume\<close>

definition volume_bytes :: "('d blk_state \<Rightarrow> bytes) \<Rightarrow> 'd aosfs_state \<Rightarrow> bytes" where
  "volume_bytes contents s =
     subarr (unat (ai_base_offset (active s))) (active_storage_size s) (contents (fs_blk s))"

text \<open>The active instance lives on device \<open>bid\<close>, which is in order.\<close>

definition on_device :: "u32 \<Rightarrow> ('d blk_state \<Rightarrow> bool) \<Rightarrow> 'd aosfs_state \<Rightarrow> bool" where
  "on_device bid invar s \<longleftrightarrow> fs_wf s \<and> invar (fs_blk s) \<and> ai_blkdev_id (active s) = bid \<and> 0 < active_storage_size s"

text \<open>The block devices after the bytes of the volume became \<open>V\<close>; nothing outside the volume changed.\<close>

definition blk_after ::
  "('d blk_state \<Rightarrow> bool) \<Rightarrow> ('d blk_state \<Rightarrow> bytes) \<Rightarrow> 'd aosfs_state \<Rightarrow> bytes \<Rightarrow> 'd blk_state \<Rightarrow> bool" where
  "blk_after invar contents s V b \<longleftrightarrow> invar b \<and> g_blkdevs b = g_blkdevs (fs_blk s) \<and>
     length V = active_storage_size s \<and>
     contents b = overwrite (unat (ai_base_offset (active s))) V (contents (fs_blk s))"

lemma subarr_overwrite_self:
  "base + n \<le> length xs \<Longrightarrow> overwrite base (subarr base n xs) xs = xs"
  by (rule nth_equalityI) (auto simp: arr_simps nth_overwrite)

lemma overwrite_twice:
  assumes "length V' = length V" "base + length V \<le> length xs"
  shows "overwrite base V' (overwrite base V xs) = overwrite base V' xs"
  using assms by (intro nth_equalityI) (auto simp: arr_simps nth_overwrite)

lemma overwrite_within:
  assumes "off + length buf \<le> n" "base + n \<le> length xs"
  shows "overwrite (base + off) buf xs = overwrite base (overwrite off buf (subarr base n xs)) xs"
  using assms by (simp add: overwrite_inner)

context byte_store
begin

lemma storage_fits:
  assumes "on_device bid invar s"
  shows "unat (ai_base_offset (active s)) + active_storage_size s \<le> length (contents (fs_blk s))"
    "length (contents (fs_blk s)) < 2 ^ 64" "length (volume_bytes contents s) = active_storage_size s"
proof -
  obtain dev where dev: "blkdev_get bid (fs_blk s) = Some dev" "unat (bd_size dev) = length (contents (fs_blk s))"
    using size_law assms by (auto simp: on_device_def)
  let ?base = "ai_base_offset (active s)"
  have lt: "?base < bd_size dev"
    using assms dev(1) by (cases "?base < bd_size dev") (auto simp: on_device_def active_storage_size_def Let_def not_less)
  have d: "unat (bd_size dev - ?base) = unat (bd_size dev) - unat ?base"
    using lt by (intro unat_sub_small) simp
  have "unat ?base < unat (bd_size dev)" using lt by (simp add: word_less_nat_alt)
  moreover have "active_storage_size s \<le> unat (bd_size dev) - unat ?base"
    using assms dev(1) lt d
    by (auto simp: on_device_def active_storage_size_def Let_def word_le_nat_alt split: option.splits)
  ultimately show fits: "unat ?base + active_storage_size s \<le> length (contents (fs_blk s))" using dev(2) by linarith
  show "length (contents (fs_blk s)) < 2 ^ 64" using dev(2) unat_less [of "bd_size dev"] by simp
  show "length (volume_bytes contents s) = active_storage_size s" using fits by (simp add: volume_bytes_def arr_simps)
qed

lemma blk_after_self:
  assumes "on_device bid invar s" "invar b" "g_blkdevs b = g_blkdevs (fs_blk s)" "contents b = contents (fs_blk s)"
  shows "blk_after invar contents s (volume_bytes contents s) b"
  using assms storage_fits [OF assms(1)]
  by (simp add: blk_after_def volume_bytes_def subarr_overwrite_self)

lemma blk_after_post:
  assumes "on_device bid invar s" "blk_after invar contents s V b" "same_volume (active s) a"
  shows "on_device bid invar (post a b s)" "volume_bytes contents (post a b s) = V"
    "active_storage_size (post a b s) = active_storage_size s"
proof -
  have wf: "fs_wf s" and g: "g_blkdevs b = g_blkdevs (fs_blk s)" and len: "length V = active_storage_size s"
    using assms(1,2) by (auto simp: on_device_def blk_after_def)
  have same: "ai_blkdev_id a = ai_blkdev_id (active s)" "ai_base_offset a = ai_base_offset (active s)"
    using assms(3) by (simp_all add: same_volume_def)
  show st: "active_storage_size (post a b s) = active_storage_size s" by (rule storage_size_post [OF wf assms(3) g])
  show "on_device bid invar (post a b s)"
    using assms(1,2) same st by (simp add: on_device_def blk_after_def post_simps)
  have "subarr (unat (ai_base_offset (active s))) (length V)
      (overwrite (unat (ai_base_offset (active s))) V (contents (fs_blk s))) = V"
    using storage_fits(1) [OF assms(1)] len by (intro subarr_overwrite_same) simp
  then show "volume_bytes contents (post a b s) = V"
    using assms(2) same wf by (simp add: volume_bytes_def post_simps st blk_after_def)
qed

lemma blk_after_trans:
  assumes "on_device bid invar s" "blk_after invar contents s V b" "same_volume (active s) a"
    and "blk_after invar contents (post a b s) V' b'"
  shows "blk_after invar contents s V' b'"
proof -
  note P = blk_after_post [OF assms(1-3)]
  have wf: "fs_wf s" using assms(1) by (simp add: on_device_def)
  have base: "ai_base_offset a = ai_base_offset (active s)" using assms(3) by (simp add: same_volume_def)
  show ?thesis
    using assms(2,4) P(3) storage_fits(1) [OF assms(1)]
    by (simp add: blk_after_def post_simps wf base overwrite_twice)
qed

lemma volume_read_ok:
  assumes "on_device bid invar s" "off + len \<le> active_storage_size s"
  shows "\<exists>b. volume_read off len s = (Some (subarr off len (volume_bytes contents s)), post (active s) b s) \<and>
    blk_after invar contents s (volume_bytes contents s) b"
proof -
  note F = storage_fits [OF assms(1)]
  let ?base = "ai_base_offset (active s)"
  have u: "unat (?base + of_nat off) = unat ?base + off" "unat (of_nat len :: u64) = len"
    using F(1,2) assms(2) by (auto intro: unat_base_add unat_of_nat_small)
  obtain b where b: "blkdev_read bid (?base + of_nat off) True (of_nat len) (fs_blk s) =
      (Some (subarr (unat ?base + off) len (contents (fs_blk s))), b)" "invar b" "contents b = contents (fs_blk s)"
    using read_ok [of "fs_blk s" "?base + of_nat off" "of_nat len"] u F(1) assms by (auto simp: on_device_def)
  have g: "g_blkdevs b = g_blkdevs (fs_blk s)"
    using g_blkdevs_read [of bid "?base + of_nat off" True "of_nat len" "fs_blk s"] b(1) by simp
  have sub: "subarr off len (volume_bytes contents s) = subarr (unat ?base + off) len (contents (fs_blk s))"
    using assms(2) by (simp add: volume_bytes_def subarr_subarr)
  have st: "s\<lparr>fs_blk := b\<rparr> = post (active s) b s" by (simp add: post_def active_def)
  have "volume_read off len s = (Some (subarr off len (volume_bytes contents s)), post (active s) b s)"
    using b(1) assms(1) by (simp add: volume_read_def sub st on_device_def)
  with blk_after_self [OF assms(1) b(2) g b(3)] show ?thesis by blast
qed

lemma volume_write_ok:
  assumes "on_device bid invar s" "off + length buf \<le> active_storage_size s"
  shows "\<exists>b. volume_write off buf s = (True, post (active s) b s) \<and>
    blk_after invar contents s (overwrite off buf (volume_bytes contents s)) b"
proof -
  note F = storage_fits [OF assms(1)]
  let ?base = "ai_base_offset (active s)"
  have u: "unat (?base + of_nat off) = unat ?base + off"
    using F(1,2) assms(2) by (auto intro: unat_base_add)
  obtain b where b: "blkdev_write bid (?base + of_nat off) (Some buf) (fs_blk s) = (True, b)" "invar b"
      "contents b = overwrite (unat ?base + off) buf (contents (fs_blk s))"
    using write_ok [of "fs_blk s" "?base + of_nat off" buf] u F(1) assms by (auto simp: on_device_def)
  have g: "g_blkdevs b = g_blkdevs (fs_blk s)"
    using g_blkdevs_write [of bid "?base + of_nat off" "Some buf" "fs_blk s"] b(1) by simp
  have st: "s\<lparr>fs_blk := b\<rparr> = post (active s) b s" by (simp add: post_def active_def)
  have "contents b = overwrite (unat ?base) (overwrite off buf (volume_bytes contents s)) (contents (fs_blk s))"
    unfolding b(3) volume_bytes_def by (rule overwrite_within [OF assms(2) F(1)])
  then have "blk_after invar contents s (overwrite off buf (volume_bytes contents s)) b"
    using b(2) g assms(2) F(3) by (simp add: blk_after_def arr_simps)
  moreover have "volume_write off buf s = (True, post (active s) b s)"
    using b(1) assms(1) by (simp add: volume_write_def st on_device_def)
  ultimately show ?thesis by blast
qed

end

section \<open>Disk structures\<close>

lemma length_encode_disk_entry: "length (de_path d) = 128 \<Longrightarrow> length (encode_disk_entry d) = DISK_ENTRY_BYTES"
  by (simp add: encode_disk_entry_def DISK_ENTRY_BYTES_def)

lemma length_disk_entry_of [simp]: "length (encode_disk_entry (disk_entry_of e)) = DISK_ENTRY_BYTES"
  by (rule length_encode_disk_entry) (simp add: disk_entry_of_def AOSFS_PATH_MAX_def length_name_field)

lemma decode_encode_disk_entry:
  assumes "length (de_path d) = 128" "de_size d < 2 ^ 32" "de_data_offset d < 2 ^ 64" "de_data_capacity d < 2 ^ 64"
  shows "decode_disk_entry (encode_disk_entry d) = d"
  using assms
  by (cases d) (simp add: decode_disk_entry_def encode_disk_entry_def arr_simps le_simps)

lemma length_encode_super [simp]: "length (encode_super b) = SUPER_BYTES"
  by (simp add: encode_super_def SUPER_BYTES_def)

lemma decode_fill_superblock: "decode_super (encode_super fill_superblock) = fill_superblock"
  by (simp add: decode_super_def encode_super_def fill_superblock_def arr_simps le_simps
      AOSFS_MAGIC0_def AOSFS_MAGIC1_def AOSFS_VERSION_def AOSFS_BLOCK_SIZE_def AOSFS_MAX_ENTRIES_def AOSFS_PATH_MAX_def
      AOSFS_MAX_FILE_SIZE_def AOSFS_TABLE_OFFSET_def AOSFS_DATA_OFFSET_def)

lemma fill_superblock_valid: "superblock_valid fill_superblock" "\<not> legacy_superblock_valid fill_superblock"
  by (simp_all add: superblock_valid_def legacy_superblock_valid_def fill_superblock_def AOSFS_VERSION_def AOSFS_LEGACY_VERSION_def)

section \<open>The invariant of a volume\<close>

definition entry_ok :: "aosfs_entry \<Rightarrow> bool" where
  "entry_ok e \<longleftrightarrow> length (ae_path e) < AOSFS_PATH_MAX \<and> CHR 0x00 \<notin> set (ae_path e) \<and>
     ae_kind e \<le> AOSFS_ENTRY_SYMLINK \<and> ae_mode e AND AOSFS_MODE_BITS = ae_mode e \<and>
     ae_size e \<le> ae_data_capacity e \<and> ae_data_capacity e \<le> AOSFS_MAX_FILE_SIZE \<and>
     (ae_kind e = AOSFS_ENTRY_DIRECTORY \<or> ae_data_capacity e = 0 \<longrightarrow> ae_data_capacity e = 0 \<and> ae_data_offset e = 0) \<and>
     (\<not> ae_in_use e \<longrightarrow> e = aosfs_entry_zero)"

definition extent_in :: "nat \<Rightarrow> aosfs_entry \<Rightarrow> bool" where
  "extent_in next_offset e \<longleftrightarrow> ae_data_capacity e = 0 \<or>
     AOSFS_DATA_OFFSET \<le> ae_data_offset e \<and> ae_data_offset e + ae_data_capacity e \<le> next_offset"

definition extents_apart :: "aosfs_entry \<Rightarrow> aosfs_entry \<Rightarrow> bool" where
  "extents_apart e e' \<longleftrightarrow> ae_data_capacity e = 0 \<or> ae_data_capacity e' = 0 \<or>
     ae_data_offset e + ae_data_capacity e \<le> ae_data_offset e' \<or>
     ae_data_offset e' + ae_data_capacity e' \<le> ae_data_offset e"

definition table_ok :: "nat \<Rightarrow> nat \<Rightarrow> nat \<Rightarrow> aosfs_entry list \<Rightarrow> bool" where
  "table_ok storage_size limit next_offset es \<longleftrightarrow>
     length es = AOSFS_MAX_ENTRIES \<and> (\<forall>i < length es. entry_ok (es ! i) \<and> extent_in next_offset (es ! i)) \<and>
     (\<forall>i < length es. limit \<le> i \<longrightarrow> \<not> ae_in_use (es ! i)) \<and>
     slots_distinct ae_in_use ae_path es \<and>
     (\<forall>i < length es. \<forall>j < length es. i \<noteq> j \<longrightarrow> extents_apart (es ! i) (es ! j)) \<and>
     AOSFS_DATA_OFFSET \<le> next_offset \<and> next_offset \<le> storage_size"

definition meta_ok :: "nat \<Rightarrow> aosfs_entry list \<Rightarrow> bytes \<Rightarrow> bool" where
  "meta_ok limit es V \<longleftrightarrow>
     superblock_valid (decode_super (subarr 0 SUPER_BYTES V)) \<and>
     sb_max_entries (decode_super (subarr 0 SUPER_BYTES V)) = limit \<and>
     (\<forall>i < limit. subarr (AOSFS_TABLE_OFFSET + i * DISK_ENTRY_BYTES) DISK_ENTRY_BYTES V =
        encode_disk_entry (disk_entry_of (es ! i)))"

definition volume_inv :: "nat \<Rightarrow> aosfs_instance \<Rightarrow> bytes \<Rightarrow> bool" where
  "volume_inv storage_size a V \<longleftrightarrow> ai_mounted a \<and> ai_block_backed a \<and> ai_format_version a = AOSFS_VERSION \<and>
     storage_size + AOSFS_MAX_FILE_SIZE < 2 ^ 64 \<and> length V = storage_size \<and>
     table_ok storage_size (ai_entry_limit a) (ai_next_data_offset a) (ai_entries a) \<and>
     meta_ok (ai_entry_limit a) (ai_entries a) V"

record file_view =
  fv_kind :: u8
  fv_mode :: u16
  fv_uid :: u32
  fv_gid :: u32
  fv_inode :: u64
  fv_data :: bytes

definition view :: "bytes \<Rightarrow> aosfs_entry \<Rightarrow> file_view" where
  "view V e = \<lparr>fv_kind = ae_kind e, fv_mode = ae_mode e, fv_uid = ae_uid e, fv_gid = ae_gid e,
     fv_inode = ae_inode e, fv_data = subarr (ae_data_offset e) (ae_size e) V\<rparr>"

text \<open>What a volume holds: a map from paths to files.\<close>

definition volume_tree :: "aosfs_instance \<Rightarrow> bytes \<Rightarrow> string \<Rightarrow> file_view option" where
  "volume_tree a V = slot_map ae_in_use ae_path (view V) (ai_entries a)"

lemma entry_ok_zero [simp]: "entry_ok aosfs_entry_zero" "extent_in n aosfs_entry_zero"
  "extents_apart aosfs_entry_zero e" "extents_apart e aosfs_entry_zero"
  by (simp_all add: entry_ok_def aosfs_entry_zero_def AOSFS_PATH_MAX_def AOSFS_ENTRY_SYMLINK_def extent_in_def
      extents_apart_def)

lemma extents_apart_sym: "extents_apart e e' = extents_apart e' e"
  unfolding extents_apart_def by blast

lemma meta_limit: "meta_ok limit es V \<Longrightarrow> limit \<le> AOSFS_MAX_ENTRIES"
  by (auto simp: meta_ok_def superblock_valid_def AOSFS_MAX_ENTRIES_def AOSFS_COMPAT_MAX_ENTRIES_def)

lemma table_slot_bound:
  "limit \<le> AOSFS_MAX_ENTRIES \<Longrightarrow> i < limit \<Longrightarrow>
   AOSFS_TABLE_OFFSET + i * DISK_ENTRY_BYTES + DISK_ENTRY_BYTES \<le> AOSFS_DATA_OFFSET"
  by (simp add: aosfs_layout_defs)

lemma meta_ok_data_write:
  assumes "meta_ok limit es V" "AOSFS_DATA_OFFSET \<le> off" "off + length buf \<le> length V"
  shows "meta_ok limit es (overwrite off buf V)"
proof -
  have "subarr (AOSFS_TABLE_OFFSET + i * DISK_ENTRY_BYTES) DISK_ENTRY_BYTES (overwrite off buf V) =
      subarr (AOSFS_TABLE_OFFSET + i * DISK_ENTRY_BYTES) DISK_ENTRY_BYTES V" if "i < limit" for i
    using table_slot_bound [OF meta_limit [OF assms(1)] that] assms(2,3) by (intro subarr_overwrite_disjoint) simp_all
  moreover have "subarr 0 SUPER_BYTES (overwrite off buf V) = subarr 0 SUPER_BYTES V"
    using assms(2,3) by (intro subarr_overwrite_disjoint) (simp_all add: aosfs_layout_defs)
  ultimately show ?thesis using assms(1) by (simp add: meta_ok_def)
qed

lemma meta_ok_sync:
  assumes "meta_ok limit es V" "i < limit" "AOSFS_DATA_OFFSET \<le> length V" "length es = AOSFS_MAX_ENTRIES"
  shows "meta_ok limit (es[i := e])
    (overwrite (AOSFS_TABLE_OFFSET + i * DISK_ENTRY_BYTES) (encode_disk_entry (disk_entry_of e)) V)"
proof -
  let ?o = "\<lambda>i. AOSFS_TABLE_OFFSET + i * DISK_ENTRY_BYTES" and ?E = "encode_disk_entry (disk_entry_of e)"
  note lim = meta_limit [OF assms(1)]
  have fit: "?o j + DISK_ENTRY_BYTES \<le> length V" if "j < limit" for j
    using table_slot_bound [OF lim that] assms(3) by simp
  have "subarr (?o j) DISK_ENTRY_BYTES (overwrite (?o i) ?E V) = encode_disk_entry (disk_entry_of (es[i := e] ! j))"
    if "j < limit" for j
  proof (cases "j = i")
    case True
    then show ?thesis
      using subarr_overwrite_same [of "?o i" ?E V] fit [OF assms(2)] assms(2,4) lim by simp
  next
    case False
    then have "?o j + DISK_ENTRY_BYTES \<le> ?o i \<or> ?o i + DISK_ENTRY_BYTES \<le> ?o j"
      by (auto simp: DISK_ENTRY_BYTES_def)
    then have "subarr (?o j) DISK_ENTRY_BYTES (overwrite (?o i) ?E V) = subarr (?o j) DISK_ENTRY_BYTES V"
      using fit [OF that] fit [OF assms(2)] by (intro subarr_overwrite_disjoint) simp_all
    then show ?thesis using False that assms(1) by (simp add: meta_ok_def)
  qed
  moreover have "subarr 0 SUPER_BYTES (overwrite (?o i) ?E V) = subarr 0 SUPER_BYTES V"
    using fit [OF assms(2)] assms(3) by (intro subarr_overwrite_disjoint) (simp_all add: aosfs_layout_defs)
  ultimately show ?thesis using assms(1) by (simp add: meta_ok_def)
qed

lemma volume_inv_table:
  assumes "volume_inv S a V"
  shows "length (ai_entries a) = AOSFS_MAX_ENTRIES" "slots_distinct ae_in_use ae_path (ai_entries a)"
    "ai_entry_limit a \<le> AOSFS_MAX_ENTRIES" "AOSFS_DATA_OFFSET \<le> S" "length V = S"
    "ai_next_data_offset a \<le> S" "AOSFS_DATA_OFFSET \<le> ai_next_data_offset a" "S + AOSFS_MAX_FILE_SIZE < 2 ^ 64"
    "meta_ok (ai_entry_limit a) (ai_entries a) V"
  using assms meta_limit by (auto simp: volume_inv_def table_ok_def)

lemma volume_inv_entry:
  assumes "volume_inv S a V" "i < AOSFS_MAX_ENTRIES"
  shows "entry_ok (ai_entries a ! i)" "extent_in (ai_next_data_offset a) (ai_entries a ! i)"
    "ae_in_use (ai_entries a ! i) \<Longrightarrow> i < ai_entry_limit a"
    "j < AOSFS_MAX_ENTRIES \<Longrightarrow> i \<noteq> j \<Longrightarrow> extents_apart (ai_entries a ! i) (ai_entries a ! j)"
  using assms by (auto simp: volume_inv_def table_ok_def)

lemma volume_inv_inode [simp]: "volume_inv S (a\<lparr>ai_next_inode := n\<rparr>) V = volume_inv S a V"
  by (simp add: volume_inv_def)

lemma volume_tree_inode [simp]: "volume_tree (a\<lparr>ai_next_inode := n\<rparr>) V = volume_tree a V"
  "volume_tree (a\<lparr>ai_next_data_offset := k\<rparr>) V = volume_tree a V"
  by (simp_all add: volume_tree_def)

lemma volume_put:
  assumes inv: "volume_inv S a V" and i: "i < ai_entry_limit a" and e: "entry_ok e"
    and n: "ai_next_data_offset a \<le> n" "n \<le> S" and ext: "extent_in n e"
    and apart: "\<And>j. j < AOSFS_MAX_ENTRIES \<Longrightarrow> j \<noteq> i \<Longrightarrow> extents_apart e (ai_entries a ! j)"
    and dist: "slots_distinct ae_in_use ae_path ((ai_entries a)[i := e])"
    and V': "length V' = S" "meta_ok (ai_entry_limit a) ((ai_entries a)[i := e]) V'"
  shows "volume_inv S (a\<lparr>ai_entries := (ai_entries a)[i := e], ai_next_data_offset := n\<rparr>) V'"
proof -
  note T = volume_inv_table [OF inv]
  let ?es = "(ai_entries a)[i := e]"
  have nth: "?es ! j = (if j = i then e else ai_entries a ! j)" if "j < AOSFS_MAX_ENTRIES" for j
    using that T(1) by (simp add: nth_list_update)
  have ok: "entry_ok (?es ! j) \<and> extent_in n (?es ! j)" if "j < AOSFS_MAX_ENTRIES" for j
    using e ext volume_inv_entry(1,2) [OF inv that] n(1) nth [OF that] by (auto simp: extent_in_def)
  have beyond: "\<not> ae_in_use (?es ! j)" if "j < AOSFS_MAX_ENTRIES" "ai_entry_limit a \<le> j" for j
    using volume_inv_entry(3) [OF inv that(1)] that(2) nth [OF that(1)] i by auto
  have ap: "extents_apart (?es ! j) (?es ! k)" if "j < AOSFS_MAX_ENTRIES" "k < AOSFS_MAX_ENTRIES" "j \<noteq> k" for j k
    using apart [of j] apart [of k] volume_inv_entry(4) [OF inv that] nth [OF that(1)] nth [OF that(2)] that
    by (auto simp: extents_apart_sym [of "ai_entries a ! j"])
  have "table_ok S (ai_entry_limit a) n ?es"
    using T(1,7) n dist ok beyond ap by (auto simp: table_ok_def)
  then show ?thesis using inv V' by (simp add: volume_inv_def)
qed

definition data_in :: "nat \<Rightarrow> aosfs_entry \<Rightarrow> bool" where
  "data_in storage_size e \<longleftrightarrow> ae_size e = 0 \<or>
     AOSFS_DATA_OFFSET \<le> ae_data_offset e \<and> ae_data_offset e + ae_size e \<le> storage_size"

lemma data_in_entry: "entry_ok e \<Longrightarrow> extent_in n e \<Longrightarrow> n \<le> S \<Longrightarrow> data_in S e"
  by (auto simp: data_in_def entry_ok_def extent_in_def)

lemma volume_inv_data_in: "volume_inv S a V \<Longrightarrow> j < AOSFS_MAX_ENTRIES \<Longrightarrow> data_in S (ai_entries a ! j)"
  by (rule data_in_entry [OF volume_inv_entry(1,2) volume_inv_table(6)])

lemma view_same:
  assumes "data_in (length V) e" "off + length buf \<le> length V"
    and "ae_size e = 0 \<or> ae_data_offset e + ae_size e \<le> off \<or> off + length buf \<le> ae_data_offset e"
  shows "view (overwrite off buf V) e = view V e"
  using assms by (auto simp: view_def data_in_def subarr_overwrite_disjoint)

text \<open>Writing an entry of the table leaves every file's contents alone.\<close>

lemma view_table_write:
  assumes "data_in (length V) e" "limit \<le> AOSFS_MAX_ENTRIES" "i < limit" "AOSFS_DATA_OFFSET \<le> length V"
  shows "view (overwrite (AOSFS_TABLE_OFFSET + i * DISK_ENTRY_BYTES) (encode_disk_entry (disk_entry_of d)) V) e = view V e"
  using table_slot_bound [OF assms(2,3)] assms(1,4) by (intro view_same) (auto simp: data_in_def)

lemma volume_inv_data_write:
  assumes "volume_inv S a V" "AOSFS_DATA_OFFSET \<le> off" "off + length buf \<le> S"
  shows "volume_inv S a (overwrite off buf V)"
  using assms meta_ok_data_write [OF volume_inv_table(9) [OF assms(1)] assms(2)]
  by (simp add: volume_inv_def length_overwrite)

section \<open>Steps of a volume\<close>

text \<open>\<open>s'\<close> is \<open>s\<close> after the active instance became \<open>a\<close> and the bytes of its volume became \<open>V\<close>.\<close>

definition vol_step ::
  "('d blk_state \<Rightarrow> bool) \<Rightarrow> ('d blk_state \<Rightarrow> bytes) \<Rightarrow> 'd aosfs_state \<Rightarrow> aosfs_instance \<Rightarrow> bytes \<Rightarrow>
   'd aosfs_state \<Rightarrow> bool" where
  "vol_step invar contents s a V s' \<longleftrightarrow>
     (\<exists>b. s' = post a b s \<and> blk_after invar contents s V b) \<and> same_volume (active s) a"

definition volume_ok ::
  "u32 \<Rightarrow> ('d blk_state \<Rightarrow> bool) \<Rightarrow> ('d blk_state \<Rightarrow> bytes) \<Rightarrow> 'd aosfs_state \<Rightarrow> bool" where
  "volume_ok bid invar contents s \<longleftrightarrow> on_device bid invar s \<and>
     volume_inv (active_storage_size s) (active s) (volume_bytes contents s)"

lemma set_entry_as_post: "set_entry i e s = post ((active s)\<lparr>ai_entries := (ai_entries (active s))[i := e]\<rparr>) (fs_blk s) s"
  by (simp add: set_entry_def update_active_def post_def)

lemma update_active_as_post: "update_active f s = post (f (active s)) (fs_blk s) s"
  by (simp add: update_active_def post_def)

context byte_store
begin

lemma vol_stepD:
  assumes "on_device bid invar s" "vol_step invar contents s a V s'"
  shows "on_device bid invar s'" "active s' = a" "volume_bytes contents s' = V"
    "active_storage_size s' = active_storage_size s" "fs_parts s' = fs_parts s" "fs_initrd s' = fs_initrd s"
    "g_memory_data s' = g_memory_data s" "g_active s' = g_active s" "same_volume (active s) a"
proof -
  obtain b where b: "s' = post a b s" "blk_after invar contents s V b" "same_volume (active s) a"
    using assms(2) by (auto simp: vol_step_def)
  note P = blk_after_post [OF assms(1) b(2,3)]
  have wf: "fs_wf s" using assms(1) by (simp add: on_device_def)
  show "on_device bid invar s'" "volume_bytes contents s' = V" "active_storage_size s' = active_storage_size s"
    using P b(1) by simp_all
  show "active s' = a" "fs_parts s' = fs_parts s" "fs_initrd s' = fs_initrd s"
    "g_memory_data s' = g_memory_data s" "g_active s' = g_active s"
    using b(1) wf by (simp_all add: post_simps)
  show "same_volume (active s) a" by (rule b(3))
qed

lemma vol_step_trans:
  assumes "on_device bid invar s" "vol_step invar contents s a V s'" "vol_step invar contents s' a' V' s''"
  shows "vol_step invar contents s a' V' s''"
proof -
  obtain b where b: "s' = post a b s" "blk_after invar contents s V b" "same_volume (active s) a"
    using assms(2) by (auto simp: vol_step_def)
  obtain b' where b': "s'' = post a' b' s'" "blk_after invar contents s' V' b'" "same_volume (active s') a'"
    using assms(3) by (auto simp: vol_step_def)
  have act: "active s' = a" by (rule vol_stepD(2) [OF assms(1,2)])
  have "blk_after invar contents s V' b'" using blk_after_trans [OF assms(1) b(2,3)] b(1) b'(2) by simp
  then show ?thesis
    using b b' act same_volume_trans [OF b(3)] by (auto simp: vol_step_def post_simps)
qed

lemma vol_step_memory:
  assumes "on_device bid invar s" "same_volume (active s) a"
  shows "vol_step invar contents s a (volume_bytes contents s) (post a (fs_blk s) s)"
  using blk_after_self [OF assms(1), of "fs_blk s"] assms by (auto simp: vol_step_def on_device_def)

lemma vol_step_refl:
  assumes "on_device bid invar s"
  shows "vol_step invar contents s (active s) (volume_bytes contents s) s"
  using vol_step_memory [OF assms same_volume_refl] by (simp add: post_simps)

lemma vol_step_read:
  assumes "on_device bid invar s" "off + len \<le> active_storage_size s"
  shows "\<exists>s'. volume_read off len s = (Some (subarr off len (volume_bytes contents s)), s') \<and>
    vol_step invar contents s (active s) (volume_bytes contents s) s'"
  using volume_read_ok [OF assms] by (auto simp: vol_step_def)

lemma vol_step_write:
  assumes "on_device bid invar s" "off + length buf \<le> active_storage_size s"
  shows "\<exists>s'. volume_write off buf s = (True, s') \<and>
    vol_step invar contents s (active s) (overwrite off buf (volume_bytes contents s)) s'"
  using volume_write_ok [OF assms] by (auto simp: vol_step_def)

lemma sync_entry_step:
  assumes "on_device bid invar s" "ai_block_backed (active s)" "i < ai_entry_limit (active s)"
    and "ai_entry_limit (active s) \<le> AOSFS_MAX_ENTRIES" "AOSFS_DATA_OFFSET \<le> active_storage_size s"
  shows "\<exists>s'. sync_entry i s = (True, s') \<and> vol_step invar contents s (active s)
    (overwrite (AOSFS_TABLE_OFFSET + i * DISK_ENTRY_BYTES) (encode_disk_entry (disk_entry_of (entry_at i s))) (volume_bytes contents s)) s'"
  using vol_step_write [OF assms(1), of "AOSFS_TABLE_OFFSET + i * DISK_ENTRY_BYTES" "encode_disk_entry (disk_entry_of (entry_at i s))"]
    table_slot_bound [OF assms(4,3)] assms(2,3,5)
  by (auto simp: sync_entry_def)

text \<open>Changing one entry of the table and writing it to disk.\<close>

lemma put_entry_step:
  assumes "volume_ok bid invar contents s" "i < ai_entry_limit (active s)"
  shows "\<exists>s'. sync_entry i (set_entry i e s) = (True, s') \<and>
    vol_step invar contents s ((active s)\<lparr>ai_entries := (ai_entries (active s))[i := e]\<rparr>)
      (overwrite (AOSFS_TABLE_OFFSET + i * DISK_ENTRY_BYTES) (encode_disk_entry (disk_entry_of e)) (volume_bytes contents s)) s'"
proof -
  have od: "on_device bid invar s" and inv: "volume_inv (active_storage_size s) (active s) (volume_bytes contents s)"
    using assms(1) by (simp_all add: volume_ok_def)
  note T = volume_inv_table [OF inv]
  let ?a = "(active s)\<lparr>ai_entries := (ai_entries (active s))[i := e]\<rparr>"
  have st: "vol_step invar contents s ?a (volume_bytes contents s) (set_entry i e s)"
    unfolding set_entry_as_post by (rule vol_step_memory [OF od]) simp
  note D = vol_stepD [OF od st]
  have e: "entry_at i (set_entry i e s) = e" using D(2) assms(2) T(1,3) by (simp add: entry_at_def)
  have bb: "ai_block_backed (active s)" using inv by (simp add: volume_inv_def)
  have "\<exists>s'. sync_entry i (set_entry i e s) = (True, s') \<and> vol_step invar contents (set_entry i e s) ?a
    (overwrite (AOSFS_TABLE_OFFSET + i * DISK_ENTRY_BYTES) (encode_disk_entry (disk_entry_of e)) (volume_bytes contents s)) s'"
    using sync_entry_step [OF D(1), of i] assms(2) T(3,4) bb D(2,3,4) e by simp
  then show ?thesis using vol_step_trans [OF od st] by blast
qed

end

section \<open>Copying and clearing\<close>

context byte_store
begin

lemma copy_extent_step:
  assumes "on_device bid invar s" "from + sz \<le> active_storage_size s" "to + sz \<le> active_storage_size s"
    and "from + sz \<le> to \<or> to + sz \<le> from" "copied \<le> sz"
  shows "\<exists>s'. copy_extent_loop from to copied sz s = (True, s') \<and> vol_step invar contents s (active s)
    (overwrite (to + copied) (subarr (from + copied) (sz - copied) (volume_bytes contents s)) (volume_bytes contents s)) s'"
  using assms(1-3,5)
proof (induction "sz - copied" arbitrary: copied s rule: less_induct)
  case less
  let ?V = "volume_bytes contents s"
  note F = storage_fits [OF less.prems(1)]
  show ?case
  proof (cases "copied < sz")
    case False
    then show ?thesis
      using vol_step_refl [OF less.prems(1)] less.prems(3,4) F(3) copy_extent_loop.simps [of "from" to copied sz s]
      by simp
  next
    case True
    define c where "c = (if sz - copied > EXTENT_COPY_BYTES then EXTENT_COPY_BYTES else sz - copied)"
    have c: "0 < c" "copied + c \<le> sz" using True by (auto simp: c_def EXTENT_COPY_BYTES_def)
    define ys where "ys = subarr (from + copied) c ?V"
    have ys: "length ys = c" using less.prems(2) c(2) F(3) by (simp add: ys_def arr_simps)
    obtain s1 where s1: "volume_read (from + copied) c s = (Some ys, s1)" "vol_step invar contents s (active s) ?V s1"
      using vol_step_read [OF less.prems(1), of "from + copied" c] less.prems(2) c(2) by (auto simp: ys_def)
    note D1 = vol_stepD [OF less.prems(1) s1(2)]
    let ?V2 = "overwrite (to + copied) ys ?V"
    obtain s2 where s2: "volume_write (to + copied) ys s1 = (True, s2)" "vol_step invar contents s1 (active s) ?V2 s2"
      using vol_step_write [OF D1(1), of "to + copied" ys] less.prems(3) c(2) ys D1(2,3,4) by auto
    have t2: "vol_step invar contents s (active s) ?V2 s2" by (rule vol_step_trans [OF less.prems(1) s1(2) s2(2)])
    note D2 = vol_stepD [OF less.prems(1) t2]
    have lt: "sz - (copied + c) < sz - copied" using c by linarith
    define zs where "zs = subarr (from + (copied + c)) (sz - (copied + c)) ?V"
    have zs: "subarr (from + (copied + c)) (sz - (copied + c)) ?V2 = zs"
      using assms(4) less.prems(2,3) c(2) F(3) ys unfolding zs_def by (intro subarr_overwrite_disjoint) auto
    obtain s3 where s3: "copy_extent_loop from to (copied + c) sz s2 = (True, s3)"
        "vol_step invar contents s2 (active s) (overwrite (to + (copied + c)) zs ?V2) s3"
      using less.hyps [OF lt D2(1)] D2(2-4) c less.prems(2,3) zs by auto
    have cat: "ys @ zs = subarr (from + copied) (sz - copied) ?V"
      using subarr_append_next [of "from + copied" c ?V "sz - (copied + c)"] c(2) by (simp add: ys_def zs_def ac_simps)
    have lz: "length zs = sz - (copied + c)" using less.prems(2) F(3) c(2) by (simp add: zs_def arr_simps)
    have "overwrite (to + (copied + c)) zs ?V2 = overwrite (to + copied) (ys @ zs) ?V"
      using overwrite_overwrite [of "to + copied" ys zs ?V] ys lz less.prems(3) F(3) c(2) by (simp add: ac_simps)
    then have "vol_step invar contents s (active s) (overwrite (to + copied) (subarr (from + copied) (sz - copied) ?V) ?V) s3"
      using vol_step_trans [OF less.prems(1) t2 s3(2)] cat by simp
    moreover have "copy_extent_loop from to copied sz s = (True, s3)"
      using s1(1) s2(1) s3(1) True
      by (simp add: copy_extent_loop.simps [of "from" to copied sz s] Let_def flip: c_def)
    ultimately show ?thesis by blast
  qed
qed

lemma zero_fill_step:
  assumes "on_device bid invar s" "entry_data_offset i s + sz \<le> active_storage_size s" "position \<le> sz"
  shows "\<exists>s'. zero_fill_loop i position sz s = (True, s') \<and> vol_step invar contents s (active s)
    (overwrite (entry_data_offset i s + position) (replicate (sz - position) 0) (volume_bytes contents s)) s'"
  using assms
proof (induction "sz - position" arbitrary: position s rule: less_induct)
  case less
  let ?V = "volume_bytes contents s" and ?d = "entry_data_offset i s"
  note F = storage_fits [OF less.prems(1)]
  show ?case
  proof (cases "position < sz")
    case False
    then show ?thesis
      using vol_step_refl [OF less.prems(1)] less.prems(2,3) F(3) zero_fill_loop.simps [of i position sz s]
      by simp
  next
    case True
    define c where "c = (if sz - position > ZERO_CHUNK_BYTES then ZERO_CHUNK_BYTES else sz - position)"
    have c: "0 < c" "position + c \<le> sz" using True by (auto simp: c_def ZERO_CHUNK_BYTES_def)
    let ?V2 = "overwrite (?d + position) (replicate c 0) ?V"
    obtain s2 where s2: "volume_write (?d + position) (replicate c 0) s = (True, s2)"
        "vol_step invar contents s (active s) ?V2 s2"
      using vol_step_write [OF less.prems(1), of "?d + position" "replicate c 0"] less.prems(2) c(2) by auto
    note D2 = vol_stepD [OF less.prems(1) s2(2)]
    have d: "entry_data_offset i s2 = ?d" using D2(2) by (simp add: entry_data_offset_def entry_at_def)
    have lt: "sz - (position + c) < sz - position" using c by linarith
    obtain s3 where s3: "zero_fill_loop i (position + c) sz s2 = (True, s3)"
        "vol_step invar contents s2 (active s) (overwrite (?d + (position + c)) (replicate (sz - (position + c)) 0) ?V2) s3"
      using less.hyps [OF lt D2(1)] D2(2-4) c less.prems(2) d by auto
    have "replicate c 0 @ replicate (sz - (position + c)) 0 = replicate (sz - position) (0 :: u8)"
      using c(2) by (simp flip: replicate_add)
    then have "overwrite (?d + (position + c)) (replicate (sz - (position + c)) 0) ?V2 =
        overwrite (?d + position) (replicate (sz - position) 0) ?V"
      using overwrite_overwrite [of "?d + position" "replicate c 0" "replicate (sz - (position + c)) 0" ?V]
        less.prems(2) F(3) c(2) by (simp add: ac_simps)
    then have "vol_step invar contents s (active s) (overwrite (?d + position) (replicate (sz - position) 0) ?V) s3"
      using vol_step_trans [OF less.prems(1) s2(2) s3(2)] by simp
    moreover have "zero_fill_loop i position sz s = (True, s3)"
      using s2(1) s3(1) True by (simp add: zero_fill_loop.simps [of i position sz s] Let_def flip: c_def)
    ultimately show ?thesis by blast
  qed
qed

end

end
