(* ===== verification/Aosfs_Files.thy ===== *)
theory Aosfs_Files
  imports Aosfs_Volume
begin

text \<open>
  The operations of AOSFS on a volume: each keeps the invariant of the volume and is one update of
  the map from paths to files.
\<close>

section \<open>Changing an entry\<close>

lemma volume_okD:
  assumes "volume_ok bid invar contents s"
  shows "on_device bid invar s" "volume_inv (active_storage_size s) (active s) (volume_bytes contents s)"
    "ai_block_backed (active s)" "ai_format_version (active s) = AOSFS_VERSION" "fs_wf s"
  using assms by (auto simp: volume_ok_def volume_inv_def on_device_def)

context byte_store
begin

lemma put_entry_ok:
  assumes vok: "volume_ok bid invar contents s" and i: "i < ai_entry_limit (active s)" and e: "entry_ok e"
    and n: "ai_next_data_offset (active s) \<le> n" "n \<le> active_storage_size s" and ext: "extent_in n e"
    and apart: "\<And>j. j < AOSFS_MAX_ENTRIES \<Longrightarrow> j \<noteq> i \<Longrightarrow> extents_apart e (ai_entries (active s) ! j)"
    and dist: "slots_distinct ae_in_use ae_path ((ai_entries (active s))[i := e])"
  shows "\<exists>V s'. sync_entry i (set_entry i e s) = (True, s') \<and>
    vol_step invar contents s ((active s)\<lparr>ai_entries := (ai_entries (active s))[i := e]\<rparr>) V s' \<and>
    volume_inv (active_storage_size s)
      ((active s)\<lparr>ai_entries := (ai_entries (active s))[i := e], ai_next_data_offset := n\<rparr>) V \<and>
    (\<forall>e. data_in (active_storage_size s) e \<longrightarrow> view V e = view (volume_bytes contents s) e)"
proof -
  note O = volume_okD [OF vok]
  note T = volume_inv_table [OF O(2)]
  let ?a = "(active s)\<lparr>ai_entries := (ai_entries (active s))[i := e]\<rparr>"
  define V where "V = overwrite (AOSFS_TABLE_OFFSET + i * DISK_ENTRY_BYTES) (encode_disk_entry (disk_entry_of e)) (volume_bytes contents s)"
  obtain s' where s': "sync_entry i (set_entry i e s) = (True, s')" "vol_step invar contents s ?a V s'"
    using put_entry_step [OF vok i] by (auto simp: V_def)
  have lenV: "length V = active_storage_size s"
    using T(4,5) table_slot_bound [OF T(3) i] by (simp add: V_def arr_simps)
  have meta: "meta_ok (ai_entry_limit (active s)) ((ai_entries (active s))[i := e]) V"
    unfolding V_def using meta_ok_sync [OF T(9) i] T(1,4,5) by simp
  have "volume_inv (active_storage_size s) (?a\<lparr>ai_next_data_offset := n\<rparr>) V"
    using volume_put [OF O(2) i e n ext apart dist lenV meta] by simp
  moreover have "\<forall>e. data_in (active_storage_size s) e \<longrightarrow> view V e = view (volume_bytes contents s) e"
    using view_table_write [OF _ T(3) i] T(4,5) by (auto simp: V_def)
  ultimately show ?thesis using s' by blast
qed

lemma blkdev_present: "on_device bid invar s \<Longrightarrow> blkdev_get (ai_blkdev_id (active s)) (fs_blk s) \<noteq> None"
  using size_law by (auto simp: on_device_def)

end

text \<open>What a successful reservation of an extent promises.\<close>

definition reserved ::
  "nat \<Rightarrow> nat \<Rightarrow> nat \<Rightarrow> aosfs_instance \<Rightarrow> bytes \<Rightarrow> aosfs_entry \<Rightarrow> nat \<Rightarrow> bytes \<Rightarrow> bool" where
  "reserved S i required a V e n V' \<longleftrightarrow>
     volume_inv S (a\<lparr>ai_entries := (ai_entries a)[i := e], ai_next_data_offset := n\<rparr>) V' \<and>
     required \<le> ae_data_capacity e \<and>
     (\<exists>off cap. e = (ai_entries a ! i)\<lparr>ae_data_offset := off, ae_data_capacity := cap\<rparr>) \<and>
     view V' e = view V (ai_entries a ! i) \<and>
     (\<forall>j < AOSFS_MAX_ENTRIES. j \<noteq> i \<longrightarrow> view V' (ai_entries a ! j) = view V (ai_entries a ! j))"

lemma resized_entry_ok:
  assumes "entry_ok e" "ae_in_use e" "ae_kind e \<noteq> AOSFS_ENTRY_DIRECTORY" "ae_size e \<le> cap" "0 < cap" "cap \<le> AOSFS_MAX_FILE_SIZE"
  shows "entry_ok (e\<lparr>ae_data_offset := off, ae_data_capacity := cap\<rparr>)"
  using assms by (auto simp: entry_ok_def)

lemma slots_distinct_extent:
  assumes "slots_distinct ae_in_use ae_path es" "i < length es"
    and "ae_in_use e = ae_in_use (es ! i)" "ae_path e = ae_path (es ! i)"
  shows "slots_distinct ae_in_use ae_path (es[i := e])"
proof -
  have "ae_in_use (es[i := e] ! j) = ae_in_use (es ! j) \<and> ae_path (es[i := e] ! j) = ae_path (es ! j)" for j
    using assms(2-4) by (cases "j = i") simp_all
  with assms(1) show ?thesis by (simp add: slots_distinct_def)
qed

section \<open>Reserving an extent\<close>

context byte_store
begin

text \<open>An entry gets a new extent, is written to disk, and the allocation pointer moves behind it.\<close>

lemma commit_extent:
  assumes vok: "volume_ok bid invar contents s" and i: "i < ai_entry_limit (active s)"
    and e: "e = (ai_entries (active s) ! i)\<lparr>ae_data_offset := off, ae_data_capacity := cap\<rparr>"
    and used: "ae_in_use (ai_entries (active s) ! i)" "ae_kind (ai_entries (active s) ! i) \<noteq> AOSFS_ENTRY_DIRECTORY"
    and cap: "ae_size (ai_entries (active s) ! i) \<le> cap" "0 < cap" "cap \<le> AOSFS_MAX_FILE_SIZE" "required \<le> cap"
    and off: "AOSFS_DATA_OFFSET \<le> off" "ai_next_data_offset (active s) \<le> off + cap" "off + cap \<le> active_storage_size s"
    and apart: "\<And>j. j < AOSFS_MAX_ENTRIES \<Longrightarrow> j \<noteq> i \<Longrightarrow> extents_apart e (ai_entries (active s) ! j)"
  shows "\<exists>V s1 s2. sync_entry i (set_entry i e s) = (True, s1) \<and>
    update_active (\<lambda>a. a\<lparr>ai_next_data_offset := off + cap\<rparr>) s1 = s2 \<and>
    vol_step invar contents s ((active s)\<lparr>ai_entries := (ai_entries (active s))[i := e], ai_next_data_offset := off + cap\<rparr>) V s2 \<and>
    volume_inv (active_storage_size s)
      ((active s)\<lparr>ai_entries := (ai_entries (active s))[i := e], ai_next_data_offset := off + cap\<rparr>) V \<and>
    (\<forall>e. data_in (active_storage_size s) e \<longrightarrow> view V e = view (volume_bytes contents s) e)"
proof -
  note O = volume_okD [OF vok]
  note T = volume_inv_table [OF O(2)]
  have im: "i < AOSFS_MAX_ENTRIES" using i T(3) by simp
  let ?a = "(active s)\<lparr>ai_entries := (ai_entries (active s))[i := e]\<rparr>"
  have eok: "entry_ok e" unfolding e
    using volume_inv_entry(1) [OF O(2) im] used cap(1-3) by (rule resized_entry_ok)
  have ext: "extent_in (off + cap) e" using off(1) by (simp add: e extent_in_def)
  have dist: "slots_distinct ae_in_use ae_path ((ai_entries (active s))[i := e])"
    using slots_distinct_extent [OF T(2)] im T(1) by (simp add: e)
  obtain V s1 where s1: "sync_entry i (set_entry i e s) = (True, s1)" "vol_step invar contents s ?a V s1"
      "volume_inv (active_storage_size s) (?a\<lparr>ai_next_data_offset := off + cap\<rparr>) V"
      "\<forall>e. data_in (active_storage_size s) e \<longrightarrow> view V e = view (volume_bytes contents s) e"
    using put_entry_ok [OF vok i eok off(2,3) ext apart dist] by auto
  note D = vol_stepD [OF O(1) s1(2)]
  have "vol_step invar contents s1 (?a\<lparr>ai_next_data_offset := off + cap\<rparr>) V
      (update_active (\<lambda>a. a\<lparr>ai_next_data_offset := off + cap\<rparr>) s1)"
    unfolding update_active_as_post D(2) using vol_step_memory [OF D(1), of "?a\<lparr>ai_next_data_offset := off + cap\<rparr>"] D(2,3) by simp
  then show ?thesis using vol_step_trans [OF O(1) s1(2)] s1 by auto
qed

lemma reserve_in_place:
  assumes vok: "volume_ok bid invar contents s" and i: "i < ai_entry_limit (active s)"
    and used: "ae_in_use (ai_entries (active s) ! i)" "ae_kind (ai_entries (active s) ! i) \<noteq> AOSFS_ENTRY_DIRECTORY"
    and grow: "ae_data_capacity (ai_entries (active s) ! i) \<noteq> 0"
      "ae_data_offset (ai_entries (active s) ! i) + ae_data_capacity (ai_entries (active s) ! i) = ai_next_data_offset (active s)"
    and cap: "ae_data_capacity (ai_entries (active s) ! i) \<le> cap" "cap \<le> AOSFS_MAX_FILE_SIZE" "required \<le> cap"
    and fits: "ae_data_offset (ai_entries (active s) ! i) + cap \<le> active_storage_size s"
    and e: "e = (ai_entries (active s) ! i)\<lparr>ae_data_capacity := cap\<rparr>"
    and n: "n = ae_data_offset (ai_entries (active s) ! i) + cap"
  shows "\<exists>V s1 s2. sync_entry i (set_entry i e s) = (True, s1) \<and>
    update_active (\<lambda>a. a\<lparr>ai_next_data_offset := n\<rparr>) s1 = s2 \<and>
    vol_step invar contents s ((active s)\<lparr>ai_entries := (ai_entries (active s))[i := e], ai_next_data_offset := n\<rparr>) V s2 \<and>
    reserved (active_storage_size s) i required (active s) (volume_bytes contents s) e n V"
proof -
  note O = volume_okD [OF vok]
  note T = volume_inv_table [OF O(2)]
  have im: "i < AOSFS_MAX_ENTRIES" using i T(3) by simp
  let ?old = "ai_entries (active s) ! i"
  note E = volume_inv_entry [OF O(2) im]
  have e': "e = ?old\<lparr>ae_data_offset := ae_data_offset ?old, ae_data_capacity := cap\<rparr>"
    unfolding e by (cases ?old) simp
  have size: "ae_size ?old \<le> cap" "0 < cap" using E(1) cap(1) grow(1) by (simp_all add: entry_ok_def)
  have off: "AOSFS_DATA_OFFSET \<le> ae_data_offset ?old" using E(2) grow(1) by (simp add: extent_in_def)
  have apart: "extents_apart e (ai_entries (active s) ! j)" if "j < AOSFS_MAX_ENTRIES" "j \<noteq> i" for j
    using E(4) [OF that(1)] volume_inv_entry(2) [OF O(2) that(1)] grow that(2)
    by (auto simp: extents_apart_def extent_in_def e)
  obtain V s1 s2 where c: "sync_entry i (set_entry i e s) = (True, s1)"
      "update_active (\<lambda>a. a\<lparr>ai_next_data_offset := n\<rparr>) s1 = s2"
      "vol_step invar contents s ((active s)\<lparr>ai_entries := (ai_entries (active s))[i := e], ai_next_data_offset := n\<rparr>) V s2"
      "volume_inv (active_storage_size s) ((active s)\<lparr>ai_entries := (ai_entries (active s))[i := e], ai_next_data_offset := n\<rparr>) V"
      "\<forall>e. data_in (active_storage_size s) e \<longrightarrow> view V e = view (volume_bytes contents s) e"
    using commit_extent [OF vok i e' used size cap(2,3) off _ fits apart] grow(2) cap(1) n by auto
  have same: "view V e = view (volume_bytes contents s) ?old"
    using c(5) volume_inv_data_in [OF O(2) im] by (simp add: e view_def)
  have "\<exists>off cap. e = ?old\<lparr>ae_data_offset := off, ae_data_capacity := cap\<rparr>"
    by (rule exI, rule exI, rule e')
  moreover have "required \<le> ae_data_capacity e" using cap(3) by (simp add: e)
  moreover have "\<forall>j < AOSFS_MAX_ENTRIES. j \<noteq> i \<longrightarrow> view V (ai_entries (active s) ! j) = view (volume_bytes contents s) (ai_entries (active s) ! j)"
    using c(5) volume_inv_data_in [OF O(2)] by blast
  ultimately have "reserved (active_storage_size s) i required (active s) (volume_bytes contents s) e n V"
    unfolding reserved_def using c(4) same by blast
  then show ?thesis using c by blast
qed

end

context byte_store
begin

lemma reserve_move:
  assumes vok: "volume_ok bid invar contents s" and i: "i < ai_entry_limit (active s)"
    and used: "ae_in_use (ai_entries (active s) ! i)" "ae_kind (ai_entries (active s) ! i) \<noteq> AOSFS_ENTRY_DIRECTORY"
    and cap: "ae_data_capacity (ai_entries (active s) ! i) \<le> cap" "0 < cap" "cap \<le> AOSFS_MAX_FILE_SIZE" "required \<le> cap"
    and off: "ai_next_data_offset (active s) \<le> off" "off + cap \<le> active_storage_size s"
    and e: "e = (ai_entries (active s) ! i)\<lparr>ae_data_offset := off, ae_data_capacity := cap\<rparr>"
  shows "\<exists>V s0 s1 s2. (if ae_size (ai_entries (active s) ! i) = 0 then (True, s)
      else if ae_data_capacity (ai_entries (active s) ! i) = 0 then (False, s)
      else copy_extent_loop (ae_data_offset (ai_entries (active s) ! i)) off 0 (ae_size (ai_entries (active s) ! i)) s) = (True, s0) \<and>
    active s0 = active s \<and>
    sync_entry i (set_entry i e s0) = (True, s1) \<and>
    update_active (\<lambda>a. a\<lparr>ai_next_data_offset := off + cap\<rparr>) s1 = s2 \<and>
    vol_step invar contents s ((active s)\<lparr>ai_entries := (ai_entries (active s))[i := e], ai_next_data_offset := off + cap\<rparr>) V s2 \<and>
    reserved (active_storage_size s) i required (active s) (volume_bytes contents s) e (off + cap) V"
proof -
  note O = volume_okD [OF vok]
  note T = volume_inv_table [OF O(2)]
  have im: "i < AOSFS_MAX_ENTRIES" using i T(3) by simp
  let ?old = "ai_entries (active s) ! i" and ?V = "volume_bytes contents s"
  note E = volume_inv_entry [OF O(2) im]
  have size: "ae_size ?old \<le> cap" "ae_size ?old \<le> ae_data_capacity ?old" using E(1) cap(1) by (simp_all add: entry_ok_def)
  have low: "AOSFS_DATA_OFFSET \<le> off" using off(1) T(7) by simp
  have old: "ae_data_offset ?old + ae_size ?old \<le> ai_next_data_offset (active s)" if "ae_size ?old \<noteq> 0"
    using E(2) size(2) that by (simp add: extent_in_def)
  define buf where "buf = subarr (ae_data_offset ?old) (ae_size ?old) ?V"
  have buf: "length buf = ae_size ?old"
    using old T(5,6) by (cases "ae_size ?old = 0") (simp_all add: buf_def arr_simps)
  define V0 where "V0 = overwrite off buf ?V"
  have fit: "off + length buf \<le> active_storage_size s" using buf size(1) off(2) by simp
  have copy: "\<exists>s0. (if ae_size ?old = 0 then (True, s) else if ae_data_capacity ?old = 0 then (False, s)
      else copy_extent_loop (ae_data_offset ?old) off 0 (ae_size ?old) s) = (True, s0) \<and>
      vol_step invar contents s (active s) V0 s0"
  proof (cases "ae_size ?old = 0")
    case True
    then have "V0 = ?V" using buf fit T(5) by (simp add: V0_def)
    with True vol_step_refl [OF O(1)] show ?thesis by simp
  next
    case False
    then show ?thesis
      using copy_extent_step [OF O(1), of "ae_data_offset ?old" "ae_size ?old" off 0] old off size T(6)
      by (simp add: V0_def buf_def)
  qed
  then obtain s0 where s0: "(if ae_size ?old = 0 then (True, s) else if ae_data_capacity ?old = 0 then (False, s)
      else copy_extent_loop (ae_data_offset ?old) off 0 (ae_size ?old) s) = (True, s0)"
      "vol_step invar contents s (active s) V0 s0" by blast
  note D = vol_stepD [OF O(1) s0(2)]
  have inv0: "volume_inv (active_storage_size s) (active s) V0"
    unfolding V0_def by (rule volume_inv_data_write [OF O(2) low fit])
  have vok0: "volume_ok bid invar contents s0" using D inv0 by (simp add: volume_ok_def)
  have apart: "extents_apart e (ai_entries (active s) ! j)" if "j < AOSFS_MAX_ENTRIES" "j \<noteq> i" for j
    using volume_inv_entry(2) [OF O(2) that(1)] off(1) by (auto simp: extents_apart_def extent_in_def e)
  have le: "ai_next_data_offset (active s) \<le> off + cap" using off(1) by simp
  obtain V s1 s2 where c: "sync_entry i (set_entry i e s0) = (True, s1)"
      "update_active (\<lambda>a. a\<lparr>ai_next_data_offset := off + cap\<rparr>) s1 = s2"
      "vol_step invar contents s0 ((active s)\<lparr>ai_entries := (ai_entries (active s))[i := e], ai_next_data_offset := off + cap\<rparr>) V s2"
      "volume_inv (active_storage_size s) ((active s)\<lparr>ai_entries := (ai_entries (active s))[i := e], ai_next_data_offset := off + cap\<rparr>) V"
      "\<forall>e. data_in (active_storage_size s) e \<longrightarrow> view V e = view V0 e"
    using commit_extent [OF vok0, unfolded D(2-4), OF i e used size(1) cap(2-4) low le off(2) apart] by auto
  have st: "vol_step invar contents s ((active s)\<lparr>ai_entries := (ai_entries (active s))[i := e], ai_next_data_offset := off + cap\<rparr>) V s2"
    by (rule vol_step_trans [OF O(1) s0(2) c(3)])
  have other: "view V0 (ai_entries (active s) ! j) = view ?V (ai_entries (active s) ! j)" if "j < AOSFS_MAX_ENTRIES" "j \<noteq> i" for j
    unfolding V0_def
    using volume_inv_data_in [OF O(2) that(1)] volume_inv_entry(1,2) [OF O(2) that(1)] off(1) fit T(5)
    by (intro view_same) (auto simp: entry_ok_def extent_in_def)
  have "data_in (active_storage_size s) e" using low size(1) off(2) by (auto simp: data_in_def e)
  then have "view V e = view V0 e" using c(5) by blast
  also have "\<dots> = view ?V ?old"
  proof -
    have "subarr off (length buf) V0 = buf" unfolding V0_def using fit T(5) by (intro subarr_overwrite_same) simp
    then show ?thesis using buf by (simp add: view_def e buf_def)
  qed
  finally have same: "view V e = view ?V ?old" .
  have "\<forall>j < AOSFS_MAX_ENTRIES. j \<noteq> i \<longrightarrow> view V (ai_entries (active s) ! j) = view ?V (ai_entries (active s) ! j)"
    using c(5) other volume_inv_data_in [OF O(2)] by simp
  moreover have "required \<le> ae_data_capacity e" using cap(4) by (simp add: e)
  ultimately have "reserved (active_storage_size s) i required (active s) ?V e (off + cap) V"
    unfolding reserved_def using c(4) same e by blast
  then show ?thesis using s0(1) D(2) c(1,2) st by blast
qed

end

text \<open>Too little space is left at the end of the volume to give the entry room for \<open>required\<close> bytes.\<close>

definition no_room :: "nat \<Rightarrow> nat \<Rightarrow> 'd aosfs_state \<Rightarrow> bool" where
  "no_room i required s \<longleftrightarrow> active_storage_size s < ai_next_data_offset (active s) + AOSFS_EXTENT_ALIGNMENT +
     extent_capacity (ae_data_capacity (ai_entries (active s) ! i)) required"

context byte_store
begin

text \<open>Reserving an extent either changes nothing (no room is left) or gives the entry enough room; the
  contents of every file, including this one, stay the same.\<close>

lemma reserve_result:
  assumes vok: "volume_ok bid invar contents s" and i: "i < ai_entry_limit (active s)"
    and used: "ae_in_use (ai_entries (active s) ! i)" "ae_kind (ai_entries (active s) ! i) \<noteq> AOSFS_ENTRY_DIRECTORY"
    and req: "required \<le> AOSFS_MAX_FILE_SIZE"
  shows "(reserve_entry_extent i required s = (False, s) \<and> no_room i required s) \<or>
    (\<exists>e n V s'. reserve_entry_extent i required s = (True, s') \<and>
      vol_step invar contents s ((active s)\<lparr>ai_entries := (ai_entries (active s))[i := e], ai_next_data_offset := n\<rparr>) V s' \<and>
      reserved (active_storage_size s) i required (active s) (volume_bytes contents s) e n V)"
proof -
  note O = volume_okD [OF vok]
  note T = volume_inv_table [OF O(2)]
  have im: "i < AOSFS_MAX_ENTRIES" using i T(3) by simp
  let ?old = "ai_entries (active s) ! i"
  note E = volume_inv_entry [OF O(2) im]
  have guard: "\<not> (i \<ge> ai_entry_limit (active s) \<or> \<not> ai_block_backed (active s) \<or>
      ai_format_version (active s) < AOSFS_VERSION \<or> required > AOSFS_MAX_FILE_SIZE)"
    using i O(3,4) req by simp
  have capmax: "ae_data_capacity ?old \<le> AOSFS_MAX_FILE_SIZE" using E(1) by (simp add: entry_ok_def)
  define cap where "cap = extent_capacity (ae_data_capacity ?old) required"
  have cap: "required \<le> cap" "cap \<le> AOSFS_MAX_FILE_SIZE" "ae_data_capacity ?old \<le> cap" "0 < cap"
    unfolding cap_def by (rule extent_capacity_bounds [OF capmax req])+
  note R = reserve_entry_extent_def [of i required s, unfolded Let_def entry_at_def, folded cap_def]
  have present: "blkdev_get (ai_blkdev_id (active s)) (fs_blk s) \<noteq> None" by (rule blkdev_present [OF O(1)])
  consider (fits) "required \<le> ae_data_capacity ?old"
    | (place) "\<not> required \<le> ae_data_capacity ?old" "ae_data_capacity ?old \<noteq> 0"
        "ae_data_offset ?old + ae_data_capacity ?old = ai_next_data_offset (active s)"
    | (move) "\<not> required \<le> ae_data_capacity ?old"
        "ae_data_capacity ?old = 0 \<or> ae_data_offset ?old + ae_data_capacity ?old \<noteq> ai_next_data_offset (active s)"
    by argo
  then show ?thesis
  proof cases
    case fits
    have same: "(active s)\<lparr>ai_entries := (ai_entries (active s))[i := ?old], ai_next_data_offset := ai_next_data_offset (active s)\<rparr> = active s"
      by simp
    have "\<exists>off cap. ?old = ?old\<lparr>ae_data_offset := off, ae_data_capacity := cap\<rparr>"
      by (rule exI [of _ "ae_data_offset ?old"], rule exI [of _ "ae_data_capacity ?old"]) simp
    then have "reserved (active_storage_size s) i required (active s) (volume_bytes contents s) ?old (ai_next_data_offset (active s)) (volume_bytes contents s)"
      unfolding reserved_def same using O(2) fits by blast
    moreover have "reserve_entry_extent i required s = (True, s)" using R guard fits by simp
    ultimately show ?thesis using vol_step_refl [OF O(1)] same by metis
  next
    case place
    have off: "ae_data_offset ?old \<le> UINT64_MAX - ae_data_capacity ?old"
      using place(3) T(6,8) by (simp add: UINT64_MAX_def)
    have mod: "(ae_data_offset ?old + cap) mod 2 ^ 64 = ae_data_offset ?old + cap"
      using place(3) T(6,8) cap(2) by (intro mod_less) linarith
    show ?thesis
    proof (cases "ae_data_offset ?old + cap \<le> active_storage_size s")
      case False
      then have "no_room i required s" using place(3) by (simp add: no_room_def cap_def [symmetric])
      then show ?thesis using False R guard place off mod present cap(1,2) by simp
    next
      case True
      then show ?thesis
        using reserve_in_place [OF vok i used place(2,3) cap(3,2,1) True refl refl] R guard place off mod present cap(1,2)
        by auto
    qed
  next
    case move
    define off where "off = align_up_u64 (ai_next_data_offset (active s)) AOSFS_EXTENT_ALIGNMENT"
    have next_le: "ai_next_data_offset (active s) \<le> UINT64_MAX - 4095"
      using T(6,8) by (simp add: UINT64_MAX_def AOSFS_MAX_FILE_SIZE_def)
    note A = align_up_bounds [OF next_le, folded off_def]
    show ?thesis
    proof (cases "off + cap \<le> active_storage_size s")
      case False
      then have "no_room i required s" using A(2) by (simp add: no_room_def cap_def [symmetric] AOSFS_EXTENT_ALIGNMENT_def)
      then show ?thesis using False R guard move present cap(1,2) by (auto simp: off_def)
    next
      case True
      have nowrap: "\<not> (off = UINT64_MAX \<or> off > UINT64_MAX - cap)"
        using True T(8) cap(4) by (simp add: UINT64_MAX_def AOSFS_MAX_FILE_SIZE_def)
      obtain V s0 s1 s2 where M: "(if ae_size ?old = 0 then (True, s) else if ae_data_capacity ?old = 0 then (False, s)
            else copy_extent_loop (ae_data_offset ?old) off 0 (ae_size ?old) s) = (True, s0)" "active s0 = active s"
          "sync_entry i (set_entry i (?old\<lparr>ae_data_offset := off, ae_data_capacity := cap\<rparr>) s0) = (True, s1)"
          "update_active (\<lambda>a. a\<lparr>ai_next_data_offset := off + cap\<rparr>) s1 = s2"
          "vol_step invar contents s ((active s)\<lparr>ai_entries := (ai_entries (active s))[i := ?old\<lparr>ae_data_offset := off, ae_data_capacity := cap\<rparr>],
             ai_next_data_offset := off + cap\<rparr>) V s2"
          "reserved (active_storage_size s) i required (active s) (volume_bytes contents s)
             (?old\<lparr>ae_data_offset := off, ae_data_capacity := cap\<rparr>) (off + cap) V"
        using reserve_move [OF vok i used cap(3,4,2,1) A(1) True refl] by blast
      have np: "\<not> (ae_data_capacity ?old \<noteq> 0 \<and> ae_data_offset ?old \<le> UINT64_MAX - ae_data_capacity ?old \<and>
          ae_data_offset ?old + ae_data_capacity ?old = ai_next_data_offset (active s))"
        using move(2) by argo
      have cond: "\<not> required \<le> ae_data_capacity ?old" "\<not> (cap < required \<or> cap > AOSFS_MAX_FILE_SIZE)"
        "\<not> (blkdev_get (ai_blkdev_id (active s)) (fs_blk s) = None \<or> off + cap > active_storage_size s)"
        using move(1) cap(1,2) present True by auto
      have "reserve_entry_extent i required s = (True, s2)"
        unfolding R [folded off_def] if_not_P [OF guard] if_not_P [OF np] if_not_P [OF nowrap]
          if_not_P [OF cond(1)] if_not_P [OF cond(2)] if_not_P [OF cond(3)] M(1) M(2) prod.case bool.case M(3) M(4) ..
      then show ?thesis using M(5,6) by blast
    qed
  qed
qed

end

section \<open>Finding entries\<close>

lemma aosfs_find_slot:
  assumes "volume_inv S (active s) V"
  shows "aosfs_find_entry q s = slot_of ae_in_use ae_path (ai_entries (active s)) q"
proof -
  have "\<not> (ae_in_use (ai_entries (active s) ! j) \<and> ae_path (ai_entries (active s) ! j) = q)"
    if "ai_entry_limit (active s) \<le> j" "j < length (ai_entries (active s))" for j
    using volume_inv_entry(3) [OF assms, of j] volume_inv_table(1) [OF assms] that by auto
  then show ?thesis
    by (simp add: aosfs_find_entry_def slot_of_def path_equals_eq find_slot_take)
qed

lemma slot_facts:
  assumes "volume_inv S a V" "slot_of ae_in_use ae_path (ai_entries a) q = Some i"
  shows "i < AOSFS_MAX_ENTRIES" "i < ai_entry_limit a" "ae_in_use (ai_entries a ! i)" "ae_path (ai_entries a ! i) = q"
    "volume_tree a V q = Some (view V (ai_entries a ! i))"
  using slot_of_SomeD [OF assms(2)] volume_inv_table(1) [OF assms(1)] volume_inv_entry(3) [OF assms(1)] assms(2)
  by (auto simp: volume_tree_def slot_map_def)

lemma entry_index_slot:
  assumes "volume_inv S (active s) V"
  shows "entry_index (aosfs_find_entry q s) s = slot_of ae_in_use ae_path (ai_entries (active s)) q"
  using slot_facts(2) [OF assms] by (auto simp: entry_index_def aosfs_find_slot [OF assms] split: option.splits)

lemma tree_None: "volume_tree a V q = None \<longleftrightarrow> slot_of ae_in_use ae_path (ai_entries a) q = None"
  by (simp add: volume_tree_def slot_map_None)

text \<open>Replacing the entry of a path, when no other file's contents change.\<close>

lemma tree_replace:
  assumes "volume_inv S a V" "slot_of ae_in_use ae_path (ai_entries a) q = Some i" "ae_in_use e" "ae_path e = q"
    and "\<And>j. j < AOSFS_MAX_ENTRIES \<Longrightarrow> j \<noteq> i \<Longrightarrow> view V' (ai_entries a ! j) = view V (ai_entries a ! j)"
  shows "volume_tree (a\<lparr>ai_entries := (ai_entries a)[i := e]\<rparr>) V' = (volume_tree a V)(q \<mapsto> view V' e)"
proof -
  note T = volume_inv_table [OF assms(1)]
  have "slot_map ae_in_use ae_path (view V') ((ai_entries a)[i := e]) =
      (slot_map ae_in_use ae_path (view V') (ai_entries a))(q \<mapsto> view V' e)"
    by (rule slot_map_replace [OF T(2) assms(2-4)])
  also have "\<dots> = (slot_map ae_in_use ae_path (view V) (ai_entries a))(q \<mapsto> view V' e)"
    using assms(5) T(1) by (intro slot_map_other_view [OF assms(2)]) simp
  finally show ?thesis by (simp add: volume_tree_def)
qed

section \<open>Operations on a volume\<close>

definition tree_of :: "('d blk_state \<Rightarrow> bytes) \<Rightarrow> 'd aosfs_state \<Rightarrow> string \<Rightarrow> file_view option" where
  "tree_of contents s = volume_tree (active s) (volume_bytes contents s)"

text \<open>\<open>s'\<close> is a good state that differs from \<open>s\<close> in the active volume only, which now holds \<open>T\<close>.\<close>

definition vol_update ::
  "u32 \<Rightarrow> ('d blk_state \<Rightarrow> bool) \<Rightarrow> ('d blk_state \<Rightarrow> bytes) \<Rightarrow> 'd aosfs_state \<Rightarrow> (string \<Rightarrow> file_view option) \<Rightarrow>
   'd aosfs_state \<Rightarrow> bool" where
  "vol_update bid invar contents s T s' \<longleftrightarrow>
     (\<exists>a V. vol_step invar contents s a V s') \<and> volume_ok bid invar contents s' \<and> tree_of contents s' = T"

context byte_store
begin

lemma vol_updateI:
  assumes "on_device bid invar s" "vol_step invar contents s a V s'" "volume_inv (active_storage_size s) a V"
    "volume_tree a V = T"
  shows "vol_update bid invar contents s T s'"
  using vol_stepD [OF assms(1,2)] assms by (auto simp: vol_update_def volume_ok_def tree_of_def)

lemma vol_update_refl: "volume_ok bid invar contents s \<Longrightarrow> vol_update bid invar contents s (tree_of contents s) s"
  using vol_step_refl [OF volume_okD(1)] unfolding vol_update_def by blast

text \<open>Changing the attributes or the size of a file inside its extent.\<close>

lemma replace_entry:
  assumes vok: "volume_ok bid invar contents s"
    and i: "slot_of ae_in_use ae_path (ai_entries (active s)) q = Some i"
    and e: "ae_in_use e" "ae_path e = q" "entry_ok e"
      "ae_data_offset e = ae_data_offset (ai_entries (active s) ! i)" "ae_data_capacity e = ae_data_capacity (ai_entries (active s) ! i)"
  shows "\<exists>s'. sync_entry i (set_entry i e s) = (True, s') \<and> active s' = (active s)\<lparr>ai_entries := (ai_entries (active s))[i := e]\<rparr> \<and>
    vol_update bid invar contents s ((tree_of contents s)(q \<mapsto> view (volume_bytes contents s) e)) s'"
proof -
  note O = volume_okD [OF vok]
  note T = volume_inv_table [OF O(2)] and S = slot_facts [OF O(2) i]
  note E = volume_inv_entry [OF O(2) S(1)]
  let ?a = "(active s)\<lparr>ai_entries := (ai_entries (active s))[i := e]\<rparr>" and ?n = "ai_next_data_offset (active s)"
  have ext: "extent_in ?n e" using E(2) e(4,5) by (simp add: extent_in_def)
  have apart: "extents_apart e (ai_entries (active s) ! j)" if "j < AOSFS_MAX_ENTRIES" "j \<noteq> i" for j
    using E(4) [OF that(1)] that(2) e(4,5) by (simp add: extents_apart_def)
  have dist: "slots_distinct ae_in_use ae_path ((ai_entries (active s))[i := e])"
    using slots_replace(1) [OF T(2) i e(1,2)] .
  obtain V s' where s': "sync_entry i (set_entry i e s) = (True, s')" "vol_step invar contents s ?a V s'"
      "volume_inv (active_storage_size s) (?a\<lparr>ai_next_data_offset := ?n\<rparr>) V"
      "\<forall>e. data_in (active_storage_size s) e \<longrightarrow> view V e = view (volume_bytes contents s) e"
    using put_entry_ok [OF vok S(2) e(3) order_refl T(6) ext apart dist] by auto
  have inv: "volume_inv (active_storage_size s) ?a V" using s'(3) by simp
  have "view V e = view (volume_bytes contents s) e"
    using s'(4) data_in_entry [OF e(3) ext T(6)] by blast
  then have "volume_tree ?a V = (tree_of contents s)(q \<mapsto> view (volume_bytes contents s) e)"
    using tree_replace [OF O(2) i e(1,2), of V] s'(4) volume_inv_data_in [OF O(2)] by (simp add: tree_of_def)
  then show ?thesis
    using s'(1) vol_updateI [OF O(1) s'(2) inv] vol_stepD(2) [OF O(1) s'(2)] by blast
qed

end

lemma set_entry_same: "fs_wf s \<Longrightarrow> set_entry i (entry_at i s) s = s"
  by (simp add: set_entry_as_post entry_at_def post_simps)

lemma view_size:
  assumes "ae_data_offset e + m \<le> length V" "ae_size e \<le> m"
  shows "subarr (ae_data_offset e) m V = fv_data (view V e) @ subarr (ae_data_offset e + ae_size e) (m - ae_size e) V"
  using assms subarr_append_next [of "ae_data_offset e" "ae_size e" V "m - ae_size e"] by (simp add: view_def)

lemma length_view_data: "ae_data_offset e + ae_size e \<le> length V \<Longrightarrow> length (fv_data (view V e)) = ae_size e"
  by (simp add: view_def arr_simps)

section \<open>Writing file data\<close>

lemma other_views_same:
  assumes inv: "volume_inv S a V" and i: "i < AOSFS_MAX_ENTRIES"
    and off: "offset + length buf \<le> ae_data_capacity (ai_entries a ! i)" "buf \<noteq> []"
    and j: "j < AOSFS_MAX_ENTRIES" "j \<noteq> i"
  shows "view (overwrite (ae_data_offset (ai_entries a ! i) + offset) buf V) (ai_entries a ! j) = view V (ai_entries a ! j)"
proof -
  note E = volume_inv_entry [OF inv i] and J = volume_inv_entry [OF inv j(1)] and T = volume_inv_table [OF inv]
  have cap: "ae_data_capacity (ai_entries a ! i) \<noteq> 0" using off by (cases buf) auto
  have fit: "ae_data_offset (ai_entries a ! i) + offset + length buf \<le> length V"
    using E(2) cap off(1) T(5,6) by (simp add: extent_in_def)
  have sz: "ae_size (ai_entries a ! j) \<le> ae_data_capacity (ai_entries a ! j)" using J(1) by (simp add: entry_ok_def)
  have ap: "extents_apart (ai_entries a ! i) (ai_entries a ! j)" using E(4) [OF j(1)] j(2) by simp
  show ?thesis
  proof (rule view_same)
    show "data_in (length V) (ai_entries a ! j)" using volume_inv_data_in [OF inv j(1)] T(5) by simp
    show "ae_data_offset (ai_entries a ! i) + offset + length buf \<le> length V" by (rule fit)
    show "ae_size (ai_entries a ! j) = 0 \<or> ae_data_offset (ai_entries a ! j) + ae_size (ai_entries a ! j) \<le> ae_data_offset (ai_entries a ! i) + offset \<or>
        ae_data_offset (ai_entries a ! i) + offset + length buf \<le> ae_data_offset (ai_entries a ! j)"
      using ap cap sz off(1) unfolding extents_apart_def by linarith
  qed
qed

context byte_store
begin

lemma store_in_extent:
  assumes vok: "volume_ok bid invar contents s"
    and i: "slot_of ae_in_use ae_path (ai_entries (active s)) q = Some i"
    and e: "e = ai_entries (active s) ! i" "ae_kind e \<noteq> AOSFS_ENTRY_DIRECTORY"
    and off: "offset + length buf \<le> ae_data_capacity e" "buf \<noteq> []"
    and m: "m = max (ae_size e) (offset + length buf)"
    and s2: "vol_step invar contents s (active s) (overwrite (ae_data_offset e + offset) buf (volume_bytes contents s)) s2"
  shows "\<exists>ext s3. sync_entry i (set_entry i (e\<lparr>ae_size := m\<rparr>) s2) = (True, s3) \<and> entry_at i s3 = e\<lparr>ae_size := m\<rparr> \<and>
    length (fv_data (view (volume_bytes contents s) e) @ ext) = m \<and>
    vol_update bid invar contents s ((tree_of contents s)(q \<mapsto> (view (volume_bytes contents s) e)
      \<lparr>fv_data := overwrite offset buf (fv_data (view (volume_bytes contents s) e) @ ext)\<rparr>)) s3"
proof -
  note O = volume_okD [OF vok]
  note T = volume_inv_table [OF O(2)] and S = slot_facts [OF O(2) i]
  note E = volume_inv_entry [OF O(2) S(1), folded e(1)]
  let ?V = "volume_bytes contents s" and ?a = "active s"
  define V2 where "V2 = overwrite (ae_data_offset e + offset) buf ?V"
  note D = vol_stepD [OF O(1) s2 [folded V2_def]]
  have cap: "ae_data_capacity e \<noteq> 0" using off by (cases buf) auto
  have ext: "AOSFS_DATA_OFFSET \<le> ae_data_offset e" "ae_data_offset e + ae_data_capacity e \<le> active_storage_size s"
    using E(2) cap T(6) by (auto simp: extent_in_def)
  have eok: "ae_size e \<le> ae_data_capacity e" using E(1) by (simp add: entry_ok_def)
  have mcap: "m \<le> ae_data_capacity e" "ae_size e \<le> m" "offset + length buf \<le> m" using m off(1) eok by auto
  have inv2: "volume_inv (active_storage_size s) ?a V2"
    unfolding V2_def using ext off(1) by (intro volume_inv_data_write [OF O(2)]) auto
  have vok2: "volume_ok bid invar contents s2" using D inv2 by (simp add: volume_ok_def)
  have e2: "entry_ok (e\<lparr>ae_size := m\<rparr>)" using E(1) mcap(1) S(3) e by (auto simp: entry_ok_def)
  have i2: "slot_of ae_in_use ae_path (ai_entries (active s2)) q = Some i" using i D(2) by simp
  obtain s3 where s3: "sync_entry i (set_entry i (e\<lparr>ae_size := m\<rparr>) s2) = (True, s3)"
      "active s3 = ?a\<lparr>ai_entries := (ai_entries ?a)[i := e\<lparr>ae_size := m\<rparr>]\<rparr>"
      "vol_update bid invar contents s2 ((tree_of contents s2)(q \<mapsto> view V2 (e\<lparr>ae_size := m\<rparr>))) s3"
    using replace_entry [OF vok2 i2, of "e\<lparr>ae_size := m\<rparr>"] S(3,4) e e2 D(2,3) by auto
  have others: "view V2 (ai_entries ?a ! j) = view ?V (ai_entries ?a ! j)" if "j < AOSFS_MAX_ENTRIES" "j \<noteq> i" for j
    using other_views_same [OF O(2) S(1) _ off(2) that] off(1) by (simp add: V2_def e(1))
  have tree: "(tree_of contents s2)(q \<mapsto> x) = (tree_of contents s)(q \<mapsto> x)" for x
    unfolding tree_of_def volume_tree_def D(2,3) using others T(1) by (intro slot_map_other_view [OF i]) simp
  define pad where "pad = subarr (ae_data_offset e + ae_size e) (m - ae_size e) ?V"
  have base: "ae_data_offset e + m \<le> length ?V" using ext(2) mcap(1) T(5) by simp
  have cat: "subarr (ae_data_offset e) m ?V = fv_data (view ?V e) @ pad"
    unfolding pad_def by (rule view_size [OF base mcap(2)])
  have "view V2 (e\<lparr>ae_size := m\<rparr>) = (view ?V e)\<lparr>fv_data := overwrite offset buf (fv_data (view ?V e) @ pad)\<rparr>"
    using subarr_overwrite_inner [OF mcap(3) base] cat by (simp add: view_def V2_def)
  moreover have "length (fv_data (view ?V e) @ pad) = m" using base by (simp add: arr_simps flip: cat)
  moreover have "\<exists>a V. vol_step invar contents s a V s3"
    using s3(3) vol_step_trans [OF O(1) s2] unfolding vol_update_def by blast
  ultimately show ?thesis
    using s3 S(1) T(1) by (auto simp: vol_update_def tree entry_at_def)
qed

end

lemma reserved_tree:
  assumes "volume_inv S a V" "slot_of ae_in_use ae_path (ai_entries a) q = Some i" "reserved S i required a V e n V'"
  shows "volume_tree (a\<lparr>ai_entries := (ai_entries a)[i := e], ai_next_data_offset := n\<rparr>) V' = volume_tree a V"
    "slot_of ae_in_use ae_path ((ai_entries a)[i := e]) q = Some i"
proof -
  note S = slot_facts [OF assms(1,2)] and T = volume_inv_table [OF assms(1)]
  have e: "ae_in_use e" "ae_path e = q" using assms(3) S(3,4) by (auto simp: reserved_def)
  have v: "view V' e = view V (ai_entries a ! i)"
    "\<And>j. j < AOSFS_MAX_ENTRIES \<Longrightarrow> j \<noteq> i \<Longrightarrow> view V' (ai_entries a ! j) = view V (ai_entries a ! j)"
    using assms(3) by (simp_all add: reserved_def)
  show "volume_tree (a\<lparr>ai_entries := (ai_entries a)[i := e], ai_next_data_offset := n\<rparr>) V' = volume_tree a V"
    using tree_replace [OF assms(1,2) e v(2)] S(5) v(1) by (simp add: fun_upd_idem)
  show "slot_of ae_in_use ae_path ((ai_entries a)[i := e]) q = Some i"
    using slots_replace(2) [OF T(2) assms(2) e] assms(2) by simp
qed

context byte_store
begin

text \<open>Reserving, in terms of the volume.\<close>

lemma reserve_ok:
  assumes vok: "volume_ok bid invar contents s"
    and i: "slot_of ae_in_use ae_path (ai_entries (active s)) q = Some i"
    and kind: "ae_kind (ai_entries (active s) ! i) \<noteq> AOSFS_ENTRY_DIRECTORY"
    and req: "required \<le> AOSFS_MAX_FILE_SIZE"
  shows "(reserve_entry_extent i required s = (False, s) \<and> no_room i required s) \<or>
    (\<exists>s'. reserve_entry_extent i required s = (True, s') \<and> vol_update bid invar contents s (tree_of contents s) s' \<and>
      slot_of ae_in_use ae_path (ai_entries (active s')) q = Some i \<and>
      required \<le> ae_data_capacity (ai_entries (active s') ! i) \<and>
      ae_kind (ai_entries (active s') ! i) = ae_kind (ai_entries (active s) ! i) \<and>
      ae_size (ai_entries (active s') ! i) = ae_size (ai_entries (active s) ! i) \<and>
      view (volume_bytes contents s') (ai_entries (active s') ! i) = view (volume_bytes contents s) (ai_entries (active s) ! i))"
proof -
  note O = volume_okD [OF vok]
  note S = slot_facts [OF O(2) i] and T = volume_inv_table [OF O(2)]
  have "\<exists>s'. reserve_entry_extent i required s = (True, s') \<and> vol_update bid invar contents s (tree_of contents s) s' \<and>
      slot_of ae_in_use ae_path (ai_entries (active s')) q = Some i \<and>
      required \<le> ae_data_capacity (ai_entries (active s') ! i) \<and>
      ae_kind (ai_entries (active s') ! i) = ae_kind (ai_entries (active s) ! i) \<and>
      ae_size (ai_entries (active s') ! i) = ae_size (ai_entries (active s) ! i) \<and>
      view (volume_bytes contents s') (ai_entries (active s') ! i) = view (volume_bytes contents s) (ai_entries (active s) ! i)"
    if r: "reserve_entry_extent i required s = (True, s')"
      and st: "vol_step invar contents s ((active s)\<lparr>ai_entries := (ai_entries (active s))[i := e], ai_next_data_offset := n\<rparr>) V s'"
      and res: "reserved (active_storage_size s) i required (active s) (volume_bytes contents s) e n V" for e n V s'
  proof -
    note D = vol_stepD [OF O(1) st] and R = reserved_tree [OF O(2) i res]
    have inv: "volume_inv (active_storage_size s) ((active s)\<lparr>ai_entries := (ai_entries (active s))[i := e], ai_next_data_offset := n\<rparr>) V"
      using res by (simp add: reserved_def)
    have "vol_update bid invar contents s (tree_of contents s) s'"
      by (rule vol_updateI [OF O(1) st inv]) (simp only: R(1) tree_of_def)
    moreover have "ai_entries (active s') ! i = e" using D(2) S(1) T(1) by simp
    ultimately show ?thesis
      using r D(2,3) R(2) res by (auto simp: reserved_def)
  qed
  then show ?thesis using reserve_result [OF vok S(2,3) kind req] by blast
qed

lemma write_path_result:
  assumes sel: "select_instance_for_path path s0 = (q, s)" and vok: "volume_ok bid invar contents s" and buf: "buf \<noteq> []"
  shows "(aosfs_write_path path off buf s0 = (None, s) \<and>
      (\<forall>f. tree_of contents s q = Some f \<longrightarrow> fv_kind f \<noteq> AOSFS_ENTRY_DIRECTORY \<longrightarrow> off + length buf \<le> AOSFS_MAX_FILE_SIZE \<longrightarrow>
         (\<exists>i. slot_of ae_in_use ae_path (ai_entries (active s)) q = Some i \<and> no_room i (off + length buf) s))) \<or>
    (\<exists>f ext s'. tree_of contents s q = Some f \<and> fv_kind f \<noteq> AOSFS_ENTRY_DIRECTORY \<and>
      length (fv_data f @ ext) = max (length (fv_data f)) (off + length buf) \<and>
      aosfs_write_path path off buf s0 = (Some (length buf, length (fv_data f @ ext)), s') \<and>
      vol_update bid invar contents s ((tree_of contents s)(q \<mapsto> f\<lparr>fv_data := overwrite off buf (fv_data f @ ext)\<rparr>)) s')"
proof (cases "slot_of ae_in_use ae_path (ai_entries (active s)) q")
  case None
  then show ?thesis
    using sel entry_index_slot [OF volume_okD(2) [OF vok]] by (simp add: aosfs_write_path_def tree_of_def tree_None [THEN iffD2])
next
  case (Some i)
  note O = volume_okD [OF vok]
  note S = slot_facts [OF O(2) Some] and T = volume_inv_table [OF O(2)]
  let ?e = "ai_entries (active s) ! i" and ?stop = "off + length buf"
  note W = aosfs_write_path_def [of path off buf s0, unfolded sel prod.case entry_index_slot [OF O(2)] Some option.case entry_at_def Let_def]
  show ?thesis
  proof (cases "ae_kind ?e = AOSFS_ENTRY_DIRECTORY \<or> off > AOSFS_MAX_FILE_SIZE \<or> length buf > AOSFS_MAX_FILE_SIZE - off")
    case True
    then show ?thesis using W S(5) by (auto simp: tree_of_def view_def)
  next
    case False
    then have kind: "ae_kind ?e \<noteq> AOSFS_ENTRY_DIRECTORY" and req: "?stop \<le> AOSFS_MAX_FILE_SIZE" by auto
    have W': "aosfs_write_path path off buf s0 =
        (case reserve_entry_extent i ?stop s of (False, s') \<Rightarrow> (None, s')
         | (True, s') \<Rightarrow> (case volume_write (entry_data_offset i s' + off) buf s' of (False, s'') \<Rightarrow> (None, s'')
            | (True, s'') \<Rightarrow>
                (case sync_entry i (if ?stop > ae_size (ai_entries (active s'') ! i)
                       then set_entry i ((ai_entries (active s'') ! i)\<lparr>ae_size := ?stop\<rparr>) s'' else s'') of
                   (False, s3) \<Rightarrow> (None, s3)
                 | (True, s3) \<Rightarrow> (Some (length buf, ae_size (ai_entries (active s3) ! i)), s3))))"
      using W False buf O(3,4) by simp
    from reserve_ok [OF vok Some kind req]
    show ?thesis
    proof (elim disjE exE conjE)
      assume "reserve_entry_extent i ?stop s = (False, s)" "no_room i ?stop s"
      then show ?thesis using W' Some by simp
    next
      fix s1
      assume r: "reserve_entry_extent i ?stop s = (True, s1)" and u: "vol_update bid invar contents s (tree_of contents s) s1"
        and i1: "slot_of ae_in_use ae_path (ai_entries (active s1)) q = Some i"
        and cap: "?stop \<le> ae_data_capacity (ai_entries (active s1) ! i)"
        and k1: "ae_kind (ai_entries (active s1) ! i) = ae_kind ?e" and z1: "ae_size (ai_entries (active s1) ! i) = ae_size ?e"
        and v1: "view (volume_bytes contents s1) (ai_entries (active s1) ! i) = view (volume_bytes contents s) ?e"
      let ?e1 = "ai_entries (active s1) ! i"
      have vok1: "volume_ok bid invar contents s1" and t1: "tree_of contents s1 = tree_of contents s"
        using u by (simp_all add: vol_update_def)
      note O1 = volume_okD [OF vok1]
      note S1 = slot_facts [OF O1(2) i1] and T1 = volume_inv_table [OF O1(2)]
      have cap0: "ae_data_capacity ?e1 \<noteq> 0" using cap buf by (cases buf) auto
      have d: "entry_data_offset i s1 = ae_data_offset ?e1" using cap0 O1(4) by (simp add: entry_data_offset_def entry_at_def)
      have fit: "ae_data_offset ?e1 + off + length buf \<le> active_storage_size s1"
        using volume_inv_entry(2) [OF O1(2) S1(1)] cap cap0 T1(6) by (simp add: extent_in_def)
      obtain s2 where s2: "volume_write (ae_data_offset ?e1 + off) buf s1 = (True, s2)"
          "vol_step invar contents s1 (active s1) (overwrite (ae_data_offset ?e1 + off) buf (volume_bytes contents s1)) s2"
        using vol_step_write [OF O1(1) fit] by blast
      note D2 = vol_stepD [OF O1(1) s2(2)]
      define m where "m = max (ae_size ?e1) (off + length buf)"
      obtain ext s3 where s3: "sync_entry i (set_entry i (?e1\<lparr>ae_size := m\<rparr>) s2) = (True, s3)" "entry_at i s3 = ?e1\<lparr>ae_size := m\<rparr>"
          "length (fv_data (view (volume_bytes contents s) ?e) @ ext) = m"
          "vol_update bid invar contents s1 ((tree_of contents s1)(q \<mapsto> (view (volume_bytes contents s) ?e)
             \<lparr>fv_data := overwrite off buf (fv_data (view (volume_bytes contents s) ?e) @ ext)\<rparr>)) s3"
        using store_in_extent [OF vok1 i1 refl _ cap buf m_def s2(2)] kind k1 v1 by auto
      have fin: "(if ?stop > ae_size (ai_entries (active s2) ! i) then set_entry i ((ai_entries (active s2) ! i)\<lparr>ae_size := ?stop\<rparr>) s2 else s2) =
          set_entry i (?e1\<lparr>ae_size := m\<rparr>) s2"
      proof (cases "?stop > ae_size ?e1")
        case True
        then show ?thesis by (simp add: D2(2) m_def max_def)
      next
        case False
        then have "?e1\<lparr>ae_size := m\<rparr> = entry_at i s2" by (simp add: m_def max_def D2(2) entry_at_def)
        moreover have "fs_wf s2" using D2(1) by (simp add: on_device_def)
        ultimately show ?thesis using set_entry_same [of s2 i] False by (simp add: D2(2))
      qed
      have res: "aosfs_write_path path off buf s0 = (Some (length buf, m), s3)"
        using W' r s2(1) fin s3(1,2) d by (simp add: entry_at_def)
      have upd: "vol_update bid invar contents s ((tree_of contents s)(q \<mapsto> (view (volume_bytes contents s) ?e)
             \<lparr>fv_data := overwrite off buf (fv_data (view (volume_bytes contents s) ?e) @ ext)\<rparr>)) s3"
        using s3(4) u vol_step_trans [OF O(1)] unfolding vol_update_def t1 by blast
      have len: "length (fv_data (view (volume_bytes contents s) ?e)) = ae_size ?e"
        using volume_inv_data_in [OF O(2) S(1)] T(5) by (auto simp: data_in_def view_def arr_simps)
      show ?thesis
        using S(5) kind res upd s3(3) len m_def z1 by (intro disjI2 exI conjI) (auto simp: tree_of_def view_def)
    qed
  qed
qed

end

section \<open>The other operations\<close>

lemma view_data_length:
  "volume_inv S a V \<Longrightarrow> i < AOSFS_MAX_ENTRIES \<Longrightarrow> length (fv_data (view V (ai_entries a ! i))) = ae_size (ai_entries a ! i)"
  using volume_inv_data_in [of S a V i] volume_inv_table(5) [of S a V] by (auto simp: data_in_def view_def arr_simps)

context byte_store
begin

lemma read_path_result:
  assumes sel: "select_instance_for_path path s0 = (q, s)" and vok: "volume_ok bid invar contents s"
  shows "\<exists>s'. aosfs_read_path path off n s0 =
      ((case tree_of contents s q of None \<Rightarrow> None
        | Some f \<Rightarrow> if fv_kind f = AOSFS_ENTRY_DIRECTORY \<or> \<not> off + n \<le> length (fv_data f) then None
                    else Some (subarr off n (fv_data f))), s') \<and>
    vol_update bid invar contents s (tree_of contents s) s'"
proof (cases "slot_of ae_in_use ae_path (ai_entries (active s)) q")
  case None
  then show ?thesis
    using sel entry_index_slot [OF volume_okD(2) [OF vok]] vol_update_refl [OF vok]
    by (simp add: aosfs_read_path_def tree_of_def tree_None [THEN iffD2])
next
  case (Some i)
  note O = volume_okD [OF vok]
  note S = slot_facts [OF O(2) Some] and T = volume_inv_table [OF O(2)]
  let ?e = "ai_entries (active s) ! i" and ?V = "volume_bytes contents s"
  note E = volume_inv_entry [OF O(2) S(1)] and L = view_data_length [OF O(2) S(1)]
  have tree: "tree_of contents s q = Some (view ?V ?e)" using S(5) by (simp add: tree_of_def)
  note R = aosfs_read_path_def [of path off n s0, unfolded sel prod.case entry_index_slot [OF O(2)] Some option.case entry_at_def Let_def]
  have bounds: "(off > ae_size ?e \<or> n > ae_size ?e - off) \<longleftrightarrow> \<not> off + n \<le> ae_size ?e" by auto
  show ?thesis
  proof (cases "ae_kind ?e = AOSFS_ENTRY_DIRECTORY \<or> \<not> off + n \<le> ae_size ?e \<or> n = 0")
    case True
    then show ?thesis using R tree L vol_update_refl [OF vok] bounds by (auto simp: view_def)
  next
    case False
    have cap: "ae_size ?e \<le> ae_data_capacity ?e" using E(1) by (simp add: entry_ok_def)
    then have c0: "ae_data_capacity ?e \<noteq> 0" "\<not> (off > ae_data_capacity ?e \<or> n > ae_data_capacity ?e - off)" using False by auto
    have d: "entry_data_offset i s = ae_data_offset ?e" using c0(1) O(4) by (simp add: entry_data_offset_def entry_at_def)
    have fit: "ae_data_offset ?e + off + n \<le> active_storage_size s"
      using E(2) c0(1) T(6) False cap by (simp add: extent_in_def)
    obtain s' where s': "volume_read (ae_data_offset ?e + off) n s = (Some (subarr (ae_data_offset ?e + off) n ?V), s')"
        "vol_step invar contents s (active s) ?V s'"
      using vol_step_read [OF O(1) fit] by blast
    have "subarr off n (fv_data (view ?V ?e)) = subarr (ae_data_offset ?e + off) n ?V"
      using False by (simp add: view_def subarr_subarr)
    moreover have "vol_update bid invar contents s (tree_of contents s) s'"
      by (rule vol_updateI [OF O(1) s'(2) O(2)]) (simp add: tree_of_def)
    moreover have "aosfs_read_path path off n s0 = (Some (subarr (ae_data_offset ?e + off) n ?V), s')"
      using R False bounds c0 O(3,4) d s'(1) by simp
    ultimately show ?thesis using tree L False by (simp add: view_def)
  qed
qed

text \<open>Operations that look a path up and replace its entry, keeping its extent.\<close>

lemma replace_path_result:
  assumes vok: "volume_ok bid invar contents s"
    and g: "\<And>e. entry_ok e \<Longrightarrow> ae_in_use e \<Longrightarrow> \<not> P e \<Longrightarrow> entry_ok (g e) \<and> ae_in_use (g e) \<and> ae_path (g e) = ae_path e \<and>
        ae_data_offset (g e) = ae_data_offset e \<and> ae_data_capacity (g e) = ae_data_capacity e"
    and op: "op = (case entry_index (aosfs_find_entry q s) s of None \<Rightarrow> (False, s)
        | Some i \<Rightarrow> if P (entry_at i s) then (False, s) else sync_entry i (set_entry i (g (entry_at i s)) s))"
  shows "(op = (False, s) \<and> (\<forall>e. slot_map ae_in_use ae_path id (ai_entries (active s)) q = Some e \<longrightarrow> P e)) \<or>
    (\<exists>e s'. slot_map ae_in_use ae_path id (ai_entries (active s)) q = Some e \<and> \<not> P e \<and> op = (True, s') \<and>
      tree_of contents s q = Some (view (volume_bytes contents s) e) \<and>
      vol_update bid invar contents s ((tree_of contents s)(q \<mapsto> view (volume_bytes contents s) (g e))) s')"
proof (cases "slot_of ae_in_use ae_path (ai_entries (active s)) q")
  case None
  then show ?thesis
    using op entry_index_slot [OF volume_okD(2) [OF vok]] by (simp add: slot_map_def)
next
  case (Some i)
  note O = volume_okD [OF vok]
  note S = slot_facts [OF O(2) Some] and E = volume_inv_entry [OF O(2) S(1)]
  let ?e = "ai_entries (active s) ! i"
  have m: "slot_map ae_in_use ae_path id (ai_entries (active s)) q = Some ?e" using Some by (simp add: slot_map_def)
  show ?thesis
  proof (cases "P ?e")
    case True
    then show ?thesis using op Some m entry_index_slot [OF O(2)] by (simp add: entry_at_def)
  next
    case False
    note G = g [OF E(1) S(3) False]
    obtain s' where "sync_entry i (set_entry i (g ?e) s) = (True, s')"
        "vol_update bid invar contents s ((tree_of contents s)(q \<mapsto> view (volume_bytes contents s) (g ?e))) s'"
      using replace_entry [OF vok Some, of "g ?e"] G S(4) by auto
    then show ?thesis
      using op Some m False S(5) entry_index_slot [OF O(2)] by (auto simp: entry_at_def tree_of_def)
  qed
qed

end

lemma mode_bits_idem: "mode AND AOSFS_MODE_BITS AND AOSFS_MODE_BITS = mode AND AOSFS_MODE_BITS"
  by (simp add: and.assoc)

lemma size_change_ok:
  "entry_ok e \<Longrightarrow> ae_in_use e \<Longrightarrow> sz \<le> ae_data_capacity e \<Longrightarrow> entry_ok (e\<lparr>ae_size := sz\<rparr>)"
  by (simp add: entry_ok_def)

context byte_store
begin

lemma chmod_result:
  assumes sel: "select_instance_for_path path s0 = (q, s)" and vok: "volume_ok bid invar contents s"
  shows "(tree_of contents s q = None \<and> aosfs_chmod_path path mode s0 = (False, s)) \<or>
    (\<exists>f s'. tree_of contents s q = Some f \<and> aosfs_chmod_path path mode s0 = (True, s') \<and>
      vol_update bid invar contents s ((tree_of contents s)(q \<mapsto> f\<lparr>fv_mode := mode AND AOSFS_MODE_BITS\<rparr>)) s')"
proof -
  have op: "aosfs_chmod_path path mode s0 = (case entry_index (aosfs_find_entry q s) s of None \<Rightarrow> (False, s)
      | Some i \<Rightarrow> if False then (False, s) else sync_entry i (set_entry i ((entry_at i s)\<lparr>ae_mode := mode AND AOSFS_MODE_BITS\<rparr>) s))"
    using sel by (simp add: aosfs_chmod_path_def split: option.split)
  show ?thesis
    using replace_path_result [OF vok, where P = "\<lambda>_. False" and g = "\<lambda>e. e\<lparr>ae_mode := mode AND AOSFS_MODE_BITS\<rparr>", OF _ op]
    by (auto simp: entry_ok_def mode_bits_idem view_def tree_of_def tree_None slot_map_def)
qed

lemma chown_result:
  assumes sel: "select_instance_for_path path s0 = (q, s)" and vok: "volume_ok bid invar contents s"
  shows "(tree_of contents s q = None \<and> aosfs_chown_path path uid gid s0 = (False, s)) \<or>
    (\<exists>f s'. tree_of contents s q = Some f \<and> aosfs_chown_path path uid gid s0 = (True, s') \<and>
      vol_update bid invar contents s ((tree_of contents s)(q \<mapsto> f\<lparr>fv_uid := uid, fv_gid := gid\<rparr>)) s')"
proof -
  have op: "aosfs_chown_path path uid gid s0 = (case entry_index (aosfs_find_entry q s) s of None \<Rightarrow> (False, s)
      | Some i \<Rightarrow> if False then (False, s) else sync_entry i (set_entry i ((entry_at i s)\<lparr>ae_uid := uid, ae_gid := gid\<rparr>) s))"
    using sel by (simp add: aosfs_chown_path_def split: option.split)
  show ?thesis
    using replace_path_result [OF vok, where P = "\<lambda>_. False" and g = "\<lambda>e. e\<lparr>ae_uid := uid, ae_gid := gid\<rparr>", OF _ op]
    by (auto simp: entry_ok_def view_def tree_of_def tree_None slot_map_def)
qed

lemma truncate_result:
  assumes sel: "select_instance_for_path path s0 = (q, s)" and vok: "volume_ok bid invar contents s"
  shows "(aosfs_truncate_path path s0 = (False, s) \<and> (\<forall>f. tree_of contents s q = Some f \<longrightarrow> fv_kind f \<noteq> AOSFS_ENTRY_REGULAR)) \<or>
    (\<exists>f s'. tree_of contents s q = Some f \<and> fv_kind f = AOSFS_ENTRY_REGULAR \<and> aosfs_truncate_path path s0 = (True, s') \<and>
      vol_update bid invar contents s ((tree_of contents s)(q \<mapsto> f\<lparr>fv_data := []\<rparr>)) s')"
proof -
  note O = volume_okD [OF vok]
  have bb: "ai_block_backed (active (set_entry i e s))" for i e
    using O(3,5) by (simp add: set_entry_as_post post_simps)
  have op: "aosfs_truncate_path path s0 = (case entry_index (aosfs_find_entry q s) s of None \<Rightarrow> (False, s)
      | Some i \<Rightarrow> if ae_kind (entry_at i s) \<noteq> AOSFS_ENTRY_REGULAR then (False, s)
                  else sync_entry i (set_entry i ((entry_at i s)\<lparr>ae_size := 0\<rparr>) s))"
    using sel entry_index_slot [OF O(2)] aosfs_find_slot [OF O(2)]
    by (simp add: aosfs_truncate_path_def bb Let_def split: option.split)
  show ?thesis
    using replace_path_result [OF vok, where P = "\<lambda>e. ae_kind e \<noteq> AOSFS_ENTRY_REGULAR" and g = "\<lambda>e. e\<lparr>ae_size := 0\<rparr>", OF _ op]
    by (auto simp: size_change_ok view_def tree_of_def volume_tree_def slot_map_def)
qed

end

lemma tree_clear:
  assumes "volume_inv S a V" "slot_of ae_in_use ae_path (ai_entries a) q = Some i"
    and "\<And>j. j < AOSFS_MAX_ENTRIES \<Longrightarrow> view V' (ai_entries a ! j) = view V (ai_entries a ! j)"
  shows "volume_tree (a\<lparr>ai_entries := (ai_entries a)[i := aosfs_entry_zero]\<rparr>) V' = (volume_tree a V)(q := None)"
proof -
  note T = volume_inv_table [OF assms(1)]
  have "slot_map ae_in_use ae_path (view V') ((ai_entries a)[i := aosfs_entry_zero]) =
      (slot_map ae_in_use ae_path (view V') (ai_entries a))(q := None)"
    by (rule slot_map_clear [OF T(2) assms(2)]) (simp add: aosfs_entry_zero_def)
  also have "\<dots> = (slot_map ae_in_use ae_path (view V) (ai_entries a))(q := None)"
    using assms(3) T(1) by (intro slot_map_other_view [OF assms(2)]) simp
  finally show ?thesis by (simp add: volume_tree_def)
qed

lemma tree_fill:
  assumes "volume_inv S a V" "slot_of ae_in_use ae_path (ai_entries a) q = None"
    and "i < AOSFS_MAX_ENTRIES" "\<not> ae_in_use (ai_entries a ! i)" "ae_in_use e" "ae_path e = q"
    and "\<And>j. j < AOSFS_MAX_ENTRIES \<Longrightarrow> view V' (ai_entries a ! j) = view V (ai_entries a ! j)"
  shows "volume_tree (a\<lparr>ai_entries := (ai_entries a)[i := e]\<rparr>) V' = (volume_tree a V)(q \<mapsto> view V' e)"
proof -
  note T = volume_inv_table [OF assms(1)]
  have "slot_map ae_in_use ae_path (view V') (ai_entries a) = slot_map ae_in_use ae_path (view V) (ai_entries a)"
    using assms(7) T(1) by (intro slot_map_view_cong) simp
  then show ?thesis
    using slot_map_fill [OF T(2) assms(2) _ assms(4-6), of "view V'"] assms(3) T(1) by (simp add: volume_tree_def)
qed

definition new_file :: "u8 \<Rightarrow> u16 \<Rightarrow> u32 \<Rightarrow> u32 \<Rightarrow> u64 \<Rightarrow> file_view" where
  "new_file kind mode uid gid inode =
     \<lparr>fv_kind = kind, fv_mode = mode AND AOSFS_MODE_BITS, fv_uid = uid, fv_gid = gid, fv_inode = inode, fv_data = []\<rparr>"

lemma new_entry_facts:
  assumes "length q < AOSFS_PATH_MAX"
  shows "ae_in_use (new_entry kind mode uid gid ino q)" "ae_path (new_entry kind mode uid gid ino q) = q"
    "extent_in n (new_entry kind mode uid gid ino q)" "extents_apart (new_entry kind mode uid gid ino q) e"
    "CHR 0x00 \<notin> set q \<Longrightarrow> kind \<le> AOSFS_ENTRY_SYMLINK \<Longrightarrow> entry_ok (new_entry kind mode uid gid ino q)"
    "view V (new_entry kind mode uid gid ino q) = new_file kind mode uid gid ino"
    "ae_kind (new_entry kind mode uid gid ino q) = kind"
  using assms
  by (simp_all add: new_entry_def aosfs_entry_zero_def extent_in_def extents_apart_def entry_ok_def copy_string_fits
      mode_bits_idem view_def new_file_def)

context byte_store
begin

lemma clear_entry:
  assumes vok: "volume_ok bid invar contents s"
    and i: "slot_of ae_in_use ae_path (ai_entries (active s)) q = Some i"
  shows "\<exists>s'. sync_entry i (set_entry i aosfs_entry_zero s) = (True, s') \<and>
    vol_update bid invar contents s ((tree_of contents s)(q := None)) s'"
proof -
  note O = volume_okD [OF vok]
  note T = volume_inv_table [OF O(2)] and S = slot_facts [OF O(2) i]
  let ?a = "(active s)\<lparr>ai_entries := (ai_entries (active s))[i := aosfs_entry_zero]\<rparr>" and ?n = "ai_next_data_offset (active s)"
  have dist: "slots_distinct ae_in_use ae_path ((ai_entries (active s))[i := aosfs_entry_zero])"
    by (rule slots_clear(1) [OF T(2) i]) (simp add: aosfs_entry_zero_def)
  obtain V s' where s': "sync_entry i (set_entry i aosfs_entry_zero s) = (True, s')" "vol_step invar contents s ?a V s'"
      "volume_inv (active_storage_size s) (?a\<lparr>ai_next_data_offset := ?n\<rparr>) V"
      "\<forall>e. data_in (active_storage_size s) e \<longrightarrow> view V e = view (volume_bytes contents s) e"
    using put_entry_ok [OF vok S(2) entry_ok_zero(1) order_refl T(6) entry_ok_zero(2) entry_ok_zero(3) dist] by auto
  have inv: "volume_inv (active_storage_size s) ?a V" using s'(3) by simp
  have "volume_tree ?a V = (tree_of contents s)(q := None)"
    using tree_clear [OF O(2) i, of V] s'(4) volume_inv_data_in [OF O(2)] by (simp add: tree_of_def)
  then show ?thesis using s'(1) vol_updateI [OF O(1) s'(2) inv] by blast
qed

lemma allocate_result:
  assumes vok: "volume_ok bid invar contents s"
    and free: "i < ai_entry_limit (active s)" "\<not> ae_in_use (ai_entries (active s) ! i)"
    and fresh: "slot_of ae_in_use ae_path (ai_entries (active s)) q = None"
    and q: "length q < AOSFS_PATH_MAX" "CHR 0x00 \<notin> set q" "kind \<le> AOSFS_ENTRY_SYMLINK"
  shows "\<exists>s'. allocate_entry_at i kind mode uid gid q s = (True, s') \<and>
    vol_update bid invar contents s ((tree_of contents s)(q \<mapsto> new_file kind mode uid gid (ai_next_inode (active s)))) s' \<and>
    slot_of ae_in_use ae_path (ai_entries (active s')) q = Some i \<and>
    ae_data_capacity (ai_entries (active s') ! i) = 0 \<and> ai_next_data_offset (active s') = ai_next_data_offset (active s)"
proof -
  note O = volume_okD [OF vok]
  let ?a = "(active s)\<lparr>ai_next_inode := ai_next_inode (active s) + 1\<rparr>"
  let ?s1 = "update_active (\<lambda>a. a\<lparr>ai_next_inode := ai_next_inode a + 1\<rparr>) s"
  define e where "e = new_entry kind mode uid gid (ai_next_inode (active s)) q"
  note N = new_entry_facts [OF q(1), where kind = kind and mode = mode and uid = uid and gid = gid and
    ino = "ai_next_inode (active s)", folded e_def]
  have st1: "vol_step invar contents s ?a (volume_bytes contents s) ?s1"
    unfolding update_active_as_post by (rule vol_step_memory [OF O(1)]) simp
  note D1 = vol_stepD [OF O(1) st1]
  have vok1: "volume_ok bid invar contents ?s1" using D1 O(2) by (simp add: volume_ok_def)
  note O1 = volume_okD [OF vok1]
  note T1 = volume_inv_table [OF O1(2)]
  have f1: "slot_of ae_in_use ae_path (ai_entries (active ?s1)) q = None" "\<not> ae_in_use (ai_entries (active ?s1) ! i)"
    "i < ai_entry_limit (active ?s1)"
    using fresh free D1(2) by simp_all
  have im: "i < length (ai_entries (active ?s1))" using f1(3) T1(1,3) by simp
  note F = slots_fill [OF T1(2) f1(1) im f1(2) N(1,2)]
  let ?a2 = "(active ?s1)\<lparr>ai_entries := (ai_entries (active ?s1))[i := e]\<rparr>"
  obtain V s' where s': "sync_entry i (set_entry i e ?s1) = (True, s')" "vol_step invar contents ?s1 ?a2 V s'"
      "volume_inv (active_storage_size ?s1) (?a2\<lparr>ai_next_data_offset := ai_next_data_offset (active ?s1)\<rparr>) V"
      "\<forall>e. data_in (active_storage_size ?s1) e \<longrightarrow> view V e = view (volume_bytes contents ?s1) e"
    using put_entry_ok [OF vok1 f1(3) N(5) [OF q(2,3)] order_refl T1(6) N(3) N(4) F(1)] by auto
  have inv: "volume_inv (active_storage_size ?s1) ?a2 V" using s'(3) by simp
  have tree: "volume_tree ?a2 V = (tree_of contents ?s1)(q \<mapsto> new_file kind mode uid gid (ai_next_inode (active s)))"
    using tree_fill [OF O1(2) f1(1) _ f1(2) N(1,2), of V] im T1(1) s'(4) volume_inv_data_in [OF O1(2)] N(6)
    by (simp add: tree_of_def)
  have t1: "tree_of contents ?s1 = tree_of contents s" using D1(2,3) by (simp add: tree_of_def)
  have upd: "vol_update bid invar contents s ((tree_of contents s)(q \<mapsto> new_file kind mode uid gid (ai_next_inode (active s)))) s'"
    using vol_updateI [OF O1(1) s'(2) inv tree] st1 vol_step_trans [OF O(1)] unfolding vol_update_def t1 by blast
  have comm: "update_active (\<lambda>a. a\<lparr>ai_next_inode := ai_next_inode a + 1\<rparr>) (set_entry i e s) = set_entry i e ?s1"
  proof -
    have upd: "(active s)\<lparr>ai_entries := es, ai_next_inode := n\<rparr> = (active s)\<lparr>ai_next_inode := n, ai_entries := es\<rparr>" for es n
      by (rule aosfs_instance.equality) simp_all
    show ?thesis
      using O(5) by (simp add: set_entry_as_post update_active_as_post post_simps) (simp only: upd)
  qed
  have "allocate_entry_at i kind mode uid gid q s = (True, s')"
    using s'(1) comm by (simp add: allocate_entry_at_def Let_def flip: e_def)
  moreover have "slot_of ae_in_use ae_path (ai_entries (active s')) q = Some i"
    "ae_data_capacity (ai_entries (active s') ! i) = 0" "ai_next_data_offset (active s') = ai_next_data_offset (active s)"
    using vol_stepD(2) [OF O1(1) s'(2)] F(2) im D1(2) by (simp_all add: e_def new_entry_def aosfs_entry_zero_def)
  ultimately show ?thesis using upd by blast
qed

end

section \<open>Creating and removing\<close>

text \<open>The directories of a volume: the root, the built-in names, and the directory entries.\<close>

definition tree_dir :: "(string \<Rightarrow> file_view option) \<Rightarrow> string \<Rightarrow> bool" where
  "tree_dir T p \<longleftrightarrow> p = [] \<or> root_dir_index p \<noteq> None \<or> (\<exists>f. T p = Some f \<and> fv_kind f = AOSFS_ENTRY_DIRECTORY)"

lemma dir_exists_tree:
  assumes "volume_inv S (active s) V"
  shows "dir_exists p s = tree_dir (volume_tree (active s) V) p"
  using aosfs_find_slot [OF assms, of p] slot_facts(5) [OF assms, of p]
  by (auto simp: dir_exists_def tree_dir_def volume_tree_def slot_map_def view_def entry_at_def split: option.splits)

lemma children_tree:
  assumes "volume_inv S (active s) V"
  shows "dynamic_dir_has_children q s \<longleftrightarrow> (\<exists>p \<in> dom (volume_tree (active s) V). immediate_child_name q p \<noteq> None)"
proof -
  note T = volume_inv_table [OF assms]
  let ?es = "ai_entries (active s)"
  have "dynamic_dir_has_children q s \<longleftrightarrow> (\<exists>i < length ?es. ae_in_use (?es ! i) \<and> immediate_child_name q (ae_path (?es ! i)) \<noteq> None)"
  proof
    assume "dynamic_dir_has_children q s"
    then show "\<exists>i < length ?es. ae_in_use (?es ! i) \<and> immediate_child_name q (ae_path (?es ! i)) \<noteq> None"
      unfolding dynamic_dir_has_children_def list_ex_iff by (metis in_set_conv_nth in_set_takeD)
  next
    assume "\<exists>i < length ?es. ae_in_use (?es ! i) \<and> immediate_child_name q (ae_path (?es ! i)) \<noteq> None"
    then obtain i where i: "i < length ?es" "ae_in_use (?es ! i)" "immediate_child_name q (ae_path (?es ! i)) \<noteq> None" by blast
    have "i < ai_entry_limit (active s)" using volume_inv_entry(3) [OF assms] i(1,2) T(1) by simp
    then have "?es ! i \<in> set (take (ai_entry_limit (active s)) ?es)" using i(1) by (auto simp: in_set_conv_nth)
    then show "dynamic_dir_has_children q s" using i(2,3) unfolding dynamic_dir_has_children_def list_ex_iff by blast
  qed
  moreover have "p \<in> dom (volume_tree (active s) V) \<longleftrightarrow> (\<exists>i < length ?es. ae_in_use (?es ! i) \<and> ae_path (?es ! i) = p)" for p
    by (auto simp: dom_def volume_tree_def slot_map_None [unfolded not_Some_eq [symmetric]] slot_map_def slot_of_iff [OF T(2)])
  ultimately show ?thesis unfolding Bex_def by metis
qed

context byte_store
begin

lemma unlink_result:
  assumes sel: "select_instance_for_path path s0 = (q, s)" and vok: "volume_ok bid invar contents s" and "path \<noteq> []"
  shows "(aosfs_unlink_path path s0 = (False, s) \<and>
      (q = [] \<or> (\<forall>f. tree_of contents s q = Some f \<longrightarrow> fv_kind f = AOSFS_ENTRY_DIRECTORY))) \<or>
    (\<exists>f s'. q \<noteq> [] \<and> tree_of contents s q = Some f \<and> fv_kind f \<noteq> AOSFS_ENTRY_DIRECTORY \<and>
      aosfs_unlink_path path s0 = (True, s') \<and> vol_update bid invar contents s ((tree_of contents s)(q := None)) s')"
proof (cases "slot_of ae_in_use ae_path (ai_entries (active s)) q")
  case None
  then show ?thesis
    using sel assms(3) entry_index_slot [OF volume_okD(2) [OF vok]]
    by (simp add: aosfs_unlink_path_def tree_of_def tree_None [THEN iffD2])
next
  case (Some i)
  note O = volume_okD [OF vok]
  note S = slot_facts [OF O(2) Some]
  show ?thesis
    using sel assms(3) Some entry_index_slot [OF O(2)] clear_entry [OF vok Some] S(5)
    by (auto simp: aosfs_unlink_path_def tree_of_def view_def entry_at_def)
qed

lemma rmdir_result:
  assumes sel: "select_instance_for_path path s0 = (q, s)" and vok: "volume_ok bid invar contents s" and "path \<noteq> []"
  shows "aosfs_rmdir_path path s0 = (False, s) \<or>
    (\<exists>f s'. q \<noteq> [] \<and> root_dir_index q = None \<and> tree_of contents s q = Some f \<and> fv_kind f = AOSFS_ENTRY_DIRECTORY \<and>
      (\<forall>p \<in> dom (tree_of contents s). immediate_child_name q p = None) \<and>
      aosfs_rmdir_path path s0 = (True, s') \<and> vol_update bid invar contents s ((tree_of contents s)(q := None)) s')"
proof (cases "slot_of ae_in_use ae_path (ai_entries (active s)) q")
  case None
  then show ?thesis
    using sel assms(3) entry_index_slot [OF volume_okD(2) [OF vok]] by (simp add: aosfs_rmdir_path_def)
next
  case (Some i)
  note O = volume_okD [OF vok]
  note S = slot_facts [OF O(2) Some]
  show ?thesis
    using sel assms(3) Some entry_index_slot [OF O(2)] clear_entry [OF vok Some] S(5) children_tree [OF O(2)]
    by (auto simp: aosfs_rmdir_path_def tree_of_def view_def entry_at_def)
qed

lemma create_result:
  assumes sel: "select_instance_for_path path s0 = (q, s)" and vok: "volume_ok bid invar contents s"
    and nul: "CHR 0x00 \<notin> set q"
  shows "(\<exists>s1. aosfs_create_path_mode path mode uid gid s0 = (None, s1) \<and> (s1 = s0 \<or> s1 = s)) \<or>
    (\<exists>f. tree_of contents s q = Some f \<and> fv_kind f \<noteq> AOSFS_ENTRY_DIRECTORY \<and>
      fst (aosfs_create_path_mode path mode uid gid s0) \<noteq> None \<and> snd (aosfs_create_path_mode path mode uid gid s0) = s) \<or>
    (\<exists>parent s'. q \<noteq> [] \<and> tree_of contents s q = None \<and> aosfs_parent_path_of q AOSFS_PATH_MAX = Some parent \<and>
      tree_dir (tree_of contents s) parent \<and> fst (aosfs_create_path_mode path mode uid gid s0) \<noteq> None \<and>
      snd (aosfs_create_path_mode path mode uid gid s0) = s' \<and>
      vol_update bid invar contents s ((tree_of contents s)(q \<mapsto> new_file AOSFS_ENTRY_REGULAR mode uid gid (ai_next_inode (active s)))) s')"
proof (cases "path = [] \<or> length path \<ge> AOSFS_PATH_MAX \<or> q = [] \<or> length q \<ge> AOSFS_PATH_MAX \<or> commands_leaf q \<noteq> None \<or>
    \<not> contains_slash q \<and> initrd_get_file (initrd_memory s) (Some q) (fs_initrd s) \<noteq> None")
  case True
  then show ?thesis using sel by (auto simp: aosfs_create_path_mode_def)
next
  case guards: False
  note O = volume_okD [OF vok]
  note T = volume_inv_table [OF O(2)]
  show ?thesis
  proof (cases "\<exists>parent. aosfs_parent_path_of q AOSFS_PATH_MAX = Some parent \<and> dir_exists parent s")
    case False
    then show ?thesis using sel guards by (auto simp: aosfs_create_path_mode_def split: option.splits)
  next
    case True
    then obtain parent where parent: "aosfs_parent_path_of q AOSFS_PATH_MAX = Some parent" "dir_exists parent s" by blast
    have pd: "tree_dir (tree_of contents s) parent" using parent(2) dir_exists_tree [OF O(2)] by (simp add: tree_of_def)
    note C = aosfs_create_path_mode_def [of path mode uid gid s0, unfolded sel prod.case aosfs_find_slot [OF O(2)] parent(1) option.case]
    show ?thesis
    proof (cases "slot_of ae_in_use ae_path (ai_entries (active s)) q")
      case (Some i)
      note S = slot_facts [OF O(2) Some]
      show ?thesis
        using C guards parent(2) Some S(5)
        by (cases "ae_kind (ai_entries (active s) ! i) = AOSFS_ENTRY_DIRECTORY")
          (auto simp: entry_at_def tree_of_def view_def)
    next
      case None
      let ?free = "find_slot (\<lambda>e. \<not> ae_in_use e) (take (ai_entry_limit (active s)) (ai_entries (active s)))"
      show ?thesis
      proof (cases ?free)
        case None': None
        then show ?thesis using C guards parent(2) None O(3) by simp
      next
        case (Some i)
        have i: "i < ai_entry_limit (active s)" "\<not> ae_in_use (ai_entries (active s) ! i)"
          using find_slot_SomeD [OF Some] by auto
        obtain s' where s': "allocate_entry_at i AOSFS_ENTRY_REGULAR mode uid gid q s = (True, s')"
            "vol_update bid invar contents s ((tree_of contents s)(q \<mapsto> new_file AOSFS_ENTRY_REGULAR mode uid gid (ai_next_inode (active s)))) s'"
          using allocate_result [OF vok i None _ nul, of AOSFS_ENTRY_REGULAR mode uid gid] guards
          by (auto simp: AOSFS_ENTRY_REGULAR_def)
        have "aosfs_create_path_mode path mode uid gid s0 = (Some (fill_dynamic_node i s'), s')"
          using C guards parent(2) None O(3) Some s'(1) by (simp add: Let_def)
        moreover have "tree_of contents s q = None" using None by (simp add: tree_of_def tree_None)
        ultimately show ?thesis using guards parent(1) pd s'(2) by auto
      qed
    qed
  qed
qed

end

lemma mounted_step:
  assumes "vol_step invar contents s a V s'"
  shows "ai_mounted (g_instances s' ! k) = ai_mounted (g_instances s ! k)" "g_active s' = g_active s"
proof -
  obtain b where b: "s' = post a b s" "same_volume (active s) a" using assms by (auto simp: vol_step_def)
  show "g_active s' = g_active s" using b(1) by (simp add: post_simps)
  show "ai_mounted (g_instances s' ! k) = ai_mounted (g_instances s ! k)"
    using b by (cases "k = g_active s"; cases "k < length (g_instances s)")
      (auto simp: post_def active_def same_volume_def list_update_beyond)
qed

text \<open>Selecting a path again selects the same instance.\<close>

lemma select_again:
  assumes "select_instance_for_path path s0 = (q, s)"
    and "\<And>k. ai_mounted (g_instances s' ! k) = ai_mounted (g_instances s ! k)" "g_active s' = g_active s"
  shows "select_instance_for_path path s' = (q, s')"
proof -
  obtain role where sr: "selected_role (skip_slashes path) s0 = (role, q)"
    and st: "s = s0\<lparr>g_active := if \<not> ai_mounted (g_instances s0 ! instance_for_role role) \<and> role \<noteq> PARTITION_ROLE_ROOT
        then instance_for_role PARTITION_ROLE_ROOT else instance_for_role role\<rparr>"
    using assms(1) by (auto simp: select_instance_for_path_def Let_def split: prod.splits)
  have m: "ai_mounted (g_instances s' ! k) = ai_mounted (g_instances s0 ! k)" for k
    using assms(2) st by simp
  have "selected_role (skip_slashes path) s' = (role, q)"
    using sr unfolding selected_role_def m .
  then show ?thesis
    using st m assms(3) by (simp add: select_instance_for_path_def Let_def)
qed

lemma select_after_step:
  "select_instance_for_path path s0 = (q, s) \<Longrightarrow> vol_step invar contents s a V s' \<Longrightarrow>
   select_instance_for_path path s' = (q, s')"
  by (rule select_again [OF _ mounted_step])

context byte_store
begin

lemma mkdir_result:
  assumes sel: "select_instance_for_path path s0 = (q, s)" and vok: "volume_ok bid invar contents s"
    and nul: "CHR 0x00 \<notin> set q"
  shows "(\<exists>s1. aosfs_mkdir_path_mode path mode uid gid s0 = (False, s1) \<and> (s1 = s0 \<or> s1 = s)) \<or>
    (\<exists>parent s'. q \<noteq> [] \<and> tree_of contents s q = None \<and> aosfs_parent_path_of q AOSFS_PATH_MAX = Some parent \<and>
      tree_dir (tree_of contents s) parent \<and> aosfs_mkdir_path_mode path mode uid gid s0 = (True, s') \<and>
      vol_update bid invar contents s ((tree_of contents s)(q \<mapsto> new_file AOSFS_ENTRY_DIRECTORY mode uid gid (ai_next_inode (active s)))) s')"
proof (cases "path = [] \<or> length path \<ge> AOSFS_PATH_MAX \<or> q = [] \<or> length q \<ge> AOSFS_PATH_MAX \<or>
    aosfs_find_entry q s \<noteq> None \<or> root_dir_index q \<noteq> None \<or> commands_leaf q \<noteq> None \<or> \<not> contains_slash q \<and> root_name_is_builtin q \<or>
    \<not> (\<exists>parent. aosfs_parent_path_of q AOSFS_PATH_MAX = Some parent \<and> dir_exists parent s)")
  case True
  then show ?thesis using sel by (auto simp: aosfs_mkdir_path_mode_def split: option.splits)
next
  case guards: False
  note O = volume_okD [OF vok]
  obtain parent where parent: "aosfs_parent_path_of q AOSFS_PATH_MAX = Some parent" "dir_exists parent s" using guards by blast
  have pd: "tree_dir (tree_of contents s) parent" using parent(2) dir_exists_tree [OF O(2)] by (simp add: tree_of_def)
  have None: "slot_of ae_in_use ae_path (ai_entries (active s)) q = None" using guards aosfs_find_slot [OF O(2)] by simp
  have op: "aosfs_mkdir_path_mode path mode uid gid s0 =
      (case find_slot (\<lambda>e. \<not> ae_in_use e) (take (ai_entry_limit (active s)) (ai_entries (active s))) of
         None \<Rightarrow> (False, s) | Some i \<Rightarrow> allocate_entry_at i AOSFS_ENTRY_DIRECTORY mode uid gid q s)"
    using sel guards parent by (auto simp: aosfs_mkdir_path_mode_def)
  show ?thesis
  proof (cases "find_slot (\<lambda>e. \<not> ae_in_use e) (take (ai_entry_limit (active s)) (ai_entries (active s)))")
    case None
    then show ?thesis using op by simp
  next
    case (Some i)
    have i: "i < ai_entry_limit (active s)" "\<not> ae_in_use (ai_entries (active s) ! i)"
      using find_slot_SomeD [OF Some] by auto
    obtain s' where s': "allocate_entry_at i AOSFS_ENTRY_DIRECTORY mode uid gid q s = (True, s')"
        "vol_update bid invar contents s ((tree_of contents s)(q \<mapsto> new_file AOSFS_ENTRY_DIRECTORY mode uid gid (ai_next_inode (active s)))) s'"
      using allocate_result [OF vok i None _ nul, of AOSFS_ENTRY_DIRECTORY mode uid gid] guards
      by (auto simp: AOSFS_ENTRY_DIRECTORY_def AOSFS_ENTRY_SYMLINK_def)
    moreover have "tree_of contents s q = None" using None by (simp add: tree_of_def tree_None)
    ultimately show ?thesis using op Some guards parent(1) pd by auto
  qed
qed

lemma resize_result:
  assumes sel: "select_instance_for_path path s0 = (q, s)" and vok: "volume_ok bid invar contents s"
  shows "(\<exists>s1. aosfs_resize_path path sz s0 = (False, s1) \<and> (s1 = s0 \<or> s1 = s)) \<or>
    (\<exists>f s'. tree_of contents s q = Some f \<and> fv_kind f = AOSFS_ENTRY_REGULAR \<and> aosfs_resize_path path sz s0 = (True, s') \<and>
      vol_update bid invar contents s
        ((tree_of contents s)(q \<mapsto> f\<lparr>fv_data := take sz (fv_data f @ replicate (sz - length (fv_data f)) 0)\<rparr>)) s')"
proof (cases "slot_of ae_in_use ae_path (ai_entries (active s)) q")
  case None
  then show ?thesis
    using sel entry_index_slot [OF volume_okD(2) [OF vok]] by (simp add: aosfs_resize_path_def)
next
  case (Some i)
  note O = volume_okD [OF vok]
  note S = slot_facts [OF O(2) Some] and T = volume_inv_table [OF O(2)]
  let ?e = "ai_entries (active s) ! i" and ?V = "volume_bytes contents s"
  note E = volume_inv_entry [OF O(2) S(1)] and L = view_data_length [OF O(2) S(1)]
  have tree: "tree_of contents s q = Some (view ?V ?e)" using S(5) by (simp add: tree_of_def)
  note R = aosfs_resize_path_def [of path sz s0, unfolded sel prod.case entry_index_slot [OF O(2)] Some option.case entry_at_def]
  consider (bad) "sz > AOSFS_MAX_FILE_SIZE \<or> ae_kind ?e \<noteq> AOSFS_ENTRY_REGULAR"
    | (shrink) "sz \<le> AOSFS_MAX_FILE_SIZE" "ae_kind ?e = AOSFS_ENTRY_REGULAR" "sz \<le> ae_size ?e"
    | (grow) "sz \<le> AOSFS_MAX_FILE_SIZE" "ae_kind ?e = AOSFS_ENTRY_REGULAR" "ae_size ?e < sz" by linarith
  then show ?thesis
  proof cases
    case bad
    then show ?thesis using R by auto
  next
    case shrink
    have "ae_size ?e \<le> ae_data_capacity ?e" using E(1) by (simp add: entry_ok_def)
    then have ok: "entry_ok (?e\<lparr>ae_size := sz\<rparr>)" using size_change_ok [OF E(1) S(3)] shrink(3) by simp
    obtain s' where s': "sync_entry i (set_entry i (?e\<lparr>ae_size := sz\<rparr>) s) = (True, s')"
        "vol_update bid invar contents s ((tree_of contents s)(q \<mapsto> view ?V (?e\<lparr>ae_size := sz\<rparr>))) s'"
      using replace_entry [OF vok Some, of "?e\<lparr>ae_size := sz\<rparr>"] S(3,4) ok by auto
    have "view ?V (?e\<lparr>ae_size := sz\<rparr>) = (view ?V ?e)\<lparr>fv_data := take sz (fv_data (view ?V ?e))\<rparr>"
      using shrink(3) by (simp add: view_def subarr_def min_def)
    then show ?thesis
      using s' R shrink tree L by (auto simp: view_def)
  next
    case grow
    have dirk: "ae_kind ?e \<noteq> AOSFS_ENTRY_DIRECTORY" using grow(2) by (simp add: AOSFS_ENTRY_REGULAR_def AOSFS_ENTRY_DIRECTORY_def)
    have R': "aosfs_resize_path path sz s0 = (case (case reserve_entry_extent i sz s of (False, s') \<Rightarrow> (False, s')
          | (True, s') \<Rightarrow> zero_fill_loop i (ae_size ?e) sz s') of (False, s') \<Rightarrow> (False, s')
          | (True, s') \<Rightarrow> sync_entry i (set_entry i ((ai_entries (active s') ! i)\<lparr>ae_size := sz\<rparr>) s'))"
      using R grow O(3,4) by (simp add: resize_grow_def entry_at_def)
    from reserve_ok [OF vok Some dirk grow(1)]
    show ?thesis
    proof (elim disjE exE conjE)
      assume "reserve_entry_extent i sz s = (False, s)"
      then show ?thesis using R' by simp
    next
      fix s1
      assume r: "reserve_entry_extent i sz s = (True, s1)" and u: "vol_update bid invar contents s (tree_of contents s) s1"
        and i1: "slot_of ae_in_use ae_path (ai_entries (active s1)) q = Some i"
        and cap: "sz \<le> ae_data_capacity (ai_entries (active s1) ! i)"
        and k1: "ae_kind (ai_entries (active s1) ! i) = ae_kind ?e" and z1: "ae_size (ai_entries (active s1) ! i) = ae_size ?e"
        and v1: "view (volume_bytes contents s1) (ai_entries (active s1) ! i) = view ?V ?e"
      let ?e1 = "ai_entries (active s1) ! i"
      have vok1: "volume_ok bid invar contents s1" and t1: "tree_of contents s1 = tree_of contents s"
        using u by (simp_all add: vol_update_def)
      note O1 = volume_okD [OF vok1]
      note S1 = slot_facts [OF O1(2) i1] and T1 = volume_inv_table [OF O1(2)]
      have cap0: "ae_data_capacity ?e1 \<noteq> 0" using cap grow(3) by simp
      have d: "entry_data_offset i s1 = ae_data_offset ?e1" using cap0 O1(4) by (simp add: entry_data_offset_def entry_at_def)
      have fit: "entry_data_offset i s1 + sz \<le> active_storage_size s1"
        using volume_inv_entry(2) [OF O1(2) S1(1)] cap cap0 T1(6) d by (simp add: extent_in_def)
      let ?z = "replicate (sz - ae_size ?e) (0 :: u8)"
      have len: "ae_size ?e + length ?z = sz" using grow(3) by simp
      obtain s2 where s2: "zero_fill_loop i (ae_size ?e) sz s1 = (True, s2)"
          "vol_step invar contents s1 (active s1) (overwrite (ae_data_offset ?e1 + ae_size ?e) ?z (volume_bytes contents s1)) s2"
        using zero_fill_step [OF O1(1) fit, of "ae_size ?e"] grow(3) d by auto
      note D2 = vol_stepD [OF O1(1) s2(2)]
      have m: "sz = max (ae_size ?e1) (ae_size ?e + length ?z)" using len z1 grow(3) by simp
      obtain ext s3 where s3: "sync_entry i (set_entry i (?e1\<lparr>ae_size := sz\<rparr>) s2) = (True, s3)"
          "length (fv_data (view ?V ?e) @ ext) = sz"
          "vol_update bid invar contents s1 ((tree_of contents s1)(q \<mapsto> (view ?V ?e)
             \<lparr>fv_data := overwrite (ae_size ?e) ?z (fv_data (view ?V ?e) @ ext)\<rparr>)) s3"
        using store_in_extent [OF vok1 i1 refl _ _ _ m s2(2)] dirk k1 v1 cap len grow(3) by auto
      have dat: "overwrite (ae_size ?e) ?z (fv_data (view ?V ?e) @ ext) = take sz (fv_data (view ?V ?e) @ replicate (sz - length (fv_data (view ?V ?e))) 0)"
        using overwrite_pad [of "ae_size ?e" "fv_data (view ?V ?e)" ext ?z] L s3(2) grow(3) by (simp add: overwrite_def)
      have "aosfs_resize_path path sz s0 = (True, s3)" using R' r s2(1) s3(1) by (simp add: D2(2))
      moreover have "vol_update bid invar contents s ((tree_of contents s)(q \<mapsto> (view ?V ?e)
             \<lparr>fv_data := take sz (fv_data (view ?V ?e) @ replicate (sz - length (fv_data (view ?V ?e))) 0)\<rparr>)) s3"
        using s3(3) u vol_step_trans [OF O(1)] unfolding vol_update_def t1 dat by blast
      ultimately show ?thesis using tree grow(2) by (auto simp: view_def)
    qed
  qed
qed

end

section \<open>Symbolic links\<close>

definition link_file :: "string \<Rightarrow> u32 \<Rightarrow> u32 \<Rightarrow> u64 \<Rightarrow> file_view" where
  "link_file target uid gid inode =
     (new_file AOSFS_ENTRY_SYMLINK AOSFS_DEFAULT_SYMLINK_MODE uid gid inode)\<lparr>fv_data := map of_char target\<rparr>"

context byte_store
begin

lemma vol_update_trans:
  assumes "volume_ok bid invar contents s" "vol_update bid invar contents s T s'" "vol_update bid invar contents s' T' s''"
  shows "vol_update bid invar contents s T' s''"
  using assms vol_step_trans [OF volume_okD(1) [OF assms(1)]] unfolding vol_update_def by blast

lemma vol_update_select:
  assumes "select_instance_for_path path s0 = (q, s)" "vol_update bid invar contents s T s'"
  shows "select_instance_for_path path s' = (q, s')" "volume_ok bid invar contents s'" "tree_of contents s' = T"
  using assms(2) select_after_step [OF assms(1)] by (auto simp: vol_update_def)

lemma unlink_undo:
  assumes "select_instance_for_path path s0 = (q, s)" "volume_ok bid invar contents s" "path \<noteq> []" "q \<noteq> []"
    and "tree_of contents s q = Some f" "fv_kind f \<noteq> AOSFS_ENTRY_DIRECTORY"
  shows "vol_update bid invar contents s ((tree_of contents s)(q := None)) (snd (aosfs_unlink_path path s0))"
  using unlink_result [OF assms(1-3)] assms(4-6) by auto

text \<open>After the file has been created, \<open>aosfs_symlink_path\<close> turns it into a link and writes the target.\<close>

lemma symlink_steps:
  assumes sel: "select_instance_for_path path s0 = (q, s)" and vok: "volume_ok bid invar contents s"
    and target: "target \<noteq> []" "length target < AOSFS_PATH_MAX"
    and create: "aosfs_create_path_mode path AOSFS_DEFAULT_SYMLINK_MODE uid gid s0 = (Some node, s1)"
    and u1: "vol_update bid invar contents s ((tree_of contents s)(q \<mapsto>
      new_file AOSFS_ENTRY_REGULAR AOSFS_DEFAULT_SYMLINK_MODE uid gid (ai_next_inode (active s)))) s1"
  shows "\<exists>s2 i. vol_update bid invar contents s ((tree_of contents s)(q \<mapsto>
      new_file AOSFS_ENTRY_SYMLINK AOSFS_DEFAULT_SYMLINK_MODE uid gid (ai_next_inode (active s)))) s2 \<and>
    slot_of ae_in_use ae_path (ai_entries (active s1)) q = Some i \<and> slot_of ae_in_use ae_path (ai_entries (active s2)) q = Some i \<and>
    ae_data_capacity (ai_entries (active s2) ! i) = ae_data_capacity (ai_entries (active s1) ! i) \<and>
    ai_next_data_offset (active s2) = ai_next_data_offset (active s1) \<and>
    aosfs_symlink_path target path uid gid s0 =
      (case aosfs_write_path path 0 (map of_char target) s2 of (None, s3) \<Rightarrow> (False, snd (aosfs_unlink_path path s3))
       | (Some (written, new_size), s3) \<Rightarrow> if written \<noteq> length target then (False, snd (aosfs_unlink_path path s3)) else (True, s3))"
proof -
  let ?new = "new_file AOSFS_ENTRY_REGULAR AOSFS_DEFAULT_SYMLINK_MODE uid gid (ai_next_inode (active s))"
  note U1 = vol_update_select [OF sel u1]
  note O1 = volume_okD [OF U1(2)]
  have t1: "tree_of contents s1 q = Some ?new" using U1(3) by simp
  then obtain i where i: "slot_of ae_in_use ae_path (ai_entries (active s1)) q = Some i"
    by (metis tree_None tree_of_def option.distinct(1) option.exhaust)
  note S1 = slot_facts [OF O1(2) i] and T1 = volume_inv_table [OF O1(2)]
  let ?e = "ai_entries (active s1) ! i"
  have e: "view (volume_bytes contents s1) ?e = ?new" using S1(5) t1 by (simp add: tree_of_def)
  have kind: "ae_kind ?e = AOSFS_ENTRY_REGULAR" using arg_cong [OF e, of fv_kind] by (simp add: view_def new_file_def)
  let ?e2 = "?e\<lparr>ae_kind := AOSFS_ENTRY_SYMLINK, ae_mode := AOSFS_DEFAULT_SYMLINK_MODE\<rparr>"
  have ok2: "entry_ok ?e2"
    using volume_inv_entry(1) [OF O1(2) S1(1)] S1(3) kind
    by (auto simp: entry_ok_def AOSFS_DEFAULT_SYMLINK_MODE_def AOSFS_MODE_BITS_def AOSFS_ENTRY_SYMLINK_def
        AOSFS_ENTRY_DIRECTORY_def)
  define f2 where "f2 = new_file AOSFS_ENTRY_SYMLINK AOSFS_DEFAULT_SYMLINK_MODE uid gid (ai_next_inode (active s))"
  have v2: "view (volume_bytes contents s1) ?e2 = f2"
    using e by (simp add: view_def new_file_def f2_def AOSFS_DEFAULT_SYMLINK_MODE_def AOSFS_MODE_BITS_def)
  obtain s2 where s2: "sync_entry i (set_entry i ?e2 s1) = (True, s2)" "active s2 = (active s1)\<lparr>ai_entries := (ai_entries (active s1))[i := ?e2]\<rparr>"
      "vol_update bid invar contents s1 ((tree_of contents s1)(q \<mapsto> f2)) s2"
    using replace_entry [OF U1(2) i, of ?e2] S1(3,4) ok2 v2 by auto
  have u2: "vol_update bid invar contents s ((tree_of contents s)(q \<mapsto> f2)) s2"
    using vol_update_trans [OF vok u1 s2(3)] U1(3) by simp
  have i2: "slot_of ae_in_use ae_path (ai_entries (active s2)) q = Some i" 
    using slots_replace(2) [OF T1(2) i, of ?e2] S1(3,4) i by (simp add: s2(2))
  have "aosfs_symlink_path target path uid gid s0 =
      (case aosfs_write_path path 0 (map of_char target) s2 of (None, s3) \<Rightarrow> (False, snd (aosfs_unlink_path path s3))
       | (Some (written, new_size), s3) \<Rightarrow> if written \<noteq> length target then (False, snd (aosfs_unlink_path path s3)) else (True, s3))"
    using target create U1(1) i entry_index_slot [OF O1(2)] kind s2(1)
    by (simp add: aosfs_symlink_path_def entry_at_def Let_def)
  then show ?thesis using u2 i i2 s2(2) S1(1) T1(1) by (auto simp: f2_def)
qed

lemma link_written:
  assumes "length (fv_data f @ ext) = max (length (fv_data f)) (0 + length (map of_char target :: bytes))"
    "f = new_file AOSFS_ENTRY_SYMLINK AOSFS_DEFAULT_SYMLINK_MODE uid gid ino"
  shows "f\<lparr>fv_data := overwrite 0 (map of_char target) (fv_data f @ ext)\<rparr> = link_file target uid gid ino"
  using assms by (simp add: new_file_def link_file_def overwrite_def)

lemma symlink_result:
  assumes sel: "select_instance_for_path path s0 = (q, s)" and vok: "volume_ok bid invar contents s"
    and nul: "CHR 0x00 \<notin> set q" and fresh: "tree_of contents s q = None"
  shows "(aosfs_symlink_path target path uid gid s0 = (False, s0)) \<or>
    (\<exists>s'. aosfs_symlink_path target path uid gid s0 = (False, s') \<and> vol_update bid invar contents s (tree_of contents s) s') \<or>
    (\<exists>parent s'. aosfs_symlink_path target path uid gid s0 = (True, s') \<and>
      aosfs_parent_path_of q AOSFS_PATH_MAX = Some parent \<and> tree_dir (tree_of contents s) parent \<and> q \<noteq> [] \<and>
      vol_update bid invar contents s ((tree_of contents s)(q \<mapsto> link_file target uid gid (ai_next_inode (active s)))) s')"
proof (cases "target = [] \<or> length target \<ge> AOSFS_PATH_MAX")
  case True
  then show ?thesis by (auto simp: aosfs_symlink_path_def)
next
  case target: False
  let ?create = "aosfs_create_path_mode path AOSFS_DEFAULT_SYMLINK_MODE uid gid s0" and ?T = "tree_of contents s"
  let ?new = "new_file AOSFS_ENTRY_REGULAR AOSFS_DEFAULT_SYMLINK_MODE uid gid (ai_next_inode (active s))"
  let ?f2 = "new_file AOSFS_ENTRY_SYMLINK AOSFS_DEFAULT_SYMLINK_MODE uid gid (ai_next_inode (active s))"
  from create_result [OF sel vok nul, of AOSFS_DEFAULT_SYMLINK_MODE uid gid]
  show ?thesis
  proof (elim disjE exE conjE)
    fix s1 assume "?create = (None, s1)" "s1 = s0"
    then show ?thesis using target by (simp add: aosfs_symlink_path_def)
  next
    fix s1 assume "?create = (None, s1)" "s1 = s"
    then show ?thesis using target vol_update_refl [OF vok] by (simp add: aosfs_symlink_path_def)
  next
    fix f assume "?T q = Some f"
    then show ?thesis using fresh by simp
  next
    fix parent s1
    assume q: "q \<noteq> []" and parent: "aosfs_parent_path_of q AOSFS_PATH_MAX = Some parent" "tree_dir ?T parent"
      and c: "fst ?create \<noteq> None" "snd ?create = s1" and u1: "vol_update bid invar contents s (?T(q \<mapsto> ?new)) s1"
    obtain node where create: "?create = (Some node, s1)" using c by (cases ?create) auto
    have path: "path \<noteq> []" using create by (auto simp: aosfs_create_path_mode_def)
    have tgt: "target \<noteq> []" "length target < AOSFS_PATH_MAX" using target by auto
    obtain s2 where u2: "vol_update bid invar contents s (?T(q \<mapsto> ?f2)) s2"
      and op: "aosfs_symlink_path target path uid gid s0 =
        (case aosfs_write_path path 0 (map of_char target) s2 of (None, s3) \<Rightarrow> (False, snd (aosfs_unlink_path path s3))
         | (Some (written, new_size), s3) \<Rightarrow> if written \<noteq> length target then (False, snd (aosfs_unlink_path path s3)) else (True, s3))"
      using symlink_steps [OF sel vok tgt create u1] by blast
    note U2 = vol_update_select [OF sel u2]
    let ?w = "aosfs_write_path path 0 (map of_char target) s2"
    have nd: "fv_kind ?f2 \<noteq> AOSFS_ENTRY_DIRECTORY"
      by (simp add: new_file_def AOSFS_ENTRY_SYMLINK_def AOSFS_ENTRY_DIRECTORY_def)
    have t2: "tree_of contents s2 q = Some ?f2" using U2(3) by simp
    have bufne: "map of_char target \<noteq> ([] :: bytes)" using target by simp
    have same: "?T(q := None) = ?T" using fresh by auto
    from write_path_result [OF U2(1,2) bufne, of 0]
    show ?thesis
    proof (elim disjE exE conjE)
      assume w: "?w = (None, s2)"
      have "vol_update bid invar contents s2 ((tree_of contents s2)(q := None)) (snd (aosfs_unlink_path path s2))"
        by (rule unlink_undo [OF U2(1,2) path q t2 nd])
      then have "vol_update bid invar contents s ?T (snd (aosfs_unlink_path path s2))"
        using vol_update_trans [OF vok u2] U2(3) same by simp
      then show ?thesis using op w by simp
    next
      fix f ext s3
      assume f: "tree_of contents s2 q = Some f" and len: "length (fv_data f @ ext) = max (length (fv_data f)) (0 + length (map of_char target :: bytes))"
        and w: "?w = (Some (length (map of_char target :: bytes), length (fv_data f @ ext)), s3)"
        and u3: "vol_update bid invar contents s2 ((tree_of contents s2)(q \<mapsto> f\<lparr>fv_data := overwrite 0 (map of_char target) (fv_data f @ ext)\<rparr>)) s3"
      have "f = ?f2" using f t2 by simp
      then have "vol_update bid invar contents s (?T(q \<mapsto> link_file target uid gid (ai_next_inode (active s)))) s3"
        using vol_update_trans [OF vok u2 u3] U2(3) link_written [OF len] by simp
      then show ?thesis using op w parent q by simp
    qed
  qed
qed

end

end
