(* ===== verification/Aosfs_Mount.thy ===== *)
theory Aosfs_Mount
  imports Aosfs_Files
begin

text \<open>
  Mounting an AOSFS volume: \<open>aosfs_mount_role\<close> rebuilds the table in memory from the bytes of the
  partition. A partition that an instance in good order has left behind is mounted successfully,
  and the mounted volume holds the same files. Formatting a partition, or mounting one without a
  valid superblock, gives an empty volume.
\<close>

section \<open>Reading one entry\<close>

lemma set_entry_facts:
  assumes "fs_wf s" "i < length (ai_entries (active s))"
  shows "entry_at i (set_entry i e s) = e" "set_entry i e' (set_entry i e s) = set_entry i e' s"
    "active (set_entry i e s) = (active s)\<lparr>ai_entries := (ai_entries (active s))[i := e]\<rparr>"
  using assms by (simp_all add: set_entry_as_post post_simps)

lemma disk_entry_roundtrip:
  assumes "entry_ok e" "ae_data_offset e < 2 ^ 64"
  shows "decode_disk_entry (encode_disk_entry (disk_entry_of e)) = disk_entry_of e"
proof (rule decode_encode_disk_entry)
  show "length (de_path (disk_entry_of e)) = 128"
    by (simp add: disk_entry_of_def AOSFS_PATH_MAX_def length_name_field)
  have "ae_size e \<le> AOSFS_MAX_FILE_SIZE" "ae_data_capacity e \<le> AOSFS_MAX_FILE_SIZE"
    using assms(1) by (simp_all add: entry_ok_def)
  then show "de_size (disk_entry_of e) < 2 ^ 32" "de_data_capacity (disk_entry_of e) < 2 ^ 64"
    by (simp_all add: disk_entry_of_def AOSFS_MAX_FILE_SIZE_def)
  show "de_data_offset (disk_entry_of e) < 2 ^ 64" using assms(2) by (simp add: disk_entry_of_def)
qed

lemma disk_mode_roundtrip:
  assumes "ae_mode e AND AOSFS_MODE_BITS = ae_mode e"
  shows "mount_mode (disk_entry_of e) = ae_mode e"
proof -
  have valid: "(AOSFS_DISK_MODE_VALID OR m) AND AOSFS_DISK_MODE_VALID \<noteq> 0" for m
  proof -
    have "bit ((AOSFS_DISK_MODE_VALID OR m) AND AOSFS_DISK_MODE_VALID) 15"
      by (simp add: bit_simps AOSFS_DISK_MODE_VALID_def bit_numeral_rec numeral_eq_Suc)
    then show ?thesis by (metis bit_0_eq bot_apply bot_bool_def)
  qed
  have "(AOSFS_DISK_MODE_VALID OR (ae_mode e AND AOSFS_MODE_BITS)) AND AOSFS_MODE_BITS =
      (AOSFS_DISK_MODE_VALID AND AOSFS_MODE_BITS) OR (ae_mode e AND AOSFS_MODE_BITS AND AOSFS_MODE_BITS)"
    by (simp add: bit.conj_disj_distrib2)
  also have "\<dots> = ae_mode e"
    using assms by (simp add: mode_bits_idem) (simp add: AOSFS_DISK_MODE_VALID_def AOSFS_MODE_BITS_def)
  finally show ?thesis using valid by (simp add: mount_mode_def disk_entry_of_def)
qed

lemma disk_path_roundtrip:
  assumes "entry_ok e"
  shows "copy_string AOSFS_PATH_MAX (cstr (de_path (disk_entry_of e))) = ae_path e"
  using assms cstr_name_field [of "ae_path e" AOSFS_PATH_MAX]
  by (simp add: entry_ok_def disk_entry_of_def copy_string_fits)

definition mounted_meta :: "aosfs_entry \<Rightarrow> aosfs_entry" where
  "mounted_meta e = aosfs_entry_zero\<lparr>ae_in_use := True, ae_kind := ae_kind e, ae_mode := ae_mode e, ae_uid := ae_uid e,
     ae_gid := ae_gid e, ae_size := ae_size e, ae_inode := ae_inode e, ae_path := ae_path e\<rparr>"

lemma mounted_meta_extent:
  "ae_in_use e \<Longrightarrow> (mounted_meta e)\<lparr>ae_data_offset := ae_data_offset e, ae_data_capacity := ae_data_capacity e\<rparr> = e"
  by (rule aosfs_entry.equality) (simp_all add: mounted_meta_def aosfs_entry_zero_def)

lemma mounted_meta_directory:
  "ae_in_use e \<Longrightarrow> ae_data_offset e = 0 \<Longrightarrow> ae_data_capacity e = 0 \<Longrightarrow> mounted_meta e = e"
  by (rule aosfs_entry.equality) (simp_all add: mounted_meta_def aosfs_entry_zero_def)

lemma mount_extent_ok:
  assumes wf: "fs_wf s" and i: "i < length (ai_entries (active s))" "entry_at i s = mounted_meta e"
    and e: "ae_in_use e" "entry_ok e" "extent_in n e" and n: "n \<le> S" "S + AOSFS_MAX_FILE_SIZE < 2 ^ 64"
    and m: "ai_next_data_offset (active s) \<le> n"
  shows "\<exists>m'. mount_extent False S i (disk_entry_of e) s = (True, post ((active s)
      \<lparr>ai_entries := (ai_entries (active s))[i := e], ai_next_data_offset := m'\<rparr>) (fs_blk s) s) \<and>
    ai_next_data_offset (active s) \<le> m' \<and> m' \<le> n \<and> extent_in m' e"
proof -
  note F = set_entry_facts [OF wf i(1)]
  let ?s = "set_entry i e s"
  have disk: "de_data_offset (disk_entry_of e) = ae_data_offset e" "de_data_capacity (disk_entry_of e) = ae_data_capacity e"
    by (simp_all add: disk_entry_of_def)
  have ok: "\<not> (ae_size e > AOSFS_MAX_FILE_SIZE \<or> ae_size e > ae_data_capacity e \<or> ae_data_capacity e \<noteq> 0 \<and> ae_data_offset e < AOSFS_DATA_OFFSET)"
    using e(2,3) by (auto simp: entry_ok_def extent_in_def)
  have me: "mount_extent False S i (disk_entry_of e) s = mount_extent_check False S i ?s"
    using ok unfolding mount_extent_def disk i(2) mounted_meta_extent [OF e(1)] by (auto simp: Let_def F(1))
  have st: "?s = post ((active s)\<lparr>ai_entries := (ai_entries (active s))[i := e]\<rparr>) (fs_blk s) s" by (rule set_entry_as_post)
  show ?thesis
  proof (cases "ae_data_capacity e = 0")
    case True
    then have "mount_extent_check False S i ?s = (True, ?s)" by (simp add: mount_extent_check_def F(1))
    then show ?thesis
      using True m st me by (intro exI [of _ "ai_next_data_offset (active s)"]) (simp add: extent_in_def)
  next
    case False
    let ?stop = "ae_data_offset e + ae_data_capacity e"
    have ext: "?stop \<le> n" using e(3) False by (simp add: extent_in_def)
    have nowrap: "\<not> ae_data_offset e > UINT64_MAX - ae_data_capacity e" using ext n by (simp add: UINT64_MAX_def)
    define m' where "m' = max (ai_next_data_offset (active s)) ?stop"
    have "mount_extent_check False S i ?s = (True, if ?stop > ai_next_data_offset (active s)
        then update_active (\<lambda>a. a\<lparr>ai_next_data_offset := ?stop\<rparr>) ?s else ?s)"
      using False nowrap ext n(1) F(3) by (simp add: mount_extent_check_def F(1) Let_def)
    also have "(if ?stop > ai_next_data_offset (active s) then update_active (\<lambda>a. a\<lparr>ai_next_data_offset := ?stop\<rparr>) ?s else ?s) =
        post ((active s)\<lparr>ai_entries := (ai_entries (active s))[i := e], ai_next_data_offset := m'\<rparr>) (fs_blk s) s"
      using wf by (auto simp: st post_simps m'_def max_def)
    finally show ?thesis
      using me m ext e(3) by (intro exI [of _ m']) (auto simp: m'_def extent_in_def)
  qed
qed

lemma mount_meta_step:
  assumes "fs_wf s" "i < length (ai_entries (active s))" "entry_at i s = aosfs_entry_zero" "entry_ok e" "ae_in_use e"
  shows "set_entry i ((entry_at i (set_entry i ((entry_at i s)\<lparr>ae_in_use := True\<rparr>) s))
      \<lparr>ae_kind := de_kind (disk_entry_of e), ae_mode := mount_mode (disk_entry_of e), ae_uid := de_uid (disk_entry_of e),
       ae_gid := de_gid (disk_entry_of e), ae_size := de_size (disk_entry_of e), ae_inode := de_inode (disk_entry_of e),
       ae_path := copy_string AOSFS_PATH_MAX (cstr (de_path (disk_entry_of e)))\<rparr>)
      (set_entry i ((entry_at i s)\<lparr>ae_in_use := True\<rparr>) s) = set_entry i (mounted_meta e) s"
proof -
  have "mount_mode (disk_entry_of e) = ae_mode e" using assms(4) by (intro disk_mode_roundtrip) (simp add: entry_ok_def)
  moreover have "copy_string AOSFS_PATH_MAX (cstr (de_path (disk_entry_of e))) = ae_path e" by (rule disk_path_roundtrip [OF assms(4)])
  moreover have "de_kind (disk_entry_of e) = ae_kind e" "de_uid (disk_entry_of e) = ae_uid e" "de_gid (disk_entry_of e) = ae_gid e"
    "de_size (disk_entry_of e) = ae_size e" "de_inode (disk_entry_of e) = ae_inode e"
    by (simp_all add: disk_entry_of_def)
  ultimately show ?thesis
    by (simp only: set_entry_facts(1,2) [OF assms(1,2)] assms(3) mounted_meta_def)
qed

context byte_store
begin

lemma mount_entry_ok:
  assumes od: "on_device bid invar s" and i: "i < AOSFS_MAX_ENTRIES" "length (ai_entries (active s)) = AOSFS_MAX_ENTRIES"
      "ai_entries (active s) ! i = aosfs_entry_zero"
    and e: "entry_ok e" "extent_in n e" and n: "n \<le> active_storage_size s" "active_storage_size s + AOSFS_MAX_FILE_SIZE < 2 ^ 64"
      "AOSFS_DATA_OFFSET \<le> active_storage_size s" "ai_next_data_offset (active s) \<le> n"
    and bytes: "subarr (AOSFS_TABLE_OFFSET + i * DISK_ENTRY_BYTES) DISK_ENTRY_BYTES (volume_bytes contents s) =
      encode_disk_entry (disk_entry_of e)"
  shows "\<exists>h' s' m. mount_entry False (active_storage_size s) i h s = (Some h', s') \<and>
    vol_step invar contents s ((active s)\<lparr>ai_entries := (ai_entries (active s))[i := e], ai_next_data_offset := m\<rparr>)
      (volume_bytes contents s) s' \<and>
    ai_next_data_offset (active s) \<le> m \<and> m \<le> n \<and> extent_in m e"
proof -
  have slot: "AOSFS_TABLE_OFFSET + i * DISK_ENTRY_BYTES + DISK_ENTRY_BYTES \<le> active_storage_size s"
    using table_slot_bound [OF order_refl i(1)] n(3) by simp
  obtain s1 where s1: "volume_read (AOSFS_TABLE_OFFSET + i * DISK_ENTRY_BYTES) DISK_ENTRY_BYTES s = (Some (encode_disk_entry (disk_entry_of e)), s1)"
      "vol_step invar contents s (active s) (volume_bytes contents s) s1"
    using vol_step_read [OF od slot] bytes by auto
  note D = vol_stepD [OF od s1(2)]
  have off: "ae_data_offset e < 2 ^ 64" using e n(1,2) by (auto simp: extent_in_def entry_ok_def)
  note dec = disk_entry_roundtrip [OF e(1) off]
  have used: "de_in_use (disk_entry_of e) = 0 \<longleftrightarrow> \<not> ae_in_use e" by (simp add: disk_entry_of_def)
  show ?thesis
  proof (cases "ae_in_use e")
    case False
    then have "e = aosfs_entry_zero" using e(1) by (simp add: entry_ok_def)
    moreover have "(ai_entries (active s))[i := aosfs_entry_zero] = ai_entries (active s)" using i(3) by (metis list_update_id)
    moreover have "mount_entry False (active_storage_size s) i h s = (Some h, s1)"
      using s1(1) dec used False by (simp add: mount_entry_def)
    ultimately show ?thesis
      using s1(2) n(4) by (intro exI [of _ h] exI [of _ s1] exI [of _ "ai_next_data_offset (active s)"]) simp
  next
    case True
    have wf1: "fs_wf s1" using D(1) by (simp add: on_device_def)
    have i1: "i < length (ai_entries (active s1))" "entry_at i s1 = aosfs_entry_zero"
      using i D(2) by (simp_all add: entry_at_def)
    let ?s2 = "set_entry i (mounted_meta e) s1"
    note F = set_entry_facts [OF wf1 i1(1)]
    have kind: "\<not> de_kind (disk_entry_of e) > AOSFS_ENTRY_SYMLINK" "de_kind (disk_entry_of e) = ae_kind e"
      using e(1) by (simp_all add: disk_entry_of_def entry_ok_def not_less)
    define h' where "h' = (if de_inode (disk_entry_of e) > h then de_inode (disk_entry_of e) else h)"
    have me: "mount_entry False (active_storage_size s) i h s = (if ae_kind e \<noteq> AOSFS_ENTRY_DIRECTORY
        then (case mount_extent False (active_storage_size s) i (disk_entry_of e) ?s2 of (False, s'') \<Rightarrow> (None, s'') | (True, s'') \<Rightarrow> (Some h', s''))
        else (Some h', ?s2))"
      unfolding mount_entry_def s1(1) prod.case option.case dec Let_def mount_meta_step [OF wf1 i1 e(1) True]
        h'_def [symmetric]
      using True kind used by simp
    show ?thesis
    proof (cases "ae_kind e = AOSFS_ENTRY_DIRECTORY")
      case dir: True
      have "ae_data_offset e = 0" "ae_data_capacity e = 0" using e(1) dir by (simp_all add: entry_ok_def)
      note M = mounted_meta_directory [OF True this]
      have "vol_step invar contents s1 ((active s)\<lparr>ai_entries := (ai_entries (active s))[i := e]\<rparr>) (volume_bytes contents s) (set_entry i e s1)"
        unfolding set_entry_as_post D(2) using vol_step_memory [OF D(1), of "(active s)\<lparr>ai_entries := (ai_entries (active s))[i := e]\<rparr>"] D(2,3) by simp
      then have "vol_step invar contents s ((active s)\<lparr>ai_entries := (ai_entries (active s))[i := e]\<rparr>) (volume_bytes contents s) (set_entry i e s1)"
        by (rule vol_step_trans [OF od s1(2)])
      moreover have "mount_entry False (active_storage_size s) i h s = (Some h', set_entry i e s1)" using me dir M by simp
      ultimately show ?thesis
        using n(4) \<open>ae_data_capacity e = 0\<close>
        by (intro exI [of _ h'] exI [of _ "set_entry i e s1"] exI [of _ "ai_next_data_offset (active s)"]) (simp add: extent_in_def)
    next
      case nodir: False
      have wf2: "fs_wf ?s2" using wf1 by (simp add: set_entry_as_post post_simps)
      have i2: "i < length (ai_entries (active ?s2))" "entry_at i ?s2 = mounted_meta e" using F i1(1) by simp_all
      have m2: "ai_next_data_offset (active ?s2) \<le> n" using F(3) D(2) n(4) by simp
      obtain m where m: "mount_extent False (active_storage_size s) i (disk_entry_of e) ?s2 = (True, post ((active ?s2)
          \<lparr>ai_entries := (ai_entries (active ?s2))[i := e], ai_next_data_offset := m\<rparr>) (fs_blk ?s2) ?s2)"
          "ai_next_data_offset (active ?s2) \<le> m" "m \<le> n" "extent_in m e"
        using mount_extent_ok [OF wf2 i2 True e n(1,2) m2] by blast
      let ?a = "(active s)\<lparr>ai_entries := (ai_entries (active s))[i := e], ai_next_data_offset := m\<rparr>"
      have st: "post ((active ?s2)\<lparr>ai_entries := (ai_entries (active ?s2))[i := e], ai_next_data_offset := m\<rparr>) (fs_blk ?s2) ?s2 = post ?a (fs_blk s1) s1"
        using wf1 D(2) by (simp add: set_entry_as_post post_simps)
      have "vol_step invar contents s1 ?a (volume_bytes contents s) (post ?a (fs_blk s1) s1)"
        using vol_step_memory [OF D(1), of ?a] D(2,3) by simp
      then have "vol_step invar contents s ?a (volume_bytes contents s) (post ?a (fs_blk s1) s1)"
        by (rule vol_step_trans [OF od s1(2)])
      moreover have "mount_entry False (active_storage_size s) i h s = (Some h', post ?a (fs_blk s1) s1)"
        using me nodir m(1) st by simp
      moreover have "ai_next_data_offset (active s) \<le> m" using m(2) F(3) D(2) by simp
      ultimately show ?thesis using m(3,4) by blast
    qed
  qed
qed

end

section \<open>Reading the table\<close>

definition partial_table :: "nat \<Rightarrow> aosfs_entry list \<Rightarrow> aosfs_entry list" where
  "partial_table i es = take i es @ replicate (AOSFS_MAX_ENTRIES - i) aosfs_entry_zero"

lemma partial_table_facts:
  assumes "length es = AOSFS_MAX_ENTRIES" "i < AOSFS_MAX_ENTRIES"
  shows "length (partial_table i es) = AOSFS_MAX_ENTRIES" "partial_table i es ! i = aosfs_entry_zero"
    "(partial_table i es)[i := es ! i] = partial_table (Suc i) es"
proof -
  show "length (partial_table i es) = AOSFS_MAX_ENTRIES" using assms by (simp add: partial_table_def)
  show "partial_table i es ! i = aosfs_entry_zero" using assms by (simp add: partial_table_def nth_append)
  have "replicate (AOSFS_MAX_ENTRIES - i) aosfs_entry_zero = aosfs_entry_zero # replicate (AOSFS_MAX_ENTRIES - Suc i) aosfs_entry_zero"
    using assms(2) by (metis Suc_diff_Suc replicate_Suc)
  then show "(partial_table i es)[i := es ! i] = partial_table (Suc i) es"
    using assms by (simp add: partial_table_def list_update_append take_Suc_conv_app_nth)
qed

lemma partial_table_whole:
  assumes "length es = AOSFS_MAX_ENTRIES" "k \<le> AOSFS_MAX_ENTRIES"
    and "\<And>j. k \<le> j \<Longrightarrow> j < AOSFS_MAX_ENTRIES \<Longrightarrow> es ! j = aosfs_entry_zero"
  shows "partial_table k es = es"
  using assms by (intro nth_equalityI) (auto simp: partial_table_def nth_append)

lemma extent_in_mono: "extent_in n e \<Longrightarrow> n \<le> m \<Longrightarrow> extent_in m e"
  by (auto simp: extent_in_def)

context byte_store
begin

lemma mount_entries_ok:
  assumes "on_device bid invar s" "i + k \<le> AOSFS_MAX_ENTRIES" "ai_entries (active s) = partial_table i es"
    and "ai_next_data_offset (active s) \<le> n" "\<forall>j < i. extent_in (ai_next_data_offset (active s)) (es ! j)"
    and "\<forall>j < i + k. subarr (AOSFS_TABLE_OFFSET + j * DISK_ENTRY_BYTES) DISK_ENTRY_BYTES (volume_bytes contents s) =
      encode_disk_entry (disk_entry_of (es ! j))"
    and es: "length es = AOSFS_MAX_ENTRIES" "\<forall>j < AOSFS_MAX_ENTRIES. entry_ok (es ! j) \<and> extent_in n (es ! j)"
    and n: "n \<le> active_storage_size s" "active_storage_size s + AOSFS_MAX_FILE_SIZE < 2 ^ 64" "AOSFS_DATA_OFFSET \<le> active_storage_size s"
  shows "\<exists>h' s' m. mount_entries False (active_storage_size s) i k h s = (Some h', s') \<and>
    vol_step invar contents s ((active s)\<lparr>ai_entries := partial_table (i + k) es, ai_next_data_offset := m\<rparr>) (volume_bytes contents s) s' \<and>
    ai_next_data_offset (active s) \<le> m \<and> m \<le> n \<and> (\<forall>j < i + k. extent_in m (es ! j))"
  using assms(1-6) n
proof (induction k arbitrary: i h s)
  case 0
  have same: "(active s)\<lparr>ai_entries := partial_table (i + 0) es, ai_next_data_offset := ai_next_data_offset (active s)\<rparr> = active s"
    using 0(3) by (simp flip: 0(3))
  have "vol_step invar contents s ((active s)\<lparr>ai_entries := partial_table (i + 0) es, ai_next_data_offset := ai_next_data_offset (active s)\<rparr>)
      (volume_bytes contents s) s"
    unfolding same by (rule vol_step_refl [OF 0(1)])
  then show ?case using 0(4,5) by (intro exI [of _ h] exI [of _ s] exI [of _ "ai_next_data_offset (active s)"]) simp
next
  case (Suc k)
  have i: "i < AOSFS_MAX_ENTRIES" using Suc.prems(2) by simp
  note P = partial_table_facts [OF es(1) i]
  have e: "entry_ok (es ! i)" "extent_in n (es ! i)" using es(2) i by auto
  have by_i: "subarr (AOSFS_TABLE_OFFSET + i * DISK_ENTRY_BYTES) DISK_ENTRY_BYTES (volume_bytes contents s) =
      encode_disk_entry (disk_entry_of (es ! i))"
    using Suc.prems(6) by simp
  obtain h1 s1 m1 where s1: "mount_entry False (active_storage_size s) i h s = (Some h1, s1)"
      "vol_step invar contents s ((active s)\<lparr>ai_entries := (ai_entries (active s))[i := es ! i], ai_next_data_offset := m1\<rparr>) (volume_bytes contents s) s1"
      "ai_next_data_offset (active s) \<le> m1" "m1 \<le> n" "extent_in m1 (es ! i)"
    using mount_entry_ok [OF Suc.prems(1) i _ _ e Suc.prems(7,8,9,4) by_i, where h = h] P(1,2) Suc.prems(3) by auto
  have upd: "(ai_entries (active s))[i := es ! i] = partial_table (Suc i) es" using P(3) Suc.prems(3) by simp
  note D = vol_stepD [OF Suc.prems(1) s1(2)]
  have act: "active s1 = (active s)\<lparr>ai_entries := partial_table (Suc i) es, ai_next_data_offset := m1\<rparr>" using D(2) upd by simp
  have lo: "\<forall>j < Suc i. extent_in (ai_next_data_offset (active s1)) (es ! j)"
    using Suc.prems(5) s1(3,5) extent_in_mono by (auto simp: act less_Suc_eq)
  obtain h2 s2 m2 where s2: "mount_entries False (active_storage_size s1) (Suc i) k h1 s1 = (Some h2, s2)"
      "vol_step invar contents s1 ((active s1)\<lparr>ai_entries := partial_table (Suc i + k) es, ai_next_data_offset := m2\<rparr>) (volume_bytes contents s1) s2"
      "ai_next_data_offset (active s1) \<le> m2" "m2 \<le> n" "\<forall>j < Suc i + k. extent_in m2 (es ! j)"
    using Suc.IH [OF D(1), of "Suc i" h1] Suc.prems(2,6,7,8,9) lo s1(4) D(3,4) act by auto
  have "vol_step invar contents s ((active s)\<lparr>ai_entries := partial_table (i + Suc k) es, ai_next_data_offset := m2\<rparr>) (volume_bytes contents s) s2"
    using vol_step_trans [OF Suc.prems(1) s1(2) s2(2)] D(3) act by simp
  moreover have "mount_entries False (active_storage_size s) i (Suc k) h s = (Some h2, s2)"
    using s1(1) s2(1) D(4) by simp
  moreover have "ai_next_data_offset (active s) \<le> m2" using s1(3) s2(3) act by simp
  ultimately show ?case using s2(4,5) by (intro exI conjI) auto
qed

end

section \<open>Mounting a volume\<close>

text \<open>An image of a volume: what a partition must hold to be mounted as the table \<open>es\<close>.\<close>

definition volume_image :: "nat \<Rightarrow> nat \<Rightarrow> aosfs_entry list \<Rightarrow> bytes \<Rightarrow> bool" where
  "volume_image S limit es V \<longleftrightarrow>
     (\<exists>n. table_ok S limit n es) \<and> meta_ok limit es V \<and> length V = S \<and> S + AOSFS_MAX_FILE_SIZE < 2 ^ 64"

lemma volume_inv_image: "volume_inv S a V \<Longrightarrow> volume_image S (ai_entry_limit a) (ai_entries a) V"
  by (auto simp: volume_inv_def volume_image_def)

lemma instance_for_role_bound: "instance_for_role role < 8"
proof (cases "role > PARTITION_ROLE_TRASH")
  case True
  then show ?thesis by (simp add: instance_for_role_def PARTITION_ROLE_ROOT_def)
next
  case False
  then have "unat role \<le> unat PARTITION_ROLE_TRASH" by (simp add: word_le_nat_alt not_less)
  then show ?thesis using False by (simp add: instance_for_role_def PARTITION_ROLE_TRASH_def)
qed

definition mount_instance :: "u32 \<Rightarrow> u64 \<Rightarrow> aosfs_instance \<Rightarrow> aosfs_instance" where
  "mount_instance bid base a = a\<lparr>ai_blkdev_id := bid, ai_base_offset := base, ai_block_backed := True, ai_mounted := True,
     ai_format_version := AOSFS_VERSION, ai_entry_limit := AOSFS_MAX_ENTRIES, ai_next_data_offset := AOSFS_DATA_OFFSET\<rparr>"

lemma mount_start_facts:
  assumes "length (g_instances s) = 8"
  shows "fs_wf (mount_start role bid base s)" "g_active (mount_start role bid base s) = instance_for_role role"
    "fs_blk (mount_start role bid base s) = fs_blk s" "fs_parts (mount_start role bid base s) = fs_parts s"
    "active (mount_start role bid base s) = mount_instance bid base (g_instances s ! instance_for_role role)"
  using assms instance_for_role_bound [of role]
  by (simp_all add: mount_start_def mount_instance_def update_active_def active_def fs_wf_def)

text \<open>Changing what an instance knows about its volume does not move the volume.\<close>

definition same_place :: "aosfs_instance \<Rightarrow> aosfs_instance \<Rightarrow> bool" where
  "same_place a a' \<longleftrightarrow> ai_role a' = ai_role a \<and> ai_blkdev_id a' = ai_blkdev_id a \<and> ai_base_offset a' = ai_base_offset a"

lemma same_place_post:
  assumes "fs_wf s" "same_place (active s) a"
  shows "active_storage_size (post a (fs_blk s) s) = active_storage_size s"
    "volume_bytes contents (post a (fs_blk s) s) = volume_bytes contents s"
    "on_device bid invar (post a (fs_blk s) s) = on_device bid invar s"
proof -
  have p: "ai_role a = ai_role (active s)" "ai_blkdev_id a = ai_blkdev_id (active s)" "ai_base_offset a = ai_base_offset (active s)"
    using assms(2) by (simp_all add: same_place_def)
  show st: "active_storage_size (post a (fs_blk s) s) = active_storage_size s"
    using assms(1) p by (simp add: active_storage_size_def post_simps Let_def split: option.split)
  show "volume_bytes contents (post a (fs_blk s) s) = volume_bytes contents s"
    "on_device bid invar (post a (fs_blk s) s) = on_device bid invar s"
    using assms(1) p st by (simp_all add: volume_bytes_def on_device_def post_simps)
qed

lemma superblock_not_legacy: "superblock_valid b \<Longrightarrow> \<not> legacy_superblock_valid b"
  by (simp add: superblock_valid_def legacy_superblock_valid_def AOSFS_VERSION_def AOSFS_LEGACY_VERSION_def)

context byte_store
begin

lemma mount_table_ok:
  assumes od: "on_device bid invar s" and img: "volume_image (active_storage_size s) limit es (volume_bytes contents s)"
    and a: "ai_mounted (active s)" "ai_block_backed (active s)" "ai_format_version (active s) = AOSFS_VERSION"
      "ai_next_data_offset (active s) = AOSFS_DATA_OFFSET"
  shows "\<exists>b h m. mount_table False limit (active_storage_size s) s = (True, post ((active s)\<lparr>ai_entries := es,
      ai_entry_limit := limit, ai_next_data_offset := m, ai_next_inode := h\<rparr>) b s) \<and>
    blk_after invar contents s (volume_bytes contents s) b \<and>
    volume_inv (active_storage_size s) ((active s)\<lparr>ai_entries := es, ai_entry_limit := limit, ai_next_data_offset := m,
      ai_next_inode := h\<rparr>) (volume_bytes contents s)"
proof -
  have wf: "fs_wf s" using od by (simp add: on_device_def)
  obtain n where n: "table_ok (active_storage_size s) limit n es" "meta_ok limit es (volume_bytes contents s)"
      "active_storage_size s + AOSFS_MAX_FILE_SIZE < 2 ^ 64" "length (volume_bytes contents s) = active_storage_size s"
    using img by (auto simp: volume_image_def)
  have lim: "limit \<le> AOSFS_MAX_ENTRIES" by (rule meta_limit [OF n(2)])
  have T: "length es = AOSFS_MAX_ENTRIES" "n \<le> active_storage_size s" "AOSFS_DATA_OFFSET \<le> n"
    "\<forall>j < AOSFS_MAX_ENTRIES. entry_ok (es ! j) \<and> extent_in n (es ! j)"
    "\<forall>j < AOSFS_MAX_ENTRIES. limit \<le> j \<longrightarrow> \<not> ae_in_use (es ! j)"
    using n(1) by (auto simp: table_ok_def)
  define a2 where "a2 = (active s)\<lparr>ai_entries := replicate AOSFS_MAX_ENTRIES aosfs_entry_zero, ai_entry_limit := limit\<rparr>"
  define s2 where "s2 = post a2 (fs_blk s) s"
  have s2: "update_active (\<lambda>a. a\<lparr>ai_entry_limit := limit\<rparr>) (clear_entries s) = s2"
    using wf by (simp add: clear_entries_def update_active_as_post post_simps s2_def a2_def)
  have pl: "same_place (active s) a2" by (simp add: same_place_def a2_def)
  note P = same_place_post [OF wf pl, folded s2_def]
  have act2: "active s2 = a2" using wf by (simp add: s2_def post_simps)
  have od2: "on_device bid invar s2" using P(3) od by simp
  have tab2: "ai_entries (active s2) = partial_table 0 es" by (simp add: act2 a2_def partial_table_def)
  have next2: "ai_next_data_offset (active s2) \<le> n" using a(4) T(3) by (simp add: act2 a2_def)
  have bytes2: "\<forall>j < 0 + limit. subarr (AOSFS_TABLE_OFFSET + j * DISK_ENTRY_BYTES) DISK_ENTRY_BYTES (volume_bytes contents s2) =
      encode_disk_entry (disk_entry_of (es ! j))"
    using n(2) P(2) by (simp add: meta_ok_def)
  obtain h s3 m where s3: "mount_entries False (active_storage_size s2) 0 limit (AOSFS_DYNAMIC_INO_BASE - 1) s2 = (Some h, s3)"
      "vol_step invar contents s2 ((active s2)\<lparr>ai_entries := partial_table (0 + limit) es, ai_next_data_offset := m\<rparr>) (volume_bytes contents s2) s3"
      "ai_next_data_offset (active s2) \<le> m" "m \<le> n" "\<forall>j < 0 + limit. extent_in m (es ! j)"
    using mount_entries_ok [OF od2 _ tab2 next2 _ bytes2 T(1,4) _ _ _, where h = "AOSFS_DYNAMIC_INO_BASE - 1"] lim T(2,3) n(3) P(1) by auto
  have whole: "partial_table (0 + limit) es = es"
    using T lim partial_table_whole [of es limit] by (auto simp: entry_ok_def)
  obtain b where b: "s3 = post (a2\<lparr>ai_entries := es, ai_next_data_offset := m\<rparr>) b s2" "blk_after invar contents s2 (volume_bytes contents s2) b"
    using s3(2) whole act2 by (auto simp: vol_step_def)
  let ?a = "(active s)\<lparr>ai_entries := es, ai_entry_limit := limit, ai_next_data_offset := m, ai_next_inode := h + 1\<rparr>"
  have a3: "a2\<lparr>ai_entries := es, ai_next_data_offset := m, ai_next_inode := h + 1\<rparr> = ?a" by (simp add: a2_def)
  have "update_active (\<lambda>a. a\<lparr>ai_next_inode := h + 1\<rparr>) s3 = post ?a b s"
    using wf by (simp add: b(1) s2_def update_active_as_post post_simps a3)
  then have "mount_table False limit (active_storage_size s) s = (True, post ?a b s)"
    using s3(1) P(1) by (simp add: mount_table_def s2)
  moreover have "blk_after invar contents s (volume_bytes contents s) b"
    using b(2) P act2 by (simp add: blk_after_def s2_def post_simps a2_def)
  moreover have "table_ok (active_storage_size s) limit m es"
  proof -
    have "extent_in m (es ! j)" if "j < AOSFS_MAX_ENTRIES" for j
      using that s3(5) T(4,5) by (cases "j < limit") (auto simp: entry_ok_def)
    moreover have "AOSFS_DATA_OFFSET \<le> m" using s3(3) act2 a(4) by (simp add: a2_def)
    ultimately show ?thesis using n(1) T s3(4) by (simp add: table_ok_def)
  qed
  then have "volume_inv (active_storage_size s) ?a (volume_bytes contents s)"
    using n(2-4) a by (simp add: volume_inv_def)
  ultimately show ?thesis by blast
qed

end

section \<open>Writing an empty volume\<close>

lemma empty_table_ok:
  "AOSFS_DATA_OFFSET \<le> S \<Longrightarrow> table_ok S AOSFS_MAX_ENTRIES AOSFS_DATA_OFFSET (replicate AOSFS_MAX_ENTRIES aosfs_entry_zero)"
  by (simp add: table_ok_def slots_distinct_def) (simp add: aosfs_entry_zero_def)

lemma empty_tree:
  "ai_entries a = replicate AOSFS_MAX_ENTRIES aosfs_entry_zero \<Longrightarrow> volume_tree a V = Map.empty"
proof
  fix p
  assume a: "ai_entries a = replicate AOSFS_MAX_ENTRIES aosfs_entry_zero"
  have "\<not> ae_in_use (replicate AOSFS_MAX_ENTRIES aosfs_entry_zero ! i)" if "i < AOSFS_MAX_ENTRIES" for i
    using that by (simp add: aosfs_entry_zero_def)
  then have "slot_of ae_in_use ae_path (replicate AOSFS_MAX_ENTRIES aosfs_entry_zero) p = None"
    by (cases "slot_of ae_in_use ae_path (replicate AOSFS_MAX_ENTRIES aosfs_entry_zero) p") (auto dest: slot_of_SomeD)
  then show "volume_tree a V p = None" by (simp add: volume_tree_def a slot_map_def)
qed

context byte_store
begin

lemma sync_entries_step:
  assumes "on_device bid invar s" "ai_block_backed (active s)" "ai_entry_limit (active s) = AOSFS_MAX_ENTRIES"
    and "AOSFS_DATA_OFFSET \<le> active_storage_size s" "i + k \<le> AOSFS_MAX_ENTRIES"
  shows "\<exists>s' V. sync_entries i k s = (True, s') \<and> vol_step invar contents s (active s) V s' \<and>
    (\<forall>off len. off + len \<le> AOSFS_TABLE_OFFSET + i * DISK_ENTRY_BYTES \<longrightarrow> subarr off len V = subarr off len (volume_bytes contents s)) \<and>
    (\<forall>j. i \<le> j \<and> j < i + k \<longrightarrow> subarr (AOSFS_TABLE_OFFSET + j * DISK_ENTRY_BYTES) DISK_ENTRY_BYTES V =
      encode_disk_entry (disk_entry_of (ai_entries (active s) ! j)))"
  using assms
proof (induction k arbitrary: i s)
  case 0
  then show ?case using vol_step_refl [OF 0(1)] by (intro exI [of _ s] exI [of _ "volume_bytes contents s"]) auto
next
  case (Suc k)
  let ?o = "\<lambda>i. AOSFS_TABLE_OFFSET + i * DISK_ENTRY_BYTES"
  let ?E = "encode_disk_entry (disk_entry_of (entry_at i s))"
  let ?V = "volume_bytes contents s"
  have i: "i < AOSFS_MAX_ENTRIES" using Suc.prems(5) by simp
  obtain s1 where s1: "sync_entry i s = (True, s1)" "vol_step invar contents s (active s) (overwrite (?o i) ?E ?V) s1"
    using sync_entry_step [OF Suc.prems(1,2) _ _ Suc.prems(4), of i] i Suc.prems(3) by auto
  note D = vol_stepD [OF Suc.prems(1) s1(2)]
  obtain s2 V where s2: "sync_entries (Suc i) k s1 = (True, s2)" "vol_step invar contents s1 (active s1) V s2"
      "\<forall>off len. off + len \<le> ?o (Suc i) \<longrightarrow> subarr off len V = subarr off len (volume_bytes contents s1)"
      "\<forall>j. Suc i \<le> j \<and> j < Suc i + k \<longrightarrow> subarr (?o j) DISK_ENTRY_BYTES V = encode_disk_entry (disk_entry_of (ai_entries (active s1) ! j))"
    using Suc.IH [OF D(1), of "Suc i"] Suc.prems D(2,4) by auto
  have fit: "?o i + length ?E \<le> length ?V"
    using table_slot_bound [OF order_refl i] Suc.prems(4) storage_fits(3) [OF Suc.prems(1)] by simp
  have lower: "subarr off len V = subarr off len ?V" if "off + len \<le> ?o i" for off len
    using s2(3) that D(3) fit subarr_overwrite_disjoint [OF fit, of off len] by simp
  have at_i: "subarr (?o i) DISK_ENTRY_BYTES V = ?E"
    using s2(3) D(3) subarr_overwrite_same [OF fit] by simp
  have "subarr (?o j) DISK_ENTRY_BYTES V = encode_disk_entry (disk_entry_of (ai_entries (active s) ! j))"
    if "i \<le> j" "j < i + Suc k" for j
    using that at_i s2(4) D(2) by (cases "j = i") (auto simp: entry_at_def)
  moreover have "vol_step invar contents s (active s) V s2"
    using vol_step_trans [OF Suc.prems(1) s1(2)] s2(2) D(2) by simp
  moreover have "sync_entries i (Suc k) s = (True, s2)" using s1(1) s2(1) by simp
  ultimately show ?case using lower by (intro exI [of _ s2] exI [of _ V]) auto
qed

lemma write_empty_volume:
  assumes od: "on_device bid invar s" and a: "ai_mounted (active s)" "ai_block_backed (active s)"
      "ai_format_version (active s) = AOSFS_VERSION" "ai_entry_limit (active s) = AOSFS_MAX_ENTRIES"
      "ai_next_data_offset (active s) = AOSFS_DATA_OFFSET" "ai_entries (active s) = replicate AOSFS_MAX_ENTRIES aosfs_entry_zero"
    and S: "AOSFS_DATA_OFFSET \<le> active_storage_size s" "active_storage_size s + AOSFS_MAX_FILE_SIZE < 2 ^ 64"
  shows "\<exists>s1 s' V. sync_superblock s = (True, s1) \<and> sync_entries 0 AOSFS_MAX_ENTRIES s1 = (True, s') \<and>
    vol_step invar contents s (active s) V s' \<and> volume_inv (active_storage_size s) (active s) V"
proof -
  let ?V = "volume_bytes contents s" and ?E = "encode_super fill_superblock"
  have fit: "AOSFS_SUPER_OFFSET + length ?E \<le> length ?V"
    using S(1) storage_fits(3) [OF od] by (simp add: aosfs_layout_defs)
  obtain s1 where s1: "sync_superblock s = (True, s1)" "vol_step invar contents s (active s) (overwrite AOSFS_SUPER_OFFSET ?E ?V) s1"
    using vol_step_write [OF od, of AOSFS_SUPER_OFFSET ?E] fit storage_fits(3) [OF od] a(2) by (auto simp: sync_superblock_def)
  note D = vol_stepD [OF od s1(2)]
  obtain s2 V where s2: "sync_entries 0 AOSFS_MAX_ENTRIES s1 = (True, s2)" "vol_step invar contents s1 (active s1) V s2"
      "\<forall>off len. off + len \<le> AOSFS_TABLE_OFFSET + 0 * DISK_ENTRY_BYTES \<longrightarrow> subarr off len V = subarr off len (volume_bytes contents s1)"
      "\<forall>j. 0 \<le> j \<and> j < 0 + AOSFS_MAX_ENTRIES \<longrightarrow> subarr (AOSFS_TABLE_OFFSET + j * DISK_ENTRY_BYTES) DISK_ENTRY_BYTES V =
        encode_disk_entry (disk_entry_of (ai_entries (active s1) ! j))"
    using sync_entries_step [OF D(1), of 0 AOSFS_MAX_ENTRIES] a S(1) D(2,4) by auto
  have "subarr 0 SUPER_BYTES V = subarr 0 SUPER_BYTES (overwrite AOSFS_SUPER_OFFSET ?E ?V)"
    using s2(3) D(3) by (simp add: aosfs_layout_defs)
  also have "\<dots> = ?E" using subarr_overwrite_same [OF fit] by (simp add: AOSFS_SUPER_OFFSET_def)
  finally have "meta_ok AOSFS_MAX_ENTRIES (ai_entries (active s)) V"
    using s2(4) D(2) fill_superblock_valid by (simp add: meta_ok_def decode_fill_superblock) (simp add: fill_superblock_def)
  moreover have "vol_step invar contents s (active s) V s2"
    using vol_step_trans [OF od s1(2)] s2(2) D(2) by simp
  moreover have "length V = active_storage_size s"
    using s2(2) D(4) by (auto simp: vol_step_def blk_after_def)
  ultimately show ?thesis
    using s1(1) s2(1) a S empty_table_ok [OF S(1)] by (intro exI [of _ s1] exI [of _ s2] exI [of _ V]) (simp add: volume_inv_def)
qed

end

section \<open>Mounting and formatting\<close>

lemma format_start_facts:
  assumes "length (g_instances s) = 8"
  shows "fs_wf (format_start role bid base s)" "g_active (format_start role bid base s) = instance_for_role role"
    "fs_blk (format_start role bid base s) = fs_blk s" "fs_parts (format_start role bid base s) = fs_parts s"
    "active (format_start role bid base s) = aosfs_instance_zero\<lparr>ai_mounted := True, ai_role := role, ai_block_backed := True,
       ai_blkdev_id := bid, ai_base_offset := base, ai_next_inode := AOSFS_DYNAMIC_INO_BASE,
       ai_next_data_offset := AOSFS_DATA_OFFSET, ai_format_version := AOSFS_VERSION, ai_entry_limit := AOSFS_MAX_ENTRIES\<rparr>"
  using assms instance_for_role_bound [of role]
  by (simp_all add: format_start_def update_active_def active_def fs_wf_def)

context byte_store
begin

lemma device_present: "invar b \<Longrightarrow> blkdev_get bid b \<noteq> None"
  using size_law by blast

lemma mount_start_on_device:
  assumes "length (g_instances s) = 8" "invar (fs_blk s)" "AOSFS_DATA_OFFSET \<le> active_storage_size (mount_start role bid base s)"
  shows "on_device bid invar (mount_start role bid base s)"
  using assms mount_start_facts [OF assms(1), of role bid base]
  by (simp add: on_device_def mount_instance_def aosfs_layout_defs)

lemma mount_reads_superblock:
  assumes len: "length (g_instances s) = 8" and inv: "invar (fs_blk s)" and u: "u = mount_start role bid base s"
    and S: "AOSFS_DATA_OFFSET \<le> active_storage_size u"
  shows "\<exists>s1. vol_step invar contents u (active u) (volume_bytes contents u) s1 \<and>
    aosfs_mount_role role bid base s =
      (let super = decode_super (subarr 0 SUPER_BYTES (volume_bytes contents u)); legacy = legacy_superblock_valid super
       in if \<not> superblock_valid super \<and> \<not> legacy then mount_blank s1
          else mount_table legacy (sb_max_entries super) (active_storage_size u) s1)"
proof -
  have od: "on_device bid invar u" using mount_start_on_device [OF len inv] u S by simp
  have fit: "AOSFS_SUPER_OFFSET + SUPER_BYTES \<le> active_storage_size u" using S by (simp add: aosfs_layout_defs)
  obtain s1 where s1: "volume_read AOSFS_SUPER_OFFSET SUPER_BYTES u = (Some (subarr 0 SUPER_BYTES (volume_bytes contents u)), s1)"
      "vol_step invar contents u (active u) (volume_bytes contents u) s1"
    using vol_step_read [OF od fit] by (auto simp: AOSFS_SUPER_OFFSET_def)
  have "aosfs_mount_role role bid base s =
      (let super = decode_super (subarr 0 SUPER_BYTES (volume_bytes contents u)); legacy = legacy_superblock_valid super
       in if \<not> superblock_valid super \<and> \<not> legacy then mount_blank s1
          else mount_table legacy (sb_max_entries super) (active_storage_size u) s1)"
    unfolding aosfs_mount_role_def Let_def u [symmetric] s1(1)
    using device_present [OF inv] S by auto
  with s1(2) show ?thesis by blast
qed

lemma mount_image:
  assumes len: "length (g_instances s) = 8" and inv: "invar (fs_blk s)" and u: "u = mount_start role bid base s"
    and img: "volume_image (active_storage_size u) limit es (volume_bytes contents u)"
  shows "\<exists>b h m. aosfs_mount_role role bid base s = (True, post ((active u)\<lparr>ai_entries := es,
      ai_entry_limit := limit, ai_next_data_offset := m, ai_next_inode := h\<rparr>) b u) \<and>
    blk_after invar contents u (volume_bytes contents u) b \<and>
    volume_inv (active_storage_size u) ((active u)\<lparr>ai_entries := es, ai_entry_limit := limit, ai_next_data_offset := m,
      ai_next_inode := h\<rparr>) (volume_bytes contents u)"
proof -
  obtain n where "table_ok (active_storage_size u) limit n es" and meta: "meta_ok limit es (volume_bytes contents u)"
    using img by (auto simp: volume_image_def)
  then have S: "AOSFS_DATA_OFFSET \<le> active_storage_size u" by (simp add: table_ok_def)
  have od: "on_device bid invar u" using mount_start_on_device [OF len inv] u S by simp
  obtain s1 where s1: "vol_step invar contents u (active u) (volume_bytes contents u) s1"
      "aosfs_mount_role role bid base s = mount_table False limit (active_storage_size u) s1"
    using mount_reads_superblock [OF len inv u S] meta superblock_not_legacy by (auto simp: meta_ok_def Let_def)
  note D = vol_stepD [OF od s1(1)]
  note a = mount_start_facts(5) [OF len, of role bid base, folded u]
  obtain b h m where b: "mount_table False limit (active_storage_size s1) s1 = (True, post ((active s1)\<lparr>ai_entries := es,
      ai_entry_limit := limit, ai_next_data_offset := m, ai_next_inode := h\<rparr>) b s1)"
    "blk_after invar contents s1 (volume_bytes contents s1) b"
    "volume_inv (active_storage_size s1) ((active s1)\<lparr>ai_entries := es, ai_entry_limit := limit, ai_next_data_offset := m,
      ai_next_inode := h\<rparr>) (volume_bytes contents s1)"
    using mount_table_ok [OF D(1), of limit es] img D(2-4) a by (auto simp: mount_instance_def)
  obtain b1 where b1: "s1 = post (active u) b1 u" "blk_after invar contents u (volume_bytes contents u) b1"
    using s1(1) by (auto simp: vol_step_def)
  have "blk_after invar contents u (volume_bytes contents u) b"
    using blk_after_trans [OF od b1(2) same_volume_refl] b(2) b1(1) D(3) by simp
  then show ?thesis
    using b s1(2) D(2-4) b1(1) by (intro exI [of _ b] exI [of _ h] exI [of _ m]) (auto simp: post_simps)
qed

lemma mount_blank_ok:
  assumes len: "length (g_instances s) = 8" and inv: "invar (fs_blk s)" and u: "u = mount_start role bid base s"
    and S: "AOSFS_DATA_OFFSET \<le> active_storage_size u" "active_storage_size u + AOSFS_MAX_FILE_SIZE < 2 ^ 64"
    and blank: "\<not> superblock_valid (decode_super (subarr 0 SUPER_BYTES (volume_bytes contents u)))"
      "\<not> legacy_superblock_valid (decode_super (subarr 0 SUPER_BYTES (volume_bytes contents u)))"
  shows "\<exists>s'. aosfs_mount_role role bid base s = (True, s') \<and> vol_update bid invar contents u Map.empty s'"
proof -
  have od: "on_device bid invar u" using mount_start_on_device [OF len inv] u S by simp
  obtain s1 where s1: "vol_step invar contents u (active u) (volume_bytes contents u) s1" "aosfs_mount_role role bid base s = mount_blank s1"
    using mount_reads_superblock [OF len inv u S(1)] blank by (auto simp: Let_def)
  note a = mount_start_facts(5) [OF len, of role bid base, folded u]
  note D = vol_stepD [OF od s1(1)]
  let ?a = "(active s1)\<lparr>ai_entries := replicate AOSFS_MAX_ENTRIES aosfs_entry_zero\<rparr>"
  have c: "clear_entries s1 = post ?a (fs_blk s1) s1" by (simp add: clear_entries_def update_active_as_post)
  have step: "vol_step invar contents s1 ?a (volume_bytes contents s1) (clear_entries s1)"
    unfolding c by (rule vol_step_memory [OF D(1)]) simp
  note E = vol_stepD [OF D(1) step]
  obtain s2 s3 V where s3: "sync_superblock (clear_entries s1) = (True, s2)" "sync_entries 0 AOSFS_MAX_ENTRIES s2 = (True, s3)"
      "vol_step invar contents (clear_entries s1) ?a V s3" "volume_inv (active_storage_size (clear_entries s1)) ?a V"
    using write_empty_volume [OF E(1)] E(2,4) D(2,4) a S by (auto simp: mount_instance_def)
  note F = vol_stepD [OF E(1) s3(3)]
  let ?a' = "?a\<lparr>ai_next_inode := AOSFS_DYNAMIC_INO_BASE\<rparr>"
  have "vol_step invar contents s3 ?a' V (update_active (\<lambda>a. a\<lparr>ai_next_inode := AOSFS_DYNAMIC_INO_BASE\<rparr>) s3)"
    unfolding update_active_as_post F(2) using vol_step_memory [OF F(1), of ?a'] F(2,3) by simp
  then have "vol_step invar contents u ?a' V (update_active (\<lambda>a. a\<lparr>ai_next_inode := AOSFS_DYNAMIC_INO_BASE\<rparr>) s3)"
    by (rule vol_step_trans [OF od s1(1) vol_step_trans [OF D(1) step vol_step_trans [OF E(1) s3(3)]]])
  moreover have "volume_inv (active_storage_size u) ?a' V" using s3(4) E(4) D(4) by simp
  ultimately have "vol_update bid invar contents u Map.empty (update_active (\<lambda>a. a\<lparr>ai_next_inode := AOSFS_DYNAMIC_INO_BASE\<rparr>) s3)"
    by (rule vol_updateI [OF od]) (rule empty_tree, simp)
  then show ?thesis using s1(2) s3(1,2) by (simp add: mount_blank_def)
qed

lemma format_ok:
  assumes len: "length (g_instances s) = 8" and inv: "invar (fs_blk s)" and u: "u = format_start role bid base s"
    and S: "AOSFS_DATA_OFFSET \<le> active_storage_size u" "active_storage_size u + AOSFS_MAX_FILE_SIZE < 2 ^ 64"
  shows "\<exists>s'. aosfs_format_role role bid base s = (True, s') \<and> vol_update bid invar contents u Map.empty s' \<and> active s' = active u"
proof -
  note a = format_start_facts [OF len, of role bid base, folded u]
  have od: "on_device bid invar u" using a inv S(1) by (simp add: on_device_def aosfs_layout_defs)
  obtain s1 s2 V where s2: "sync_superblock u = (True, s1)" "sync_entries 0 AOSFS_MAX_ENTRIES s1 = (True, s2)"
      "vol_step invar contents u (active u) V s2" "volume_inv (active_storage_size u) (active u) V"
    using write_empty_volume [OF od] a(5) S by (auto simp: aosfs_instance_zero_def)
  have "vol_update bid invar contents u Map.empty s2"
    using vol_updateI [OF od s2(3,4)] a(5) by (simp add: empty_tree aosfs_instance_zero_def)
  moreover have "aosfs_format_role role bid base s = (True, s2)"
    unfolding aosfs_format_role_def Let_def u [symmetric] using device_present [OF inv] S(1) s2(1,2) by auto
  moreover have "active s2 = active u" by (rule vol_stepD(2) [OF od s2(3)])
  ultimately show ?thesis by blast
qed

end

end
