(* ===== verification/Aosfs_System.thy ===== *)
theory Aosfs_System
  imports Aosfs_Mount
begin

text \<open>
  The AOSFS driver as a whole: eight instances on one block device, each with its own partition. The
  invariant \<open>fs_ok\<close> says that every mounted instance is a volume in good order and that the
  partitions do not overlap. The calls of the driver are specified by \<open>tree_step\<close>, a relation on
  maps from paths to files; every call of \<open>kernel/aosfs.c\<close> refines its specification on the volume
  that its path selects and leaves the other volumes alone.
\<close>

section \<open>All volumes\<close>

definition at_instance :: "nat \<Rightarrow> 'd aosfs_state \<Rightarrow> 'd aosfs_state" where
  "at_instance k s = s\<lparr>g_active := k\<rparr>"

definition mounted_at :: "'d aosfs_state \<Rightarrow> nat \<Rightarrow> bool" where
  "mounted_at s k \<longleftrightarrow> k < 8 \<and> ai_mounted (g_instances s ! k)"

definition volume_start :: "'d aosfs_state \<Rightarrow> nat \<Rightarrow> nat" where
  "volume_start s k = unat (ai_base_offset (g_instances s ! k))"

definition volume_end :: "'d aosfs_state \<Rightarrow> nat \<Rightarrow> nat" where
  "volume_end s k = volume_start s k + active_storage_size (at_instance k s)"

definition volumes_apart :: "'d aosfs_state \<Rightarrow> nat \<Rightarrow> nat \<Rightarrow> bool" where
  "volumes_apart s j k \<longleftrightarrow> volume_end s j \<le> volume_start s k \<or> volume_end s k \<le> volume_start s j"

definition fs_ok ::
  "u32 \<Rightarrow> ('d blk_state \<Rightarrow> bool) \<Rightarrow> ('d blk_state \<Rightarrow> bytes) \<Rightarrow> 'd aosfs_state \<Rightarrow> bool" where
  "fs_ok bid invar contents s \<longleftrightarrow> length (g_instances s) = 8 \<and> mounted_at s (unat PARTITION_ROLE_ROOT) \<and>
     (\<forall>k. mounted_at s k \<longrightarrow> ai_role (g_instances s ! k) = of_nat k \<and> volume_ok bid invar contents (at_instance k s)) \<and>
     (\<forall>j k. mounted_at s j \<longrightarrow> mounted_at s k \<longrightarrow> j \<noteq> k \<longrightarrow> volumes_apart s j k)"

text \<open>The files of every mounted volume.\<close>

definition trees :: "('d blk_state \<Rightarrow> bytes) \<Rightarrow> 'd aosfs_state \<Rightarrow> nat \<Rightarrow> string \<Rightarrow> file_view option" where
  "trees contents s k = (if mounted_at s k then tree_of contents (at_instance k s) else Map.empty)"

lemma at_instance_simps [simp]:
  "active (at_instance k s) = g_instances s ! k" "g_instances (at_instance k s) = g_instances s"
  "fs_blk (at_instance k s) = fs_blk s" "fs_parts (at_instance k s) = fs_parts s" "g_active (at_instance k s) = k"
  "at_instance j (at_instance k s) = at_instance j s" "mounted_at (at_instance k s) = mounted_at s"
  by (simp_all add: at_instance_def active_def mounted_at_def fun_eq_iff)

lemma at_instance_self: "at_instance (g_active s) s = s"
  by (simp add: at_instance_def)

lemma fs_ok_at_instance [simp]: "fs_ok bid invar contents (at_instance k s) = fs_ok bid invar contents s"
  by (simp add: fs_ok_def volumes_apart_def volume_start_def volume_end_def)

lemma trees_at_instance [simp]: "trees contents (at_instance k s) = trees contents s"
  by (simp add: trees_def fun_eq_iff)

lemma unat_root: "unat PARTITION_ROLE_ROOT < 8" "instance_for_role PARTITION_ROLE_ROOT = unat PARTITION_ROLE_ROOT"
  by (simp_all add: PARTITION_ROLE_ROOT_def instance_for_role_def PARTITION_ROLE_TRASH_def)

lemma select_mounted:
  assumes "fs_ok bid invar contents s0" "select_instance_for_path path s0 = (q, s)"
  shows "s = at_instance (g_active s) s0" "mounted_at s0 (g_active s)" "volume_ok bid invar contents s"
proof -
  show *: "s = at_instance (g_active s) s0"
    using assms(2) by (auto simp: select_instance_for_path_def Let_def at_instance_def split: prod.splits)
  show "mounted_at s0 (g_active s)"
    using assms unat_root instance_for_role_bound
    by (auto simp: select_instance_for_path_def Let_def fs_ok_def mounted_at_def split: prod.splits if_splits)
  then have "volume_ok bid invar contents (at_instance (g_active s) s0)" using assms(1) by (simp add: fs_ok_def)
  then show "volume_ok bid invar contents s" by (simp add: * [symmetric])
qed

lemma skip_slashes_suffix: "\<exists>p. path = p @ skip_slashes path"
  by (metis skip_slashes_def takeWhile_dropWhile_id)

lemma dropWhile_suffix: "\<exists>p. path = p @ dropWhile P path"
  by (metis takeWhile_dropWhile_id)

lemma select_suffix:
  assumes "select_instance_for_path path s0 = (q, s)"
  shows "\<exists>p. path = p @ q"
proof -
  obtain role where r: "selected_role (skip_slashes path) s0 = (role, q)"
    using assms by (auto simp: select_instance_for_path_def Let_def split: prod.splits)
  let ?p = "skip_slashes path"
  have tail: "\<exists>p. x = p @ skip_slashes (dropWhile P x)" for P x
    using skip_slashes_suffix [of "dropWhile P x"] dropWhile_suffix [of x P] by (metis append.assoc)
  have "q = ?p \<or> (\<exists>P. q = skip_slashes (dropWhile P ?p)) \<or> (?p \<noteq> [] \<and> (\<exists>P. q = skip_slashes (dropWhile P (tl ?p))))"
    using r unfolding selected_role_def Let_def by (simp split: if_splits) blast+
  moreover have "\<exists>p. x = p @ skip_slashes (dropWhile P (tl x))" if "x \<noteq> []" for P x
    using tail [of "tl x" P] that by (metis append_Cons list.collapse)
  moreover have "\<exists>p. ?p = p @ ?p" by (rule exI [of _ "[]"]) simp
  ultimately have "\<exists>p. ?p = p @ q" using tail by blast
  then show ?thesis using skip_slashes_suffix [of path] by (metis append.assoc)
qed

lemma select_no_nul: "select_instance_for_path path s0 = (q, s) \<Longrightarrow> CHR 0x00 \<notin> set path \<Longrightarrow> CHR 0x00 \<notin> set q"
  using select_suffix by fastforce

section \<open>Operations on one volume leave the others alone\<close>

lemma storage_size_same:
  assumes "ai_role (active s') = ai_role (active s)" "ai_blkdev_id (active s') = ai_blkdev_id (active s)"
    "ai_base_offset (active s') = ai_base_offset (active s)"
    "g_blkdevs (fs_blk s') = g_blkdevs (fs_blk s)" "fs_parts s' = fs_parts s"
  shows "active_storage_size s' = active_storage_size s"
  unfolding active_storage_size_def Let_def using assms blkdev_get_same [OF assms(4)] by (simp split: option.split)

lemma same_volume_place:
  "same_volume a a' \<Longrightarrow> ai_role a' = ai_role a \<and> ai_blkdev_id a' = ai_blkdev_id a \<and> ai_base_offset a' = ai_base_offset a \<and>
    ai_mounted a' = ai_mounted a"
  by (simp add: same_volume_def)

lemma volumes_apart_sym: "volumes_apart s j k = volumes_apart s k j"
  by (auto simp: volumes_apart_def)

text \<open>Every mounted volume other than \<open>i\<close> is in good order and apart from the others.\<close>

definition others_ok ::
  "u32 \<Rightarrow> ('d blk_state \<Rightarrow> bool) \<Rightarrow> ('d blk_state \<Rightarrow> bytes) \<Rightarrow> nat \<Rightarrow> 'd aosfs_state \<Rightarrow> bool" where
  "others_ok bid invar contents i s \<longleftrightarrow>
     (\<forall>k. mounted_at s k \<longrightarrow> k \<noteq> i \<longrightarrow> ai_role (g_instances s ! k) = of_nat k \<and>
        volume_ok bid invar contents (at_instance k s) \<and> volumes_apart s k i) \<and>
     (\<forall>j k. mounted_at s j \<longrightarrow> mounted_at s k \<longrightarrow> j \<noteq> k \<longrightarrow> j \<noteq> i \<longrightarrow> k \<noteq> i \<longrightarrow> volumes_apart s j k)"

context byte_store
begin

lemma other_volume_kept:
  assumes od: "on_device bid invar s" and b: "s' = post a b s" "blk_after invar contents s V b"
    and j: "j < 8" "j \<noteq> g_active s" and vok: "volume_ok bid invar contents (at_instance j s)"
    and apart: "volumes_apart s j (g_active s)"
  shows "volume_ok bid invar contents (at_instance j s')" "tree_of contents (at_instance j s') = tree_of contents (at_instance j s)"
    "volume_end s' j = volume_end s j" "g_instances s' ! j = g_instances s ! j"
proof -
  have B: "invar b" "g_blkdevs b = g_blkdevs (fs_blk s)" "length V = active_storage_size s"
    "contents b = overwrite (volume_start s (g_active s)) V (contents (fs_blk s))"
    using b(2) by (simp_all add: blk_after_def volume_start_def active_def)
  have len: "length (g_instances s) = 8" using od by (simp add: on_device_def fs_wf_def)
  show inst: "g_instances s' ! j = g_instances s ! j" using j len by (simp add: b(1) post_def)
  have st: "active_storage_size (at_instance j s') = active_storage_size (at_instance j s)"
    using inst B(2) by (intro storage_size_same) (simp_all add: b(1) post_fields)
  show e: "volume_end s' j = volume_end s j" using inst st by (simp add: volume_end_def volume_start_def)
  have odj: "on_device bid invar (at_instance j s)" using vok by (simp add: volume_ok_def)
  have od': "on_device bid invar (at_instance j s')"
    using odj st inst len B(1) by (simp add: on_device_def fs_wf_def b(1) post_fields)
  have fit: "volume_start s j + active_storage_size (at_instance j s) \<le> length (contents (fs_blk s))"
    "volume_start s (g_active s) + length V \<le> length (contents (fs_blk s))"
    using storage_fits(1) [OF odj] storage_fits(1) [OF od] B(3) by (simp_all add: volume_start_def active_def)
  have "volume_end s (g_active s) = volume_start s (g_active s) + length V"
    using B(3) by (simp add: volume_end_def at_instance_self)
  then have "subarr (volume_start s j) (active_storage_size (at_instance j s)) (contents b) =
      subarr (volume_start s j) (active_storage_size (at_instance j s)) (contents (fs_blk s))"
    unfolding B(4) using fit apart
    by (intro subarr_overwrite_disjoint) (auto simp: volumes_apart_def volume_end_def)
  then have bytes: "volume_bytes contents (at_instance j s') = volume_bytes contents (at_instance j s)"
    using st inst by (simp add: volume_bytes_def volume_start_def b(1) post_fields)
  show "volume_ok bid invar contents (at_instance j s')" using od' vok bytes st inst by (simp add: volume_ok_def)
  show "tree_of contents (at_instance j s') = tree_of contents (at_instance j s)" using bytes inst by (simp add: tree_of_def)
qed

text \<open>Putting a volume in good order in the place of one instance gives a good state, when the other
  mounted volumes are in good order and apart from it.\<close>

lemma install_volume:
  assumes od: "on_device bid invar u" and b: "s' = post a b u" "blk_after invar contents u V b"
    and a: "same_place (active u) a" "ai_role a = of_nat (g_active u)" "ai_mounted a"
    and vok: "volume_ok bid invar contents s'"
    and others: "others_ok bid invar contents (g_active u) u"
    and root: "g_active u = unat PARTITION_ROLE_ROOT \<or> mounted_at u (unat PARTITION_ROLE_ROOT)"
  shows "fs_ok bid invar contents s'" "trees contents s' = (trees contents u)(g_active u := tree_of contents s')"
    "mounted_at s' k \<longleftrightarrow> k = g_active u \<or> mounted_at u k"
proof -
  let ?i = "g_active u"
  have len: "length (g_instances u) = 8" "?i < 8" using od by (simp_all add: on_device_def fs_wf_def)
  have act: "g_active s' = ?i" "length (g_instances s') = 8" "g_instances s' ! ?i = a"
    using len by (simp_all add: b(1) post_def)
  have self: "at_instance ?i s' = s'" using act(1) by (metis at_instance_self)
  have O: "ai_role (g_instances u ! j) = of_nat j" "volume_ok bid invar contents (at_instance j u)" "volumes_apart u j ?i" "j < 8"
    if "mounted_at u j" "j \<noteq> ?i" for j
    using others that by (auto simp: others_ok_def mounted_at_def)
  have kept: "volume_ok bid invar contents (at_instance j s')" "tree_of contents (at_instance j s') = tree_of contents (at_instance j u)"
    "volume_end s' j = volume_end u j" "g_instances s' ! j = g_instances u ! j" if "mounted_at u j" "j \<noteq> ?i" for j
    using other_volume_kept [OF od b O(4) [OF that] that(2) O(2,3) [OF that]] by auto
  have inst: "g_instances s' ! j = g_instances u ! j" if "j \<noteq> ?i" for j
    using that by (simp add: b(1) post_def)
  show m: "mounted_at s' k \<longleftrightarrow> k = ?i \<or> mounted_at u k" for k
    using inst act len a(3) by (cases "k = ?i") (simp_all add: mounted_at_def)
  have st: "active_storage_size s' = active_storage_size u"
    using a(1) act b len by (intro storage_size_same) (simp_all add: same_place_def active_def b(1) post_fields blk_after_def)
  have start: "volume_start s' ?i = volume_start u ?i"
    using a(1) act(3) by (simp add: volume_start_def same_place_def active_def)
  have end_i: "volume_end s' ?i = volume_end u ?i"
    using st start self by (simp add: volume_end_def at_instance_self)
  have start_j: "volume_start s' j = volume_start u j" if "j \<noteq> ?i" for j using inst [OF that] by (simp add: volume_start_def)
  have "volumes_apart s' j k" if jk: "mounted_at s' j" "mounted_at s' k" "j \<noteq> k" for j k
  proof -
    have "volumes_apart u j k"
    proof (cases "j = ?i \<or> k = ?i")
      case True
      then show ?thesis using jk m O(3) volumes_apart_sym [of u] by metis
    next
      case False
      then show ?thesis using jk m others by (simp add: others_ok_def)
    qed
    moreover have "volume_start s' j = volume_start u j \<and> volume_end s' j = volume_end u j" if "mounted_at s' j" for j
      using that m start end_i start_j kept(3) by (cases "j = ?i") auto
    ultimately show ?thesis using jk by (simp add: volumes_apart_def)
  qed
  moreover have "ai_role (g_instances s' ! k) = of_nat k \<and> volume_ok bid invar contents (at_instance k s')" if "mounted_at s' k" for k
    using that m a(2) act vok self kept(1,4) O(1) by (cases "k = ?i") auto
  moreover have "mounted_at s' (unat PARTITION_ROLE_ROOT)" using root m [of "unat PARTITION_ROLE_ROOT"] by argo
  ultimately show "fs_ok bid invar contents s'" unfolding fs_ok_def using act(2) by blast
  show "trees contents s' = (trees contents u)(?i := tree_of contents s')"
    using m self kept(2) by (auto simp: trees_def fun_eq_iff)
qed

lemma fs_ok_update:
  assumes ok: "fs_ok bid invar contents s0" and sel: "select_instance_for_path path s0 = (q, s)"
    and upd: "vol_update bid invar contents s T s'"
  shows "fs_ok bid invar contents s'" "trees contents s' = (trees contents s0)(g_active s := T)"
    "mounted_at s' = mounted_at s0"
proof -
  note M = select_mounted [OF ok sel]
  have oks: "fs_ok bid invar contents s" using ok M(1) by (metis fs_ok_at_instance)
  have tr: "trees contents s = trees contents s0" using M(1) by (metis trees_at_instance)
  have m0: "mounted_at s = mounted_at s0" using M(1) by (metis at_instance_simps(7))
  obtain a V where step: "vol_step invar contents s a V s'" using upd by (auto simp: vol_update_def)
  then obtain b where b: "s' = post a b s" "blk_after invar contents s V b" "same_volume (active s) a" by (auto simp: vol_step_def)
  have mo: "mounted_at s (g_active s)" using M(2) m0 by simp
  then have a: "same_place (active s) a" "ai_role a = of_nat (g_active s)" "ai_mounted a"
    using same_volume_place [OF b(3)] oks by (auto simp: same_place_def fs_ok_def mounted_at_def active_def)
  have vok': "volume_ok bid invar contents s'" and T: "tree_of contents s' = T" using upd by (auto simp: vol_update_def)
  have others: "others_ok bid invar contents (g_active s) s" using oks mo by (simp add: others_ok_def fs_ok_def)
  have root: "mounted_at s (unat PARTITION_ROLE_ROOT)" using oks by (simp add: fs_ok_def)
  note I = install_volume [OF volume_okD(1) [OF M(3)] b(1,2) a vok' others]
  show "fs_ok bid invar contents s'" "trees contents s' = (trees contents s0)(g_active s := T)" "mounted_at s' = mounted_at s0"
    using I root T tr m0 mo by auto
qed

end

section \<open>Calls and their specification\<close>

datatype aosfs_call =
    Create_file u16 u32 u32
  | Make_dir u16 u32 u32
  | Make_symlink string u32 u32
  | Write_file nat bytes
  | Read_file nat nat
  | Truncate_file
  | Resize_file nat
  | Change_mode u16
  | Change_owner u32 u32
  | Unlink_file
  | Remove_dir

primrec run_call :: "aosfs_call \<Rightarrow> string \<Rightarrow> 'd aosfs_state \<Rightarrow> bool \<times> 'd aosfs_state" where
  "run_call (Create_file mode uid gid) path s = apfst (\<lambda>r. r \<noteq> None) (aosfs_create_path_mode path mode uid gid s)"
| "run_call (Make_dir mode uid gid) path s = aosfs_mkdir_path_mode path mode uid gid s"
| "run_call (Make_symlink target uid gid) path s = aosfs_symlink_path target path uid gid s"
| "run_call (Write_file off buf) path s = apfst (\<lambda>r. r \<noteq> None) (aosfs_write_path path off buf s)"
| "run_call (Read_file off n) path s = apfst (\<lambda>r. r \<noteq> None) (aosfs_read_path path off n s)"
| "run_call Truncate_file path s = aosfs_truncate_path path s"
| "run_call (Resize_file sz) path s = aosfs_resize_path path sz s"
| "run_call (Change_mode mode) path s = aosfs_chmod_path path mode s"
| "run_call (Change_owner uid gid) path s = aosfs_chown_path path uid gid s"
| "run_call Unlink_file path s = aosfs_unlink_path path s"
| "run_call Remove_dir path s = aosfs_rmdir_path path s"

text \<open>
  The calls the virtual file system makes: paths are C strings, a write has data, and a symbolic link
  is made only where nothing exists (\<open>vfs_symlink_path\<close> looks the path up first).
\<close>

definition call_ok :: "aosfs_call \<Rightarrow> string \<Rightarrow> 'd aosfs_state \<Rightarrow> bool" where
  "call_ok c path s \<longleftrightarrow> CHR 0x00 \<notin> set path \<and> (path \<noteq> [] \<longrightarrow> last path \<noteq> CHR ''/'') \<and>
     (case c of Write_file off buf \<Rightarrow> buf \<noteq> []
      | Make_symlink target uid gid \<Rightarrow>
          (case select_instance_for_path path s of (q, s') \<Rightarrow> aosfs_find_entry q s' = None)
      | _ \<Rightarrow> True)"

definition has_parent :: "(string \<Rightarrow> file_view option) \<Rightarrow> string \<Rightarrow> bool" where
  "has_parent T q \<longleftrightarrow> q \<noteq> [] \<and> (\<exists>parent. aosfs_parent_path_of q AOSFS_PATH_MAX = Some parent \<and> tree_dir T parent)"

text \<open>What a call may do to the files of a volume; the flag says whether it reports success.\<close>

inductive tree_step :: "bool \<Rightarrow> aosfs_call \<Rightarrow> string \<Rightarrow> (string \<Rightarrow> file_view option) \<Rightarrow> (string \<Rightarrow> file_view option) \<Rightarrow> bool" where
  step_fails: "tree_step False c q T T"
| step_create: "T q = None \<Longrightarrow> has_parent T q \<Longrightarrow>
    tree_step True (Create_file mode uid gid) q T (T(q \<mapsto> new_file AOSFS_ENTRY_REGULAR mode uid gid ino))"
| step_exists: "T q = Some f \<Longrightarrow> fv_kind f \<noteq> AOSFS_ENTRY_DIRECTORY \<Longrightarrow> tree_step True (Create_file mode uid gid) q T T"
| step_mkdir: "T q = None \<Longrightarrow> has_parent T q \<Longrightarrow>
    tree_step True (Make_dir mode uid gid) q T (T(q \<mapsto> new_file AOSFS_ENTRY_DIRECTORY mode uid gid ino))"
| step_symlink: "T q = None \<Longrightarrow> has_parent T q \<Longrightarrow>
    tree_step True (Make_symlink target uid gid) q T (T(q \<mapsto> link_file target uid gid ino))"
| step_write: "T q = Some f \<Longrightarrow> fv_kind f \<noteq> AOSFS_ENTRY_DIRECTORY \<Longrightarrow>
    length (fv_data f @ ext) = max (length (fv_data f)) (off + length buf) \<Longrightarrow>
    tree_step True (Write_file off buf) q T (T(q \<mapsto> f\<lparr>fv_data := overwrite off buf (fv_data f @ ext)\<rparr>))"
| step_read: "T q = Some f \<Longrightarrow> fv_kind f \<noteq> AOSFS_ENTRY_DIRECTORY \<Longrightarrow> off + n \<le> length (fv_data f) \<Longrightarrow>
    tree_step True (Read_file off n) q T T"
| step_truncate: "T q = Some f \<Longrightarrow> fv_kind f = AOSFS_ENTRY_REGULAR \<Longrightarrow>
    tree_step True Truncate_file q T (T(q \<mapsto> f\<lparr>fv_data := []\<rparr>))"
| step_resize: "T q = Some f \<Longrightarrow> fv_kind f = AOSFS_ENTRY_REGULAR \<Longrightarrow>
    tree_step True (Resize_file sz) q T (T(q \<mapsto> f\<lparr>fv_data := take sz (fv_data f) @ replicate (sz - length (fv_data f)) 0\<rparr>))"
| step_chmod: "T q = Some f \<Longrightarrow>
    tree_step True (Change_mode mode) q T (T(q \<mapsto> f\<lparr>fv_mode := mode AND AOSFS_MODE_BITS\<rparr>))"
| step_chown: "T q = Some f \<Longrightarrow>
    tree_step True (Change_owner uid gid) q T (T(q \<mapsto> f\<lparr>fv_uid := uid, fv_gid := gid\<rparr>))"
| step_unlink: "q \<noteq> [] \<Longrightarrow> T q = Some f \<Longrightarrow> fv_kind f \<noteq> AOSFS_ENTRY_DIRECTORY \<Longrightarrow>
    tree_step True Unlink_file q T (T(q := None))"
| step_rmdir: "q \<noteq> [] \<Longrightarrow> T q = Some f \<Longrightarrow> fv_kind f = AOSFS_ENTRY_DIRECTORY \<Longrightarrow>
    (\<forall>p \<in> dom T. immediate_child_name q p = None) \<Longrightarrow>
    tree_step True Remove_dir q T (T(q := None))"

inductive_cases tree_step_cases: "tree_step ok c q T T'"

definition spec_ok ::
  "u32 \<Rightarrow> ('d blk_state \<Rightarrow> bool) \<Rightarrow> ('d blk_state \<Rightarrow> bytes) \<Rightarrow> aosfs_call \<Rightarrow> string \<Rightarrow> 'd aosfs_state \<Rightarrow> bool" where
  "spec_ok bid invar contents c path s0 \<longleftrightarrow>
     (case select_instance_for_path path s0 of (q, s) \<Rightarrow>
      case run_call c path s0 of (ok, s') \<Rightarrow>
        \<exists>T'. tree_step ok c q (trees contents s0 (g_active s)) T' \<and> fs_ok bid invar contents s' \<and>
             mounted_at s' = mounted_at s0 \<and> trees contents s' = (trees contents s0)(g_active s := T'))"

context byte_store
begin

lemma spec_updated:
  assumes ok: "fs_ok bid invar contents s0" and sel: "select_instance_for_path path s0 = (q, s)"
    and run: "run_call c path s0 = (r, s')" and upd: "vol_update bid invar contents s T' s'"
    and step: "tree_step r c q (tree_of contents s) T'"
  shows "spec_ok bid invar contents c path s0"
proof -
  note M = select_mounted [OF ok sel]
  have "trees contents s0 (g_active s) = tree_of contents s"
    using M(1,2) by (simp add: trees_def flip: M(1))
  then show ?thesis
    using fs_ok_update [OF ok sel upd] step by (auto simp: spec_ok_def sel run)
qed

lemma spec_failed:
  assumes ok: "fs_ok bid invar contents s0" and sel: "select_instance_for_path path s0 = (q, s)"
    and run: "run_call c path s0 = (False, s')" "s' = s0 \<or> s' = s"
  shows "spec_ok bid invar contents c path s0"
proof -
  note M = select_mounted [OF ok sel]
  have "fs_ok bid invar contents s'" "trees contents s' = trees contents s0" "mounted_at s' = mounted_at s0"
    using run(2) ok M(1) by (metis fs_ok_at_instance trees_at_instance at_instance_simps(7))+
  then show ?thesis by (auto simp: spec_ok_def sel run intro!: step_fails exI [of _ "trees contents s0 (g_active s)"])
qed

end

context byte_store
begin

lemma refine_create:
  assumes ok: "fs_ok bid invar contents s0" and c: "call_ok (Create_file mode uid gid) path s0"
  shows "spec_ok bid invar contents (Create_file mode uid gid) path s0"
proof -
  obtain q s where sel: "select_instance_for_path path s0 = (q, s)" by fastforce
  note M = select_mounted [OF ok sel]
  let ?op = "aosfs_create_path_mode path mode uid gid s0"
  have nul: "CHR 0x00 \<notin> set q" using c select_no_nul [OF sel] by (simp add: call_ok_def)
  have run: "run_call (Create_file mode uid gid) path s0 = (fst ?op \<noteq> None, snd ?op)"
    by (simp add: apfst_def map_prod_def split: prod.split)
  from create_result [OF sel M(3) nul, of mode uid gid]
  show ?thesis
  proof (elim disjE exE conjE)
    fix s1 assume "?op = (None, s1)" "s1 = s0"
    then show ?thesis by (intro spec_failed [OF ok sel, where s' = s1]) simp_all
  next
    fix s1 assume "?op = (None, s1)" "s1 = s"
    then show ?thesis by (intro spec_failed [OF ok sel, where s' = s1]) simp_all
  next
    fix f assume "tree_of contents s q = Some f" "fv_kind f \<noteq> AOSFS_ENTRY_DIRECTORY" "fst ?op \<noteq> None" "snd ?op = s"
    then show ?thesis using run by (intro spec_updated [OF ok sel _ vol_update_refl [OF M(3)] step_exists]) auto
  next
    fix parent s'
    assume "q \<noteq> []" "tree_of contents s q = None" "aosfs_parent_path_of q AOSFS_PATH_MAX = Some parent"
      "tree_dir (tree_of contents s) parent" "fst ?op \<noteq> None" "snd ?op = s'"
      "vol_update bid invar contents s ((tree_of contents s)(q \<mapsto> new_file AOSFS_ENTRY_REGULAR mode uid gid (ai_next_inode (active s)))) s'"
    then show ?thesis using run by (intro spec_updated [OF ok sel _ _ step_create]) (auto simp: has_parent_def)
  qed
qed

lemma refine_mkdir:
  assumes ok: "fs_ok bid invar contents s0" and c: "call_ok (Make_dir mode uid gid) path s0"
  shows "spec_ok bid invar contents (Make_dir mode uid gid) path s0"
proof -
  obtain q s where sel: "select_instance_for_path path s0 = (q, s)" by fastforce
  note M = select_mounted [OF ok sel]
  have nul: "CHR 0x00 \<notin> set q" using c select_no_nul [OF sel] by (simp add: call_ok_def)
  from mkdir_result [OF sel M(3) nul, of mode uid gid]
  show ?thesis
  proof (elim disjE exE conjE)
    fix parent s'
    assume "q \<noteq> []" "tree_of contents s q = None" "aosfs_parent_path_of q AOSFS_PATH_MAX = Some parent"
      "tree_dir (tree_of contents s) parent" "aosfs_mkdir_path_mode path mode uid gid s0 = (True, s')"
      "vol_update bid invar contents s ((tree_of contents s)(q \<mapsto> new_file AOSFS_ENTRY_DIRECTORY mode uid gid (ai_next_inode (active s)))) s'"
    then show ?thesis by (intro spec_updated [OF ok sel _ _ step_mkdir]) (auto simp: has_parent_def)
  qed (auto intro: spec_failed [OF ok sel])
qed

lemma refine_symlink:
  assumes ok: "fs_ok bid invar contents s0" and c: "call_ok (Make_symlink target uid gid) path s0"
  shows "spec_ok bid invar contents (Make_symlink target uid gid) path s0"
proof -
  obtain q s where sel: "select_instance_for_path path s0 = (q, s)" by fastforce
  note M = select_mounted [OF ok sel]
  have nul: "CHR 0x00 \<notin> set q" using c select_no_nul [OF sel] by (simp add: call_ok_def)
  have fresh: "tree_of contents s q = None"
    using c sel aosfs_find_slot [OF volume_okD(2) [OF M(3)]] by (simp add: call_ok_def tree_of_def tree_None)
  from symlink_result [OF sel M(3) nul fresh, of target uid gid]
  show ?thesis
  proof (elim disjE exE conjE)
    assume "aosfs_symlink_path target path uid gid s0 = (False, s0)"
    then show ?thesis by (intro spec_failed [OF ok sel, where s' = s0]) simp_all
  next
    fix s' assume "aosfs_symlink_path target path uid gid s0 = (False, s')" "vol_update bid invar contents s (tree_of contents s) s'"
    then show ?thesis by (intro spec_updated [OF ok sel _ _ step_fails]) simp_all
  next
    fix parent s'
    assume "aosfs_symlink_path target path uid gid s0 = (True, s')" "aosfs_parent_path_of q AOSFS_PATH_MAX = Some parent"
      "tree_dir (tree_of contents s) parent" "q \<noteq> []"
      "vol_update bid invar contents s ((tree_of contents s)(q \<mapsto> link_file target uid gid (ai_next_inode (active s)))) s'"
    then show ?thesis using fresh by (intro spec_updated [OF ok sel _ _ step_symlink]) (auto simp: has_parent_def)
  qed
qed

lemma refine_write:
  assumes ok: "fs_ok bid invar contents s0" and c: "call_ok (Write_file off buf) path s0"
  shows "spec_ok bid invar contents (Write_file off buf) path s0"
proof -
  obtain q s where sel: "select_instance_for_path path s0 = (q, s)" by fastforce
  note M = select_mounted [OF ok sel]
  have buf: "buf \<noteq> []" using c by (simp add: call_ok_def)
  from write_path_result [OF sel M(3) buf, of off]
  show ?thesis
  proof (elim disjE exE conjE)
    assume "aosfs_write_path path off buf s0 = (None, s)"
    then show ?thesis by (intro spec_failed [OF ok sel, where s' = s]) simp_all
  next
    fix f ext s'
    assume "tree_of contents s q = Some f" "fv_kind f \<noteq> AOSFS_ENTRY_DIRECTORY"
      "length (fv_data f @ ext) = max (length (fv_data f)) (off + length buf)"
      "aosfs_write_path path off buf s0 = (Some (length buf, length (fv_data f @ ext)), s')"
      "vol_update bid invar contents s ((tree_of contents s)(q \<mapsto> f\<lparr>fv_data := overwrite off buf (fv_data f @ ext)\<rparr>)) s'"
    then show ?thesis by (intro spec_updated [OF ok sel _ _ step_write]) simp_all
  qed
qed

lemma refine_read:
  assumes ok: "fs_ok bid invar contents s0"
  shows "spec_ok bid invar contents (Read_file off n) path s0"
proof -
  obtain q s where sel: "select_instance_for_path path s0 = (q, s)" by fastforce
  note M = select_mounted [OF ok sel]
  let ?r = "case tree_of contents s q of None \<Rightarrow> None
        | Some f \<Rightarrow> if fv_kind f = AOSFS_ENTRY_DIRECTORY \<or> \<not> off + n \<le> length (fv_data f) then None
                    else Some (subarr off n (fv_data f))"
  obtain s' where s': "aosfs_read_path path off n s0 = (?r, s')" "vol_update bid invar contents s (tree_of contents s) s'"
    using read_path_result [OF sel M(3)] by blast
  have "tree_step (?r \<noteq> None) (Read_file off n) q (tree_of contents s) (tree_of contents s)"
    by (auto split: option.split intro: tree_step.intros)
  then show ?thesis using s' by (intro spec_updated [OF ok sel _ s'(2)]) simp_all
qed

lemma refine_attributes:
  assumes ok: "fs_ok bid invar contents s0"
  shows "spec_ok bid invar contents Truncate_file path s0" "spec_ok bid invar contents (Resize_file sz) path s0"
    "spec_ok bid invar contents (Change_mode mode) path s0" "spec_ok bid invar contents (Change_owner uid gid) path s0"
proof -
  obtain q s where sel: "select_instance_for_path path s0 = (q, s)" by fastforce
  note M = select_mounted [OF ok sel]
  show "spec_ok bid invar contents Truncate_file path s0"
    using truncate_result [OF sel M(3)]
    by (elim disjE exE conjE) (auto intro: spec_failed [OF ok sel] spec_updated [OF ok sel] tree_step.intros)
  show "spec_ok bid invar contents (Resize_file sz) path s0"
    using resize_result [OF sel M(3), of sz]
    by (elim disjE exE conjE) (auto intro: spec_failed [OF ok sel] spec_updated [OF ok sel] tree_step.intros)
  show "spec_ok bid invar contents (Change_mode mode) path s0"
    using chmod_result [OF sel M(3), of mode]
    by (elim disjE exE conjE) (auto intro: spec_failed [OF ok sel] spec_updated [OF ok sel] tree_step.intros)
  show "spec_ok bid invar contents (Change_owner uid gid) path s0"
    using chown_result [OF sel M(3), of uid gid]
    by (elim disjE exE conjE) (auto intro: spec_failed [OF ok sel] spec_updated [OF ok sel] tree_step.intros)
qed

lemma refine_remove:
  assumes ok: "fs_ok bid invar contents s0"
  shows "spec_ok bid invar contents Unlink_file path s0" "spec_ok bid invar contents Remove_dir path s0"
proof -
  obtain q s where sel: "select_instance_for_path path s0 = (q, s)" by fastforce
  note M = select_mounted [OF ok sel]
  show "spec_ok bid invar contents Unlink_file path s0"
  proof (cases "path = []")
    case True
    then show ?thesis by (intro spec_failed [OF ok sel, where s' = s0]) (simp_all add: aosfs_unlink_path_def)
  next
    case False
    from unlink_result [OF sel M(3) False] show ?thesis
      by (elim disjE exE conjE) (auto intro: spec_failed [OF ok sel] spec_updated [OF ok sel] tree_step.intros)
  qed
  show "spec_ok bid invar contents Remove_dir path s0"
  proof (cases "path = []")
    case True
    then show ?thesis by (intro spec_failed [OF ok sel, where s' = s0]) (simp_all add: aosfs_rmdir_path_def)
  next
    case False
    from rmdir_result [OF sel M(3) False] show ?thesis
      by (elim disjE exE conjE) (auto intro: spec_failed [OF ok sel] spec_updated [OF ok sel] tree_step.intros)
  qed
qed

lemma call_refines:
  "fs_ok bid invar contents s \<Longrightarrow> call_ok c path s \<Longrightarrow> spec_ok bid invar contents c path s"
  by (cases c) (simp_all add: refine_create refine_mkdir refine_symlink refine_write refine_read refine_attributes refine_remove)

end

section \<open>The files of a volume form a tree\<close>

definition tree_closed :: "(string \<Rightarrow> file_view option) \<Rightarrow> bool" where
  "tree_closed T \<longleftrightarrow> (\<forall>p \<in> dom T. has_parent T p \<and> last p \<noteq> CHR ''/'')"

lemma parent_split:
  assumes "aosfs_parent_path_of p n = Some q" "q \<noteq> []"
  shows "\<exists>name. p = q @ CHR ''/'' # name \<and> CHR ''/'' \<notin> set name"
proof -
  let ?P = "\<lambda>c. c \<noteq> CHR ''/''"
  have s: "last_slash p \<noteq> 0" "q = take (last_slash p - 1) p"
    using assms by (auto simp: aosfs_parent_path_of_def Let_def split: if_splits)
  then obtain c d where d: "dropWhile ?P (rev p) = c # d" by (cases "dropWhile ?P (rev p)") (auto simp: last_slash_def)
  then have c: "c = CHR ''/''" by (metis (mono_tags, lifting) hd_dropWhile list.distinct(1) list.sel(1))
  have "rev p = takeWhile ?P (rev p) @ CHR ''/'' # d" using d c by (metis takeWhile_dropWhile_id)
  then have p: "p = rev d @ CHR ''/'' # rev (takeWhile ?P (rev p))" by (metis rev_append rev.simps(2) rev_rev_ident append.assoc append_Cons append_Nil)
  have "last_slash p - 1 = length (rev d)" using d by (simp add: last_slash_def)
  then have "q = rev d" using s(2) by (metis append_eq_conv_conj p)
  moreover have "CHR ''/'' \<notin> set (takeWhile ?P (rev p))" by (auto dest: set_takeWhileD)
  ultimately show ?thesis using p by (metis set_rev)
qed

lemma child_of_parent:
  assumes "aosfs_parent_path_of p n = Some q" "q \<noteq> []" "last p \<noteq> CHR ''/''"
  shows "immediate_child_name q p \<noteq> None"
proof -
  obtain name where n: "p = q @ CHR ''/'' # name" "CHR ''/'' \<notin> set name" using parent_split [OF assms(1,2)] by blast
  have ne: "name \<noteq> []" using assms(3) n(1) by auto
  have tw: "takeWhile (\<lambda>c. c \<noteq> CHR ''/'') name = name" using n(2) by (auto intro: takeWhile_eq_all_conv [THEN iffD2])
  show ?thesis
    using ne assms(2) by (simp add: immediate_child_name_def n(1) path_starts_with_component_def Let_def tw del: takeWhile_eq_all_conv)
qed

lemma tree_dir_mono:
  assumes "tree_dir T p" "T' p = T p \<or> T p = None \<or> (\<exists>f f'. T p = Some f \<and> T' p = Some f' \<and> fv_kind f' = fv_kind f)"
  shows "tree_dir T' p"
  using assms by (auto simp: tree_dir_def)

lemma tree_closed_put:
  assumes "tree_closed T" "(T q = None \<and> has_parent T q \<and> last q \<noteq> CHR ''/'') \<or> (\<exists>f0. T q = Some f0 \<and> fv_kind f = fv_kind f0)"
  shows "tree_closed (T(q \<mapsto> f))"
proof -
  have "tree_dir (T(q \<mapsto> f)) p" if "tree_dir T p" for p
    using that assms(2) by (intro tree_dir_mono [OF that]) auto
  then have keep: "has_parent (T(q \<mapsto> f)) p" if "has_parent T p" for p using that unfolding has_parent_def by blast
  have old: "has_parent T p \<and> last p \<noteq> CHR ''/''" if "p \<in> dom T" for p using assms(1) that by (simp add: tree_closed_def)
  have "has_parent T q \<and> last q \<noteq> CHR ''/''" using assms(2) old [of q] by blast
  then show ?thesis unfolding tree_closed_def using keep old by (metis dom_fun_upd insertE option.discI)
qed

lemma tree_closed_remove:
  assumes "tree_closed T" "q \<noteq> []" "T q = Some f"
    and "fv_kind f = AOSFS_ENTRY_DIRECTORY \<Longrightarrow> \<forall>p \<in> dom T. immediate_child_name q p = None"
  shows "tree_closed (T(q := None))"
  unfolding tree_closed_def
proof
  fix p assume "p \<in> dom (T(q := None))"
  then have p: "p \<in> dom T" "p \<noteq> q" by (auto split: if_splits)
  obtain d where d: "p \<noteq> []" "last p \<noteq> CHR ''/''" "aosfs_parent_path_of p AOSFS_PATH_MAX = Some d" "tree_dir T d"
    using assms(1) p(1) by (auto simp: tree_closed_def has_parent_def)
  have "tree_dir (T(q := None)) d"
  proof (cases "d = q \<and> fv_kind f = AOSFS_ENTRY_DIRECTORY")
    case True
    then show ?thesis using assms(2,4) child_of_parent [OF d(3) _ d(2)] p(1) by auto
  next
    case False
    then show ?thesis using d(4) assms(3) by (auto simp: tree_dir_def)
  qed
  then show "has_parent (T(q := None)) p \<and> last p \<noteq> CHR ''/''" using d by (auto simp: has_parent_def)
qed

lemma tree_step_closed:
  assumes "tree_step ok c q T T'" "tree_closed T" "q \<noteq> [] \<longrightarrow> last q \<noteq> CHR ''/''"
  shows "tree_closed T'"
  using assms
  by (cases rule: tree_step.cases)
    (auto intro!: tree_closed_put tree_closed_remove simp: has_parent_def new_file_def link_file_def)

lemma tree_closed_empty: "tree_closed Map.empty"
  by (simp add: tree_closed_def)

section \<open>Sequences of calls\<close>

inductive aosfs_step :: "'d aosfs_state \<Rightarrow> 'd aosfs_state \<Rightarrow> bool" where
  call: "call_ok c path s \<Longrightarrow> aosfs_step s (snd (run_call c path s))"

inductive_cases aosfs_stepE: "aosfs_step s s'"

definition all_trees_closed :: "('d blk_state \<Rightarrow> bytes) \<Rightarrow> 'd aosfs_state \<Rightarrow> bool" where
  "all_trees_closed contents s \<longleftrightarrow> (\<forall>k. tree_closed (trees contents s k))"

context byte_store
begin

lemma step_keeps:
  assumes "aosfs_step s s'" "fs_ok bid invar contents s"
  shows "fs_ok bid invar contents s'" "mounted_at s' = mounted_at s"
    "all_trees_closed contents s \<Longrightarrow> all_trees_closed contents s'"
proof -
  obtain c path where c: "call_ok c path s" "s' = snd (run_call c path s)" using assms(1) by (auto elim: aosfs_stepE)
  obtain q s1 where sel: "select_instance_for_path path s = (q, s1)" by fastforce
  obtain T' where T: "tree_step (fst (run_call c path s)) c q (trees contents s (g_active s1)) T'"
      "fs_ok bid invar contents s'" "mounted_at s' = mounted_at s" "trees contents s' = (trees contents s)(g_active s1 := T')"
    using call_refines [OF assms(2) c(1)] c(2) by (auto simp: spec_ok_def sel split: prod.splits)
  show "fs_ok bid invar contents s'" "mounted_at s' = mounted_at s" by (rule T(2), rule T(3))
  have "q \<noteq> [] \<longrightarrow> last q \<noteq> CHR ''/''" using c(1) select_suffix [OF sel] by (auto simp: call_ok_def)
  then show "all_trees_closed contents s \<Longrightarrow> all_trees_closed contents s'"
    using T(4) tree_step_closed [OF T(1)] by (auto simp: all_trees_closed_def)
qed

lemma steps_keep:
  assumes "aosfs_step\<^sup>*\<^sup>* s s'" "fs_ok bid invar contents s" "all_trees_closed contents s"
  shows "fs_ok bid invar contents s' \<and> mounted_at s' = mounted_at s \<and> all_trees_closed contents s'"
  using assms by (induction rule: rtranclp_induct) (auto dest: step_keeps)

end

end
