(* ===== verification/Aosfs_Props.thy ===== *)
theory Aosfs_Props
  imports Aosfs_System
begin

text \<open>
  The properties of the AOSFS driver, with a sample system to apply them to: a memory block device of
  8 MiB formatted as the root volume.
\<close>

section \<open>When operations succeed\<close>

context byte_store
begin

lemma create_succeeds:
  assumes sel: "select_instance_for_path path s0 = (q, s)" and vok: "volume_ok bid invar contents s"
    and path: "path \<noteq> []" "length path < AOSFS_PATH_MAX" "CHR 0x00 \<notin> set path"
    and name: "commands_leaf q = None" "contains_slash q \<or> initrd_get_file (initrd_memory s) (Some q) (fs_initrd s) = None"
    and parent: "has_parent (tree_of contents s) q" "tree_of contents s q = None"
    and free: "i < ai_entry_limit (active s)" "\<not> ae_in_use (ai_entries (active s) ! i)"
  shows "\<exists>node s' j. aosfs_create_path_mode path mode uid gid s0 = (Some node, s') \<and>
    vol_update bid invar contents s ((tree_of contents s)(q \<mapsto> new_file AOSFS_ENTRY_REGULAR mode uid gid (ai_next_inode (active s)))) s' \<and>
    slot_of ae_in_use ae_path (ai_entries (active s')) q = Some j \<and>
    ae_data_capacity (ai_entries (active s') ! j) = 0 \<and> ai_next_data_offset (active s') = ai_next_data_offset (active s)"
proof -
  note O = volume_okD [OF vok]
  note T = volume_inv_table [OF O(2)]
  obtain d where d: "aosfs_parent_path_of q AOSFS_PATH_MAX = Some d" "tree_dir (tree_of contents s) d" and q: "q \<noteq> []"
    using parent(1) by (auto simp: has_parent_def)
  have len: "length q < AOSFS_PATH_MAX" using select_suffix [OF sel] path(2) by auto
  have nul: "CHR 0x00 \<notin> set q" by (rule select_no_nul [OF sel path(3)])
  have dir: "dir_exists d s" using d(2) dir_exists_tree [OF O(2)] by (simp add: tree_of_def)
  have fresh: "slot_of ae_in_use ae_path (ai_entries (active s)) q = None" using parent(2) by (simp add: tree_of_def tree_None)
  let ?tab = "take (ai_entry_limit (active s)) (ai_entries (active s))"
  have "\<exists>e \<in> set ?tab. \<not> ae_in_use e"
  proof
    show "\<not> ae_in_use (?tab ! i)" using free T(1,3) by simp
    show "?tab ! i \<in> set ?tab" using free(1) T(1,3) by (intro nth_mem) simp
  qed
  then obtain j where j: "find_slot (\<lambda>e. \<not> ae_in_use e) ?tab = Some j"
    by (cases "find_slot (\<lambda>e. \<not> ae_in_use e) ?tab") (auto simp: find_slot_None)
  have fj: "j < ai_entry_limit (active s)" "\<not> ae_in_use (ai_entries (active s) ! j)" using find_slot_SomeD [OF j] by auto
  obtain s' where s': "allocate_entry_at j AOSFS_ENTRY_REGULAR mode uid gid q s = (True, s')"
      "vol_update bid invar contents s ((tree_of contents s)(q \<mapsto> new_file AOSFS_ENTRY_REGULAR mode uid gid (ai_next_inode (active s)))) s'"
      "slot_of ae_in_use ae_path (ai_entries (active s')) q = Some j"
      "ae_data_capacity (ai_entries (active s') ! j) = 0" "ai_next_data_offset (active s') = ai_next_data_offset (active s)"
    using allocate_result [OF vok fj fresh len nul, of AOSFS_ENTRY_REGULAR mode uid gid] by (auto simp: AOSFS_ENTRY_REGULAR_def)
  have "aosfs_create_path_mode path mode uid gid s0 = (Some (fill_dynamic_node j s'), s')"
    using path(1,2) q len name d(1) dir fresh O(3) j s'(1) aosfs_find_slot [OF O(2), of q]
    by (auto simp add: aosfs_create_path_mode_def sel Let_def)
  then show ?thesis using s'(2-5) by blast
qed

lemma write_succeeds:
  assumes sel: "select_instance_for_path path s0 = (q, s)" and vok: "volume_ok bid invar contents s" and buf: "buf \<noteq> []"
    and f: "tree_of contents s q = Some f" "fv_kind f \<noteq> AOSFS_ENTRY_DIRECTORY" "off + length buf \<le> AOSFS_MAX_FILE_SIZE"
    and room: "slot_of ae_in_use ae_path (ai_entries (active s)) q = Some i" "\<not> no_room i (off + length buf) s"
  shows "\<exists>ext s'. length (fv_data f @ ext) = max (length (fv_data f)) (off + length buf) \<and>
      aosfs_write_path path off buf s0 = (Some (length buf, length (fv_data f @ ext)), s') \<and>
      vol_update bid invar contents s ((tree_of contents s)(q \<mapsto> f\<lparr>fv_data := overwrite off buf (fv_data f @ ext)\<rparr>)) s'"
  using write_path_result [OF sel vok buf, of off] f room by fastforce

text \<open>A new file can be made and filled, and reading it returns what was written.\<close>

lemma store_new_file:
  assumes ok: "fs_ok bid invar contents s0" and sel: "select_instance_for_path path s0 = (q, s)"
    and path: "path \<noteq> []" "length path < AOSFS_PATH_MAX" "CHR 0x00 \<notin> set path"
    and name: "commands_leaf q = None" "contains_slash q \<or> initrd_get_file (initrd_memory s) (Some q) (fs_initrd s) = None"
    and parent: "has_parent (tree_of contents s) q" "tree_of contents s q = None"
    and free: "i < ai_entry_limit (active s)" "\<not> ae_in_use (ai_entries (active s) ! i)"
    and buf: "buf \<noteq> []" "length buf \<le> AOSFS_MAX_FILE_SIZE"
    and room: "ai_next_data_offset (active s) + AOSFS_EXTENT_ALIGNMENT + extent_capacity 0 (length buf) \<le> active_storage_size s"
  shows "\<exists>node s1 s2 s3. aosfs_create_path_mode path mode uid gid s0 = (Some node, s1) \<and>
    aosfs_write_path path 0 buf s1 = (Some (length buf, length buf), s2) \<and>
    aosfs_read_path path 0 (length buf) s2 = (Some buf, s3) \<and> fs_ok bid invar contents s2 \<and>
    trees contents s2 = (trees contents s0)(g_active s := (tree_of contents s)(q \<mapsto>
      (new_file AOSFS_ENTRY_REGULAR mode uid gid (ai_next_inode (active s)))\<lparr>fv_data := buf\<rparr>))"
proof -
  note M = select_mounted [OF ok sel]
  let ?f = "new_file AOSFS_ENTRY_REGULAR mode uid gid (ai_next_inode (active s))"
  obtain node s1 j where c: "aosfs_create_path_mode path mode uid gid s0 = (Some node, s1)"
      "vol_update bid invar contents s ((tree_of contents s)(q \<mapsto> ?f)) s1"
      "slot_of ae_in_use ae_path (ai_entries (active s1)) q = Some j" "ae_data_capacity (ai_entries (active s1) ! j) = 0"
      "ai_next_data_offset (active s1) = ai_next_data_offset (active s)"
    using create_succeeds [OF sel M(3) path name parent free] by blast
  note C = vol_update_select [OF sel c(2)]
  have size: "active_storage_size s1 = active_storage_size s"
    using c(2) vol_stepD(4) [OF volume_okD(1) [OF M(3)]] by (auto simp: vol_update_def)
  have kind: "fv_kind ?f \<noteq> AOSFS_ENTRY_DIRECTORY" "fv_data ?f = []"
    by (simp_all add: new_file_def AOSFS_ENTRY_REGULAR_def AOSFS_ENTRY_DIRECTORY_def)
  have "\<not> no_room j (0 + length buf) s1" using room c(4,5) size by (simp add: no_room_def)
  then obtain ext s2 where w: "length (fv_data ?f @ ext) = max (length (fv_data ?f)) (0 + length buf)"
      "aosfs_write_path path 0 buf s1 = (Some (length buf, length (fv_data ?f @ ext)), s2)"
      "vol_update bid invar contents s1 ((tree_of contents s1)(q \<mapsto> ?f\<lparr>fv_data := overwrite 0 buf (fv_data ?f @ ext)\<rparr>)) s2"
    using write_succeeds [OF C(1,2) buf(1) _ kind(1) _ c(3), of 0] C(3) buf(2) by auto
  have data: "overwrite 0 buf (fv_data ?f @ ext) = buf" using w(1) kind(2) by (simp add: overwrite_def)
  have u2: "vol_update bid invar contents s ((tree_of contents s)(q \<mapsto> ?f\<lparr>fv_data := buf\<rparr>)) s2"
    using vol_update_trans [OF M(3) c(2) w(3)] C(3) data by simp
  note W = vol_update_select [OF sel u2]
  obtain s3 where r: "aosfs_read_path path 0 (length buf) s2 = (Some buf, s3)"
    using read_path_result [OF W(1,2), of 0 "length buf"] W(3) kind(1) by (auto simp: subarr_def)
  have "aosfs_write_path path 0 buf s1 = (Some (length buf, length buf), s2)" using w(1,2) kind(2) by simp
  then show ?thesis using c(1) r fs_ok_update [OF ok sel u2] by blast
qed

end

section \<open>Formatting and remounting\<close>

lemma instance_of_nat: "k < 8 \<Longrightarrow> instance_for_role (of_nat k) = k"
proof -
  assume k: "k < 8"
  have u: "unat (of_nat k :: u8) = k" using k by (intro unat_of_nat_small) simp
  then have "\<not> PARTITION_ROLE_TRASH < (of_nat k :: u8)" using k by (simp add: word_less_nat_alt PARTITION_ROLE_TRASH_def)
  then show ?thesis using u by (simp add: instance_for_role_def)
qed

lemma start_trees:
  assumes "length (g_instances s) = 8" "length (g_instances u) = 8" "fs_blk u = fs_blk s" "fs_parts u = fs_parts s"
    and "\<And>k. k \<noteq> i \<Longrightarrow> g_instances u ! k = g_instances s ! k"
  shows "k \<noteq> i \<Longrightarrow> mounted_at u k = mounted_at s k" "k \<noteq> i \<Longrightarrow> trees contents u k = trees contents s k"
proof -
  assume k: "k \<noteq> i"
  show m: "mounted_at u k = mounted_at s k" using assms(5) k by (simp add: mounted_at_def)
  have "active_storage_size (at_instance k u) = active_storage_size (at_instance k s)"
    using assms(3-5) k by (intro storage_size_same) simp_all
  then show "trees contents u k = trees contents s k"
    using assms(3-5) k m by (simp add: trees_def tree_of_def volume_bytes_def)
qed

lemma start_instances:
  assumes "k \<noteq> instance_for_role role"
  shows "g_instances (format_start role bid base s) ! k = g_instances s ! k"
    "g_instances (mount_start role bid base s) ! k = g_instances s ! k"
  using assms by (simp_all add: format_start_def mount_start_def update_active_def)

context byte_store
begin

lemma format_in_system:
  assumes len: "length (g_instances s) = 8" and inv: "invar (fs_blk s)" and k: "k < 8"
    and u: "u = format_start (of_nat k) bid base s"
    and S: "AOSFS_DATA_OFFSET \<le> active_storage_size u" "active_storage_size u + AOSFS_MAX_FILE_SIZE < 2 ^ 64"
    and others: "others_ok bid invar contents k u"
    and root: "k = unat PARTITION_ROLE_ROOT \<or> mounted_at s (unat PARTITION_ROLE_ROOT)"
  shows "\<exists>s'. aosfs_format_role (of_nat k) bid base s = (True, s') \<and> fs_ok bid invar contents s' \<and>
    trees contents s' = (trees contents s)(k := Map.empty) \<and> vol_update bid invar contents u Map.empty s' \<and> active s' = active u"
proof -
  note F = format_start_facts [OF len, of "of_nat k" bid base, folded u] and I = instance_of_nat [OF k]
  obtain s' where s': "aosfs_format_role (of_nat k) bid base s = (True, s')" "vol_update bid invar contents u Map.empty s'" "active s' = active u"
    using format_ok [OF len inv u S] by blast
  obtain a V where step: "vol_step invar contents u a V s'" and vok: "volume_ok bid invar contents s'"
    and T: "tree_of contents s' = Map.empty" using s'(2) by (auto simp: vol_update_def)
  obtain b where b: "s' = post a b u" "blk_after invar contents u V b" "same_volume (active u) a"
    using step by (auto simp: vol_step_def)
  have od: "on_device bid invar u" using F S(1) inv by (simp add: on_device_def aosfs_layout_defs)
  have act: "g_active u = k" using F(2) I by simp
  have a: "same_place (active u) a" "ai_role a = of_nat (g_active u)" "ai_mounted a"
    using same_volume_place [OF b(3)] F(5) act by (simp_all add: same_place_def)
  have inst: "g_instances u ! j = g_instances s ! j" if "j \<noteq> k" for j using start_instances(1) [of j "of_nat k" bid base s] that I u by simp
  have len': "length (g_instances u) = 8" using F(1) by (simp add: fs_wf_def)
  note ST = start_trees [where i = k, OF len len' F(3,4) inst]
  have root': "g_active u = unat PARTITION_ROLE_ROOT \<or> mounted_at u (unat PARTITION_ROLE_ROOT)"
    using root ST(1) act by metis
  note IV = install_volume [OF od b(1,2) a vok _ root', unfolded act, OF others]
  have "trees contents s' = (trees contents s)(k := Map.empty)" using IV(2) T ST(2) by (auto simp: fun_eq_iff)
  then show ?thesis using s' IV(1) by blast
qed

lemma remount_keeps_files:
  assumes ok: "fs_ok bid invar contents s" and k: "mounted_at s k"
    and t: "length (g_instances t) = 8" "fs_blk t = fs_blk s" "fs_parts t = fs_parts s" "ai_role (g_instances t ! k) = of_nat k"
  shows "\<exists>t'. aosfs_mount_role (of_nat k) bid (ai_base_offset (g_instances s ! k)) t = (True, t') \<and>
    g_active t' = k \<and> volume_ok bid invar contents t' \<and> tree_of contents t' = trees contents s k \<and>
    contents (fs_blk t') = contents (fs_blk s)"
proof -
  let ?b = "ai_base_offset (g_instances s ! k)"
  define u where "u = mount_start (of_nat k) bid ?b t"
  have k8: "k < 8" using k by (simp add: mounted_at_def)
  note F = mount_start_facts [OF t(1), of "of_nat k" bid ?b, folded u_def, unfolded instance_of_nat [OF k8]]
  have vok: "volume_ok bid invar contents (at_instance k s)" and role: "ai_role (g_instances s ! k) = of_nat k"
    using ok k by (simp_all add: fs_ok_def)
  note O = volume_okD [OF vok]
  have dev: "ai_blkdev_id (g_instances s ! k) = bid" "invar (fs_blk s)" using O(1) by (simp_all add: on_device_def)
  have size: "active_storage_size u = active_storage_size (at_instance k s)"
    using F t role dev by (intro storage_size_same) (simp_all add: mount_instance_def)
  have bytes: "volume_bytes contents u = volume_bytes contents (at_instance k s)"
    using F(3,5) t(2) size by (simp add: volume_bytes_def mount_instance_def)
  have img: "volume_image (active_storage_size u) (ai_entry_limit (g_instances s ! k)) (ai_entries (g_instances s ! k)) (volume_bytes contents u)"
    using volume_inv_image [OF O(2)] size bytes by simp
  have inv_t: "invar (fs_blk t)" using dev(2) t(2) by simp
  let ?a = "\<lambda>h m. (active u)\<lparr>ai_entries := ai_entries (g_instances s ! k), ai_entry_limit := ai_entry_limit (g_instances s ! k),
      ai_next_data_offset := m, ai_next_inode := h\<rparr>"
  obtain b h m where b: "aosfs_mount_role (of_nat k) bid ?b t = (True, post (?a h m) b u)"
      "blk_after invar contents u (volume_bytes contents u) b" "volume_inv (active_storage_size u) (?a h m) (volume_bytes contents u)"
    using mount_image [OF t(1) inv_t u_def img] by blast
  let ?t = "post (?a h m) b u"
  have odu: "on_device bid invar u"
    using F(1,3,5) inv_t O(1) size by (simp add: on_device_def mount_instance_def)
  have place: "ai_role (?a h m) = ai_role (active u)" "ai_blkdev_id (?a h m) = ai_blkdev_id (active u)"
    "ai_base_offset (?a h m) = ai_base_offset (active u)" by simp_all
  have B: "invar b" "g_blkdevs b = g_blkdevs (fs_blk u)"
    "contents b = overwrite (unat (ai_base_offset (active u))) (volume_bytes contents u) (contents (fs_blk u))"
    using b(2) by (simp_all add: blk_after_def)
  have same: "contents b = contents (fs_blk u)"
    unfolding B(3) volume_bytes_def by (rule subarr_overwrite_self [OF storage_fits(1) [OF odu]])
  have act: "active ?t = ?a h m" by (rule active_post [OF F(1)])
  have size': "active_storage_size ?t = active_storage_size u"
    using act B(2) by (intro storage_size_same) (simp_all add: post_fields)
  have bytes': "volume_bytes contents ?t = volume_bytes contents u"
    using act size' same by (simp add: volume_bytes_def post_fields)
  have "on_device bid invar ?t" using odu act size' B(1) F(1) by (simp add: on_device_def post_simps)
  then have "volume_ok bid invar contents ?t" using b(3) act size' bytes' by (simp add: volume_ok_def)
  moreover have "tree_of contents ?t = trees contents s k"
    using act bytes' bytes k by (simp add: tree_of_def trees_def volume_tree_def)
  moreover have "g_active ?t = k" using F(2) by (simp add: post_fields)
  moreover have "contents (fs_blk ?t) = contents (fs_blk s)" using same F(3) t(2) by (simp add: post_fields)
  ultimately show ?thesis using b(1) by blast
qed

end

section \<open>Symbolic links\<close>

context byte_store
begin

lemma symlink_succeeds:
  assumes ok: "fs_ok bid invar contents s0" and sel: "select_instance_for_path path s0 = (q, s)"
    and path: "path \<noteq> []" "length path < AOSFS_PATH_MAX" "CHR 0x00 \<notin> set path"
    and name: "commands_leaf q = None" "contains_slash q \<or> initrd_get_file (initrd_memory s) (Some q) (fs_initrd s) = None"
    and parent: "has_parent (tree_of contents s) q" "tree_of contents s q = None"
    and free: "i < ai_entry_limit (active s)" "\<not> ae_in_use (ai_entries (active s) ! i)"
    and target: "target \<noteq> []" "length target < AOSFS_PATH_MAX"
    and room: "ai_next_data_offset (active s) + AOSFS_EXTENT_ALIGNMENT + extent_capacity 0 (length target) \<le> active_storage_size s"
  shows "\<exists>s'. aosfs_symlink_path target path uid gid s0 = (True, s') \<and>
    vol_update bid invar contents s ((tree_of contents s)(q \<mapsto> link_file target uid gid (ai_next_inode (active s)))) s'"
proof -
  note M = select_mounted [OF ok sel]
  let ?f = "new_file AOSFS_ENTRY_REGULAR AOSFS_DEFAULT_SYMLINK_MODE uid gid (ai_next_inode (active s))"
  let ?f2 = "new_file AOSFS_ENTRY_SYMLINK AOSFS_DEFAULT_SYMLINK_MODE uid gid (ai_next_inode (active s))"
  obtain node s1 j where c: "aosfs_create_path_mode path AOSFS_DEFAULT_SYMLINK_MODE uid gid s0 = (Some node, s1)"
      "vol_update bid invar contents s ((tree_of contents s)(q \<mapsto> ?f)) s1"
      "slot_of ae_in_use ae_path (ai_entries (active s1)) q = Some j" "ae_data_capacity (ai_entries (active s1) ! j) = 0"
      "ai_next_data_offset (active s1) = ai_next_data_offset (active s)"
    using create_succeeds [OF sel M(3) path name parent free] by blast
  obtain s2 where u2: "vol_update bid invar contents s ((tree_of contents s)(q \<mapsto> ?f2)) s2"
    and i2: "slot_of ae_in_use ae_path (ai_entries (active s2)) q = Some j" "ae_data_capacity (ai_entries (active s2) ! j) = 0"
      "ai_next_data_offset (active s2) = ai_next_data_offset (active s)"
    and op: "aosfs_symlink_path target path uid gid s0 =
        (case aosfs_write_path path 0 (map of_char target) s2 of (None, s3) \<Rightarrow> (False, snd (aosfs_unlink_path path s3))
         | (Some (written, new_size), s3) \<Rightarrow> if written \<noteq> length target then (False, snd (aosfs_unlink_path path s3)) else (True, s3))"
    using symlink_steps [OF sel M(3) target c(1,2)] c(3-5) by auto
  note U2 = vol_update_select [OF sel u2]
  have size: "active_storage_size s2 = active_storage_size s"
    using u2 vol_stepD(4) [OF volume_okD(1) [OF M(3)]] by (auto simp: vol_update_def)
  let ?b = "map of_char target :: bytes"
  have w0: "\<not> no_room j (0 + length ?b) s2" using room i2 size by (simp add: no_room_def)
  have max: "0 + length ?b \<le> AOSFS_MAX_FILE_SIZE" using target(2) by (simp add: AOSFS_PATH_MAX_def AOSFS_MAX_FILE_SIZE_def)
  have kind: "fv_kind ?f2 \<noteq> AOSFS_ENTRY_DIRECTORY" by (simp add: new_file_def AOSFS_ENTRY_SYMLINK_def AOSFS_ENTRY_DIRECTORY_def)
  have t2: "tree_of contents s2 q = Some ?f2" using U2(3) by simp
  have ne: "?b \<noteq> []" using target(1) by simp
  obtain ext s3 where w: "length (fv_data ?f2 @ ext) = max (length (fv_data ?f2)) (0 + length ?b)"
      "aosfs_write_path path 0 ?b s2 = (Some (length ?b, length (fv_data ?f2 @ ext)), s3)"
      "vol_update bid invar contents s2 ((tree_of contents s2)(q \<mapsto> ?f2\<lparr>fv_data := overwrite 0 ?b (fv_data ?f2 @ ext)\<rparr>)) s3"
    using write_succeeds [OF U2(1,2) ne t2 kind max i2(1) w0] by blast
  have "vol_update bid invar contents s ((tree_of contents s)(q \<mapsto> link_file target uid gid (ai_next_inode (active s)))) s3"
    using vol_update_trans [OF M(3) u2 w(3)] U2(3) link_written [OF w(1) refl] by simp
  then show ?thesis using op w(2) by simp
qed

lemma readlink_result:
  assumes sel: "select_instance_for_path path s0 = (q, s)" and vok: "volume_ok bid invar contents s"
    and f: "tree_of contents s q = Some f" "fv_kind f = AOSFS_ENTRY_SYMLINK"
  shows "\<exists>s'. aosfs_readlink_path path cap s0 = (Some (take cap (fv_data f)), s')"
proof -
  note O = volume_okD [OF vok]
  obtain i where i: "slot_of ae_in_use ae_path (ai_entries (active s)) q = Some i"
    using f(1) by (metis tree_None tree_of_def option.distinct(1) option.exhaust)
  note S = slot_facts [OF O(2) i]
  have e: "view (volume_bytes contents s) (ai_entries (active s) ! i) = f" using S(5) f(1) by (simp add: tree_of_def)
  have kind: "ae_kind (ai_entries (active s) ! i) = AOSFS_ENTRY_SYMLINK" using arg_cong [OF e, of fv_kind] f(2) by (simp add: view_def)
  have size: "ae_size (ai_entries (active s) ! i) = length (fv_data f)" using view_data_length [OF O(2) S(1)] e by simp
  define sz where "sz = (if length (fv_data f) < cap then length (fv_data f) else cap)"
  have op: "aosfs_readlink_path path cap s0 = (if sz = 0 then (Some [], s) else aosfs_read_path path 0 sz s)"
    using sel i entry_index_slot [OF O(2)] kind size by (simp add: aosfs_readlink_path_def entry_at_def Let_def sz_def)
  have take: "take cap (fv_data f) = take sz (fv_data f)" by (simp add: sz_def)
  have "select_instance_for_path path s = (q, s)" by (rule vol_update_select(1) [OF sel vol_update_refl [OF vok]])
  then obtain s' where "aosfs_read_path path 0 sz s = (Some (take sz (fv_data f)), s')"
    using read_path_result [of path s q s 0 sz] vok f
    by (auto simp: subarr_def sz_def AOSFS_ENTRY_SYMLINK_def AOSFS_ENTRY_DIRECTORY_def)
  then show ?thesis unfolding op take by (cases "sz = 0") auto
qed

lemma symlink_over_link:
  assumes ok: "fs_ok bid invar contents s0" and sel: "select_instance_for_path path s0 = (q, s)"
    and path: "path \<noteq> []" "length path < AOSFS_PATH_MAX" "CHR 0x00 \<notin> set path"
    and name: "commands_leaf q = None" "contains_slash q \<or> initrd_get_file (initrd_memory s) (Some q) (fs_initrd s) = None"
    and parent: "has_parent (tree_of contents s) q"
    and f: "tree_of contents s q = Some f" "fv_kind f = AOSFS_ENTRY_SYMLINK"
    and target: "target \<noteq> []" "length target < AOSFS_PATH_MAX"
  shows "\<exists>s'. aosfs_symlink_path target path uid gid s0 = (False, s') \<and>
    trees contents s' = (trees contents s0)(g_active s := (tree_of contents s)(q := None))"
proof -
  note M = select_mounted [OF ok sel]
  note O = volume_okD [OF M(3)]
  obtain d where d: "aosfs_parent_path_of q AOSFS_PATH_MAX = Some d" "tree_dir (tree_of contents s) d" and q: "q \<noteq> []"
    using parent by (auto simp: has_parent_def)
  have dir: "dir_exists d s" using d(2) dir_exists_tree [OF O(2)] by (simp add: tree_of_def)
  have len: "length q < AOSFS_PATH_MAX" using select_suffix [OF sel] path(2) by auto
  obtain i where i: "slot_of ae_in_use ae_path (ai_entries (active s)) q = Some i"
    using f(1) by (metis tree_None tree_of_def option.distinct(1) option.exhaust)
  note S = slot_facts [OF O(2) i]
  have e: "view (volume_bytes contents s) (ai_entries (active s) ! i) = f" using S(5) f(1) by (simp add: tree_of_def)
  have kind: "ae_kind (ai_entries (active s) ! i) = AOSFS_ENTRY_SYMLINK" using arg_cong [OF e, of fv_kind] f(2) by (simp add: view_def)
  have nd: "AOSFS_ENTRY_SYMLINK \<noteq> AOSFS_ENTRY_DIRECTORY" "AOSFS_ENTRY_SYMLINK \<noteq> AOSFS_ENTRY_REGULAR"
    by (simp_all add: AOSFS_ENTRY_SYMLINK_def AOSFS_ENTRY_DIRECTORY_def AOSFS_ENTRY_REGULAR_def)
  have create: "aosfs_create_path_mode path AOSFS_DEFAULT_SYMLINK_MODE uid gid s0 = (Some (fill_dynamic_node i s), s)"
    using path(1,2) q len name d(1) dir i kind nd(1) aosfs_find_slot [OF O(2), of q]
    by (auto simp add: aosfs_create_path_mode_def sel Let_def entry_at_def)
  have again: "select_instance_for_path path s = (q, s)" by (rule vol_update_select(1) [OF sel vol_update_refl [OF M(3)]])
  have op: "aosfs_symlink_path target path uid gid s0 = (False, snd (aosfs_unlink_path path s))"
    using target create again i kind nd(2) entry_index_slot [OF O(2), of q]
    by (simp add: aosfs_symlink_path_def entry_at_def Let_def)
  have "vol_update bid invar contents s ((tree_of contents s)(q := None)) (snd (aosfs_unlink_path path s))"
    using unlink_undo [OF again M(3) path(1) q f(1)] f(2) nd(1) by simp
  then show ?thesis using op fs_ok_update(2) [OF ok sel] by blast
qed

end

section \<open>A sample system\<close>

definition sample_blk :: "unit blk_state" where
  "sample_blk = snd (blkdev_register_memory (Some ''ram0'') 0x100000 0x900000 512 0
     (blkdev_init \<lparr>g_blkdevs = [], memory = (\<lambda>_. 0), disk = ()\<rparr>))"

definition sample_boot :: "unit aosfs_state" where
  "sample_boot = aosfs_init \<lparr>g_instances = [], g_active = 0, g_memory_data = [], fs_blk = sample_blk,
     fs_parts = partition_init \<lparr>g_partitions = [], g_partition_count = 0, g_next_offset = 0\<rparr>, fs_initrd = \<lparr>g_initrd_start = 0, g_initrd_end = 0\<rparr>\<rparr>"

definition sample_fs :: "unit aosfs_state" where
  "sample_fs = snd (aosfs_format_role PARTITION_ROLE_ROOT 0 0 sample_boot)"

lemma sample_device: "blkdev_get 0 sample_blk = Some (blkdev_zero\<lparr>bd_in_use := True, bd_block_size := 512,
    bd_size := 0x800000, bd_data := 0x100000, bd_name := ''ram0''\<rparr>)"
  by (simp add: sample_blk_def blkdev_register_memory_def blkdev_init_def blkdev_get_def BLKDEV_MAX_def blkdev_zero_def
      BLKDEV_NAME_MAX_def name_string_def copy_string_fits slot_simps)


lemma sample_start:
  "length (g_instances sample_boot) = 8" "mem_device 0 (fs_blk sample_boot)" "\<not> mounted_at sample_boot k"
  "fs_initrd sample_boot = \<lparr>g_initrd_start = 0, g_initrd_end = 0\<rparr>"
  "active_storage_size (format_start PARTITION_ROLE_ROOT 0 0 sample_boot) = 0x800000"
proof -
  show len: "length (g_instances sample_boot) = 8" by (simp add: sample_boot_def aosfs_init_def)
  show "mem_device 0 (fs_blk sample_boot)" by (simp add: sample_boot_def aosfs_init_def mem_device_def sample_device blkdev_zero_def)
  show "\<not> mounted_at sample_boot k"
    by (auto simp: mounted_at_def sample_boot_def aosfs_init_def fresh_instance_def aosfs_instance_zero_def)
  show "fs_initrd sample_boot = \<lparr>g_initrd_start = 0, g_initrd_end = 0\<rparr>" by (simp add: sample_boot_def aosfs_init_def)
  note F = format_start_facts [OF len, of PARTITION_ROLE_ROOT 0 0]
  have parts: "partition_find_by_role r (fs_parts (format_start PARTITION_ROLE_ROOT 0 0 sample_boot)) = None" for r
    unfolding F(4) by (simp add: sample_boot_def aosfs_init_def partition_init_def partition_find_by_role_def)
  have blk: "fs_blk sample_boot = sample_blk" by (simp add: sample_boot_def aosfs_init_def)
  show "active_storage_size (format_start PARTITION_ROLE_ROOT 0 0 sample_boot) = 0x800000"
    by (simp add: active_storage_size_def Let_def F(3,5) blk sample_device parts)
qed

lemma sample_facts:
  "fs_ok 0 (mem_device 0) (mem_contents 0) sample_fs" "trees (mem_contents 0) sample_fs = (\<lambda>_. Map.empty)"
  "g_active sample_fs = 1" "active_storage_size sample_fs = 0x800000"
  "fs_initrd sample_fs = \<lparr>g_initrd_start = 0, g_initrd_end = 0\<rparr>"
  "ai_entry_limit (active sample_fs) = AOSFS_MAX_ENTRIES" "ai_next_data_offset (active sample_fs) = AOSFS_DATA_OFFSET"
  "\<not> ae_in_use (ai_entries (active sample_fs) ! 0)" "aosfs_format_role PARTITION_ROLE_ROOT 0 0 sample_boot = (True, sample_fs)"
proof -
  let ?u = "format_start PARTITION_ROLE_ROOT 0 0 sample_boot"
  have root: "(of_nat 1 :: u8) = PARTITION_ROLE_ROOT" "1 = unat PARTITION_ROLE_ROOT" by (simp_all add: PARTITION_ROLE_ROOT_def)
  note F = format_start_facts [OF sample_start(1), of PARTITION_ROLE_ROOT 0 0]
  have "mounted_at ?u k \<Longrightarrow> k = 1" for k
    using sample_start(3) [of k] start_instances(1) [of k PARTITION_ROLE_ROOT 0 0 sample_boot] unat_root(2) root(2)
    by (metis mounted_at_def)
  then have others: "others_ok 0 (mem_device 0) (mem_contents 0) 1 ?u" by (auto simp: others_ok_def)
  obtain s' where s': "aosfs_format_role PARTITION_ROLE_ROOT 0 0 sample_boot = (True, s')" "fs_ok 0 (mem_device 0) (mem_contents 0) s'"
      "trees (mem_contents 0) s' = (trees (mem_contents 0) sample_boot)(1 := Map.empty)"
      "vol_update 0 (mem_device 0) (mem_contents 0) ?u Map.empty s'" "active s' = active ?u"
    using memstore.format_in_system [OF sample_start(1,2), of 1 _ 0, unfolded root(1), OF _ refl _ _ others] root(2) sample_start(5)
    by (auto simp: aosfs_layout_defs AOSFS_MAX_FILE_SIZE_def)
  have s: "sample_fs = s'" using s'(1) by (simp add: sample_fs_def)
  have none: "trees (mem_contents 0) sample_boot = (\<lambda>_. Map.empty)" using sample_start(3) by (simp add: trees_def fun_eq_iff)
  have od: "on_device 0 (mem_device 0) ?u"
    using F sample_start(2,5) by (simp add: on_device_def)
  obtain a V where st: "vol_step (mem_device 0) (mem_contents 0) ?u a V s'" using s'(4) by (auto simp: vol_update_def)
  note D = memstore.vol_stepD [OF od st]
  show "fs_ok 0 (mem_device 0) (mem_contents 0) sample_fs" "trees (mem_contents 0) sample_fs = (\<lambda>_. Map.empty)"
    "aosfs_format_role PARTITION_ROLE_ROOT 0 0 sample_boot = (True, sample_fs)"
    using s s'(1,2,3) none by auto
  show "g_active sample_fs = 1" using D(8) F(2) unat_root(2) root(2) s by simp
  show "active_storage_size sample_fs = 0x800000" using D(4) sample_start(5) s by simp
  show "fs_initrd sample_fs = \<lparr>g_initrd_start = 0, g_initrd_end = 0\<rparr>"
    using D(6) s sample_start(4) by (simp add: format_start_def update_active_def)
  show "ai_entry_limit (active sample_fs) = AOSFS_MAX_ENTRIES" "ai_next_data_offset (active sample_fs) = AOSFS_DATA_OFFSET"
    "\<not> ae_in_use (ai_entries (active sample_fs) ! 0)"
    using s'(5) s F(5) by (simp_all add: aosfs_instance_zero_def AOSFS_MAX_ENTRIES_def aosfs_entry_zero_def)
qed

lemma sample_select: "select_instance_for_path ''notes'' sample_fs = (''notes'', sample_fs)"
proof -
  have "instance_for_role PARTITION_ROLE_ROOT = 1" using unat_root(2) by (simp add: PARTITION_ROLE_ROOT_def)
  then have "sample_fs\<lparr>g_active := instance_for_role PARTITION_ROLE_ROOT\<rparr> = sample_fs"
    using sample_facts(3) at_instance_self [of sample_fs] by (simp add: at_instance_def)
  then show ?thesis
    by (simp add: select_instance_for_path_def skip_slashes_def selected_role_def role_from_selector_def Let_def)
qed

lemma sample_tree: "tree_of (mem_contents 0) sample_fs = Map.empty"
proof -
  have m: "mounted_at sample_fs (g_active sample_fs)" using sample_facts(1,3) by (simp add: fs_ok_def PARTITION_ROLE_ROOT_def)
  have "trees (mem_contents 0) sample_fs (g_active sample_fs) = tree_of (mem_contents 0) sample_fs"
    using m by (simp add: trees_def at_instance_self)
  then show ?thesis using sample_facts(2) by simp
qed

lemma sample_free:
  "commands_leaf ''notes'' = None" "initrd_get_file m (Some ''notes'') (fs_initrd sample_fs) = None"
  "has_parent T ''notes''" "n \<le> 65536 \<Longrightarrow> extent_capacity 0 n = 65536"
proof -
  show "commands_leaf ''notes'' = None" by (simp add: commands_leaf_def)
  show "initrd_get_file m (Some ''notes'') (fs_initrd sample_fs) = None"
    using get_file_loop.simps [of m 0 "''notes''" 0] by (simp add: sample_facts(5) initrd_get_file_def)
  have "aosfs_parent_path_of ''notes'' AOSFS_PATH_MAX = Some []"
    by (simp add: aosfs_parent_path_of_def last_slash_def AOSFS_PATH_MAX_def)
  then show "has_parent T ''notes''" by (simp add: has_parent_def tree_dir_def)
  show "n \<le> 65536 \<Longrightarrow> extent_capacity 0 n = 65536"
    by (simp add: extent_capacity_def grow_capacity.simps AOSFS_MIN_EXTENT_CAPACITY_def)
qed

lemma sample_length: "length [1, 2, 3, 4 :: u8] = 4"
  by simp

section \<open>Properties\<close>



text \<open>
  C3. However the file system is used, it stays sound: after any sequence of calls every mounted volume
  still has its table on disk equal to its table in memory, its files form a tree, the extents of any
  two files are disjoint, and every extent lies between the metadata and the end of the partition.\<close>

theorem aosfs_volumes_stay_sound:
  assumes "byte_store bid invar contents" "fs_ok bid invar contents s" "all_trees_closed contents s" "aosfs_step\<^sup>*\<^sup>* s s'"
  shows "fs_ok bid invar contents s' \<and> all_trees_closed contents s' \<and>
    (\<forall>k i j. mounted_at s' k \<and> i < AOSFS_MAX_ENTRIES \<and> j < AOSFS_MAX_ENTRIES \<and> i \<noteq> j \<longrightarrow>
       extents_apart (ai_entries (g_instances s' ! k) ! i) (ai_entries (g_instances s' ! k) ! j) \<and>
       extent_in (active_storage_size (at_instance k s')) (ai_entries (g_instances s' ! k) ! i))"
proof -
  have K: "fs_ok bid invar contents s'" "all_trees_closed contents s'"
    using byte_store.steps_keep [OF assms(1,4,2,3)] by auto
  have "extents_apart (ai_entries (g_instances s' ! k) ! i) (ai_entries (g_instances s' ! k) ! j)"
    "extent_in (active_storage_size (at_instance k s')) (ai_entries (g_instances s' ! k) ! i)"
    if "mounted_at s' k" "i < AOSFS_MAX_ENTRIES" "j < AOSFS_MAX_ENTRIES" "i \<noteq> j" for k i j
  proof -
    have v: "volume_inv (active_storage_size (at_instance k s')) (g_instances s' ! k) (volume_bytes contents (at_instance k s'))"
      using K(1) that(1) by (auto simp: fs_ok_def volume_ok_def)
    show "extents_apart (ai_entries (g_instances s' ! k) ! i) (ai_entries (g_instances s' ! k) ! j)"
      by (rule volume_inv_entry(4) [OF v that(2-4)])
    show "extent_in (active_storage_size (at_instance k s')) (ai_entries (g_instances s' ! k) ! i)"
      by (rule extent_in_mono [OF volume_inv_entry(2) [OF v that(2)] volume_inv_table(6) [OF v]])
  qed
  then show ?thesis using K by blast
qed

theorem aosfs_volumes_stay_sound_witness:
  "fs_ok 0 (mem_device 0) (mem_contents 0) (snd (run_call (Make_dir 0x1ED 0 0) ''docs'' sample_fs)) \<and>
   all_trees_closed (mem_contents 0) (snd (run_call (Make_dir 0x1ED 0 0) ''docs'' sample_fs))"
proof -
  have "aosfs_step\<^sup>*\<^sup>* sample_fs (snd (run_call (Make_dir 0x1ED 0 0) ''docs'' sample_fs))"
    by (rule r_into_rtranclp, rule aosfs_step.intros) (simp add: call_ok_def)
  moreover have "all_trees_closed (mem_contents 0) sample_fs"
    using sample_facts(2) tree_closed_empty by (simp add: all_trees_closed_def)
  ultimately show ?thesis
    using aosfs_volumes_stay_sound [OF memstore.byte_store_axioms sample_facts(1)] by blast
qed

text \<open>
  C4. Files survive a restart: whatever calls were made, when the driver is initialised again and the
  volume is mounted from the same block device, mounting succeeds and every file of the volume is
  there again, with the same attributes and contents; mounting changes no byte of the device.\<close>

theorem aosfs_files_survive_restart:
  assumes "byte_store bid invar contents" "fs_ok bid invar contents s" "all_trees_closed contents s" "aosfs_step\<^sup>*\<^sup>* s s'"
    and "mounted_at s k" "fs_blk r = fs_blk s'" "fs_parts r = fs_parts s'"
  shows "\<exists>t. aosfs_mount_role (of_nat k) bid (ai_base_offset (g_instances s' ! k)) (aosfs_init r) = (True, t) \<and>
    g_active t = k \<and> volume_ok bid invar contents t \<and> tree_of contents t = trees contents s' k \<and>
    contents (fs_blk t) = contents (fs_blk s')"
proof -
  have K: "fs_ok bid invar contents s'" "mounted_at s' k"
    using byte_store.steps_keep [OF assms(1,4,2,3)] assms(5) by auto
  have k: "k < 8" using K(2) by (simp add: mounted_at_def)
  have init: "length (g_instances (aosfs_init r)) = 8" "fs_blk (aosfs_init r) = fs_blk s'" "fs_parts (aosfs_init r) = fs_parts s'"
    "ai_role (g_instances (aosfs_init r) ! k) = of_nat k"
    using assms(6,7) k by (simp_all add: aosfs_init_def fresh_instance_def)
  show ?thesis by (rule byte_store.remount_keeps_files [OF assms(1) K init])
qed

theorem aosfs_files_survive_restart_witness:
  "\<exists>t. aosfs_mount_role 1 0 (ai_base_offset (g_instances sample_fs ! 1)) (aosfs_init sample_fs) = (True, t) \<and>
     tree_of (mem_contents 0) t = Map.empty"
proof -
  have "all_trees_closed (mem_contents 0) sample_fs"
    using sample_facts(2) tree_closed_empty by (simp add: all_trees_closed_def)
  moreover have "mounted_at sample_fs 1" using sample_facts(1) by (simp add: fs_ok_def PARTITION_ROLE_ROOT_def)
  ultimately show ?thesis
    using aosfs_files_survive_restart [OF memstore.byte_store_axioms sample_facts(1) _ rtranclp.rtrancl_refl, of 1 sample_fs]
      sample_facts(2) by auto
qed

text \<open>
  C19. A new file can be stored and read back: if the name is free, its directory exists, the table has a
  free entry and the partition has room for the extent, then creating the file, writing \<open>buf\<close> to it
  and reading it all succeed, the data read is \<open>buf\<close>, and no other file of any volume changes.\<close>

theorem aosfs_new_file_readback:
  assumes "byte_store bid invar contents" "fs_ok bid invar contents s0" "select_instance_for_path path s0 = (q, s)"
    and "path \<noteq> []" "length path < AOSFS_PATH_MAX" "CHR 0x00 \<notin> set path" "commands_leaf q = None"
    and "contains_slash q \<or> initrd_get_file (initrd_memory s) (Some q) (fs_initrd s) = None"
    and "has_parent (tree_of contents s) q" "tree_of contents s q = None"
    and "i < ai_entry_limit (active s)" "\<not> ae_in_use (ai_entries (active s) ! i)"
    and "buf \<noteq> []" "length buf \<le> AOSFS_MAX_FILE_SIZE"
    and "ai_next_data_offset (active s) + AOSFS_EXTENT_ALIGNMENT + extent_capacity 0 (length buf) \<le> active_storage_size s"
  shows "\<exists>node s1 s2 s3. aosfs_create_path_mode path mode uid gid s0 = (Some node, s1) \<and>
    aosfs_write_path path 0 buf s1 = (Some (length buf, length buf), s2) \<and>
    aosfs_read_path path 0 (length buf) s2 = (Some buf, s3) \<and>
    trees contents s2 = (trees contents s0)(g_active s := (tree_of contents s)(q \<mapsto>
      (new_file AOSFS_ENTRY_REGULAR mode uid gid (ai_next_inode (active s)))\<lparr>fv_data := buf\<rparr>))"
  using byte_store.store_new_file [OF assms] by blast

theorem aosfs_new_file_readback_witness:
  "\<exists>node s1 s2 s3. aosfs_create_path_mode ''notes'' 0x1A4 0 0 sample_fs = (Some node, s1) \<and>
     aosfs_write_path ''notes'' 0 [1, 2, 3, 4] s1 = (Some (4, 4), s2) \<and> aosfs_read_path ''notes'' 0 4 s2 = (Some [1, 2, 3, 4], s3)"
  using aosfs_new_file_readback [OF memstore.byte_store_axioms sample_facts(1) sample_select, of 0 "[1, 2, 3, 4]" "0x1A4" 0 0,
      unfolded sample_length] sample_free sample_facts(4,6,7,8)
  by (auto simp: sample_tree AOSFS_PATH_MAX_def AOSFS_MAX_ENTRIES_def AOSFS_MAX_FILE_SIZE_def AOSFS_DATA_OFFSET_def AOSFS_EXTENT_ALIGNMENT_def)

text \<open>
  C20. A symbolic link reads back as its target, cut to the size of the caller's buffer; only the link is
  added to the file system.\<close>

theorem aosfs_symlink_readback:
  assumes "byte_store bid invar contents" "fs_ok bid invar contents s0" "select_instance_for_path path s0 = (q, s)"
    and "path \<noteq> []" "length path < AOSFS_PATH_MAX" "CHR 0x00 \<notin> set path" "commands_leaf q = None"
    and "contains_slash q \<or> initrd_get_file (initrd_memory s) (Some q) (fs_initrd s) = None"
    and "has_parent (tree_of contents s) q" "tree_of contents s q = None"
    and "i < ai_entry_limit (active s)" "\<not> ae_in_use (ai_entries (active s) ! i)"
    and "target \<noteq> []" "length target < AOSFS_PATH_MAX"
    and "ai_next_data_offset (active s) + AOSFS_EXTENT_ALIGNMENT + extent_capacity 0 (length target) \<le> active_storage_size s"
  shows "\<exists>s1 s2. aosfs_symlink_path target path uid gid s0 = (True, s1) \<and>
    aosfs_readlink_path path cap s1 = (Some (map of_char (take cap target)), s2) \<and>
    trees contents s1 = (trees contents s0)(g_active s := (tree_of contents s)(q \<mapsto> link_file target uid gid (ai_next_inode (active s))))"
proof -
  obtain s1 where s1: "aosfs_symlink_path target path uid gid s0 = (True, s1)"
      "vol_update bid invar contents s ((tree_of contents s)(q \<mapsto> link_file target uid gid (ai_next_inode (active s)))) s1"
    using byte_store.symlink_succeeds [OF assms] by blast
  note U = byte_store.vol_update_select [OF assms(1,3) s1(2)]
  obtain s2 where "aosfs_readlink_path path cap s1 = (Some (map of_char (take cap target)), s2)"
    using byte_store.readlink_result [OF assms(1) U(1,2), of "link_file target uid gid (ai_next_inode (active s))" cap] U(3)
    by (auto simp: link_file_def new_file_def take_map)
  then show ?thesis using s1(1) byte_store.fs_ok_update(2) [OF assms(1,2,3) s1(2)] by blast
qed

theorem aosfs_symlink_readback_witness:
  "\<exists>s1 s2. aosfs_symlink_path ''/bin'' ''notes'' 0 0 sample_fs = (True, s1) \<and>
     aosfs_readlink_path ''notes'' 3 s1 = (Some (map of_char ''/bi''), s2)"
  using aosfs_symlink_readback [OF memstore.byte_store_axioms sample_facts(1) sample_select, of 0 "''/bin''" 0 0 3]
    sample_free sample_facts(4,6,7,8)
  by (auto simp: sample_tree AOSFS_PATH_MAX_def AOSFS_MAX_ENTRIES_def AOSFS_DATA_OFFSET_def AOSFS_EXTENT_ALIGNMENT_def)

text \<open>
  C21. Formatting a partition gives an empty volume and leaves the files of all other mounted volumes as
  they were, when the partition does not overlap theirs.\<close>

theorem aosfs_format_erases_one_volume:
  assumes "byte_store bid invar contents" "length (g_instances s) = 8" "invar (fs_blk s)" "k < 8"
    and "AOSFS_DATA_OFFSET \<le> active_storage_size (format_start (of_nat k) bid base s)"
    and "active_storage_size (format_start (of_nat k) bid base s) + AOSFS_MAX_FILE_SIZE < 2 ^ 64"
    and "others_ok bid invar contents k (format_start (of_nat k) bid base s)"
    and "k = unat PARTITION_ROLE_ROOT \<or> mounted_at s (unat PARTITION_ROLE_ROOT)"
  shows "\<exists>s'. aosfs_format_role (of_nat k) bid base s = (True, s') \<and> fs_ok bid invar contents s' \<and>
    trees contents s' = (trees contents s)(k := Map.empty)"
  using byte_store.format_in_system [OF assms(1-4) refl assms(5-8)] by blast

theorem aosfs_format_erases_one_volume_witness:
  "\<exists>s'. aosfs_format_role 1 0 0 sample_boot = (True, s') \<and> trees (mem_contents 0) s' = (\<lambda>_. Map.empty)"
proof -
  let ?u = "format_start (of_nat 1) 0 0 sample_boot"
  have root: "(of_nat 1 :: u8) = PARTITION_ROLE_ROOT" "unat PARTITION_ROLE_ROOT = 1" by (simp_all add: PARTITION_ROLE_ROOT_def)
  have "mounted_at ?u k \<Longrightarrow> k = 1" for k
    using sample_start(3) [of k] start_instances(1) [of k PARTITION_ROLE_ROOT 0 0 sample_boot] unat_root(2) root
    by (metis mounted_at_def)
  then have others: "others_ok 0 (mem_device 0) (mem_contents 0) 1 ?u" by (auto simp: others_ok_def)
  have size: "active_storage_size ?u = 0x800000" unfolding root(1) by (rule sample_start(5))
  have none: "trees (mem_contents 0) sample_boot = (\<lambda>_. Map.empty)" using sample_start(3) by (simp add: trees_def fun_eq_iff)
  obtain s' where "aosfs_format_role (of_nat 1) 0 0 sample_boot = (True, s')"
      "trees (mem_contents 0) s' = (trees (mem_contents 0) sample_boot)(1 := Map.empty)"
    using aosfs_format_erases_one_volume [OF memstore.byte_store_axioms sample_start(1,2) _ _ _ others] root(2) size
    by (auto simp: aosfs_layout_defs AOSFS_MAX_FILE_SIZE_def)
  then show ?thesis using none by auto
qed

text \<open>
  C28. Creating a symbolic link over an existing one does not fail cleanly: \<open>aosfs_symlink_path\<close> reports
  failure, and its cleanup has deleted the link that was there.\<close>

theorem aosfs_symlink_deletes_existing_link:
  assumes "byte_store bid invar contents" "fs_ok bid invar contents s0" "select_instance_for_path path s0 = (q, s)"
    and "path \<noteq> []" "length path < AOSFS_PATH_MAX" "CHR 0x00 \<notin> set path" "commands_leaf q = None"
    and "contains_slash q \<or> initrd_get_file (initrd_memory s) (Some q) (fs_initrd s) = None"
    and "has_parent (tree_of contents s) q" "tree_of contents s q = Some f" "fv_kind f = AOSFS_ENTRY_SYMLINK"
    and "target \<noteq> []" "length target < AOSFS_PATH_MAX"
  shows "\<exists>s'. aosfs_symlink_path target path uid gid s0 = (False, s') \<and>
    trees contents s' = (trees contents s0)(g_active s := (tree_of contents s)(q := None))"
  by (rule byte_store.symlink_over_link [OF assms])

theorem aosfs_symlink_deletes_existing_link_witness:
  "\<exists>s1 s2. aosfs_symlink_path ''/bin'' ''notes'' 0 0 sample_fs = (True, s1) \<and>
     aosfs_symlink_path ''/etc'' ''notes'' 0 0 s1 = (False, s2) \<and> trees (mem_contents 0) s2 1 ''notes'' = None"
proof -
  obtain s1 where s1: "aosfs_symlink_path ''/bin'' ''notes'' 0 0 sample_fs = (True, s1)"
      "vol_update 0 (mem_device 0) (mem_contents 0) sample_fs ((tree_of (mem_contents 0) sample_fs)
         (''notes'' \<mapsto> link_file ''/bin'' 0 0 (ai_next_inode (active sample_fs)))) s1"
    using memstore.symlink_succeeds [OF sample_facts(1) sample_select, of 0 "''/bin''" 0 0] sample_free sample_facts(4,6,7,8)
    by (auto simp: sample_tree AOSFS_PATH_MAX_def AOSFS_MAX_ENTRIES_def AOSFS_DATA_OFFSET_def AOSFS_EXTENT_ALIGNMENT_def)
  note U = memstore.vol_update_select [OF sample_select s1(2)]
  have ok: "fs_ok 0 (mem_device 0) (mem_contents 0) s1" by (rule memstore.fs_ok_update(1) [OF sample_facts(1) sample_select s1(2)])
  obtain a V where st: "vol_step (mem_device 0) (mem_contents 0) sample_fs a V s1" using s1(2) by (auto simp: vol_update_def)
  have od: "on_device 0 (mem_device 0) sample_fs"
    using select_mounted(3) [OF sample_facts(1) sample_select] by (simp add: volume_ok_def)
  note D = memstore.vol_stepD [OF od st]
  have init: "initrd_get_file m (Some ''notes'') (fs_initrd s1) = None" for m using sample_free(2) D(6) by simp
  have g: "g_active s1 = 1" using D(8) sample_facts(3) by simp
  obtain s2 where "aosfs_symlink_path ''/etc'' ''notes'' 0 0 s1 = (False, s2)"
      "trees (mem_contents 0) s2 = (trees (mem_contents 0) s1)(g_active s1 := (tree_of (mem_contents 0) s1)(''notes'' := None))"
    using aosfs_symlink_deletes_existing_link [OF memstore.byte_store_axioms ok U(1), of _ "''/etc''" 0 0] sample_free(1,3) init U(3)
    by (auto simp: AOSFS_PATH_MAX_def link_file_def new_file_def)
  then show ?thesis using s1(1) g by auto
qed

end
