(* ===== verification/Vfs_Links.thy ===== *)
theory Vfs_Links
  imports Vfs_Props
begin

text \<open>
  Lookups that follow symbolic links (\<open>lookup_with_links\<close> of kernel/vfs.c) over sound AOSFS volumes: they change
  no file and no mount point, a lookup that follows links never ends at a link, and links that lead in a
  circle end in an error.
\<close>

section \<open>Where a path leads on the AOSFS volumes\<close>

definition aosfs_route :: "string \<Rightarrow> 'd aosfs_state \<Rightarrow> nat \<times> string" where
  "aosfs_route path a = (case select_instance_for_path path a of (q, a') \<Rightarrow> (g_active a', q))"

definition aosfs_file :: "('d blk_state \<Rightarrow> bytes) \<Rightarrow> string \<Rightarrow> 'd aosfs_state \<Rightarrow> file_view option" where
  "aosfs_file contents path a = (case aosfs_route path a of (k, q) \<Rightarrow> trees contents a k q)"

lemma role_bound: "unat (role_from_selector x) < 8"
  by (simp add: role_from_selector_def partition_role_defs)

lemma route_same:
  assumes "mounted_at a' = mounted_at a" "length (g_instances a') = 8" "length (g_instances a) = 8"
  shows "aosfs_route path a' = aosfs_route path a"
proof -
  have m: "ai_mounted (g_instances a' ! k) = ai_mounted (g_instances a ! k)" if "k < 8" for k
    using assms(1) that by (auto simp: mounted_at_def fun_eq_iff)
  have role: "selected_role x a' = selected_role x a" for x
    using m [OF role_bound] by (simp add: selected_role_def Let_def)
  show ?thesis using m [OF instance_for_role_bound]
    by (simp add: aosfs_route_def select_instance_for_path_def role Let_def split: prod.split)
qed

lemma select_state: "select_instance_for_path path a = (q, a') \<Longrightarrow> a' = at_instance (g_active a') a"
  by (auto simp: select_instance_for_path_def Let_def at_instance_def split: prod.splits)

lemma lookup_state: "snd (aosfs_lookup_path path a) = at_instance (fst (aosfs_route path a)) a"
  using select_state [of path a]
  by (auto simp: aosfs_lookup_path_def aosfs_route_def split: prod.split option.split)

lemma dirent_state: "\<exists>k. snd (aosfs_dirent_at_index path index n a) = at_instance k a"
  using select_state [of path a] at_instance_self [of a]
  by (auto simp: aosfs_dirent_at_index_def Let_def split: prod.split) metis+

definition is_link :: "vfs_node option \<Rightarrow> bool" where
  "is_link r \<longleftrightarrow> (\<exists>node. r = Some node \<and> n_type node = VFS_NODE_TYPE_SYMLINK)"

definition link_view :: "file_view option \<Rightarrow> bool" where
  "link_view v \<longleftrightarrow> (\<exists>f. v = Some f \<and> fv_kind f = AOSFS_ENTRY_SYMLINK)"

text \<open>States that differ in nothing a file or a mount point depends on.\<close>

definition fs_same ::
  "u32 \<Rightarrow> ('d blk_state \<Rightarrow> bool) \<Rightarrow> ('d blk_state \<Rightarrow> bytes) \<Rightarrow> 'd aosfs_state \<Rightarrow> 'd aosfs_state \<Rightarrow> bool" where
  "fs_same bid invar contents a a' \<longleftrightarrow> fs_ok bid invar contents a' \<and> trees contents a' = trees contents a \<and>
     mounted_at a' = mounted_at a"

definition vfs_same ::
  "u32 \<Rightarrow> ('d blk_state \<Rightarrow> bool) \<Rightarrow> ('d blk_state \<Rightarrow> bytes) \<Rightarrow> ('d, 'o) vfs_state \<Rightarrow> ('d, 'o) vfs_state \<Rightarrow> bool" where
  "vfs_same bid invar contents s s' \<longleftrightarrow> g_mounts s' = g_mounts s \<and> vs_tmpfs s' = vs_tmpfs s \<and> vs_command s' = vs_command s \<and>
     fs_same bid invar contents (vs_aosfs s) (vs_aosfs s')"

lemma fs_same_file:
  assumes "fs_same bid invar contents a a'" "fs_ok bid invar contents a"
  shows "aosfs_route path a' = aosfs_route path a" "aosfs_file contents path a' = aosfs_file contents path a"
proof -
  show r: "aosfs_route path a' = aosfs_route path a"
    using assms by (intro route_same) (auto simp: fs_same_def fs_ok_def)
  show "aosfs_file contents path a' = aosfs_file contents path a"
    using assms(1) by (simp add: aosfs_file_def r fs_same_def split: prod.split)
qed

lemma fs_same_trans: "fs_same b i c x y \<Longrightarrow> fs_same b i c y z \<Longrightarrow> fs_same b i c x z"
  by (simp add: fs_same_def)

lemma fs_same_at: "fs_ok b i c a \<Longrightarrow> fs_same b i c a (at_instance k a)"
  by (simp add: fs_same_def)

lemma vfs_same_trans [trans]: "vfs_same b i c x y \<Longrightarrow> vfs_same b i c y z \<Longrightarrow> vfs_same b i c x z"
  using fs_same_trans by (fastforce simp: vfs_same_def)

lemma vfs_same_refl: "fs_ok b i c (vs_aosfs s) \<Longrightarrow> vfs_same b i c s s"
  by (simp add: vfs_same_def fs_same_def)

lemma vfs_same_ok: "vfs_same b i c s s' \<Longrightarrow> fs_ok b i c (vs_aosfs s')"
  by (simp add: vfs_same_def fs_same_def)

lemma on_disk_same: "fs_ok b i c (vs_aosfs s) \<Longrightarrow> vfs_same b i c s (snd (on_disk f s))"
  by (simp add: on_disk_def vfs_same_def fs_same_def split: prod.split)

lemma on_aosfs_same: "fs_same b i c (vs_aosfs s) (snd (f (vs_aosfs s))) \<Longrightarrow> vfs_same b i c s (snd (on_aosfs f s))"
  by (cases "f (vs_aosfs s)") (simp add: on_aosfs_def vfs_same_def)

lemma lookup_same: "fs_ok b i c a \<Longrightarrow> fs_same b i c a (snd (aosfs_lookup_path p a))"
  by (simp add: lookup_state fs_same_at)

lemma lookup_normalized_same:
  assumes "fs_ok b i c (vs_aosfs s)"
  shows "vfs_same b i c s (snd (lookup_normalized drv p s))"
proof -
  have L: "vfs_same b i c s s" "vfs_same b i c s (snd (on_aosfs (aosfs_lookup_path q) s))" for q
    by (rule vfs_same_refl [OF assms], rule on_aosfs_same, rule lookup_same [OF assms])
  have d: "vfs_same b i c s (snd (lookup_fat32_node drv q s))" "vfs_same b i c s (snd (lookup_ext4_node drv q s))" for q
    using on_disk_same [OF assms, of "df_lookup_path (drv_fat32 drv) q"] on_disk_same [OF assms, of "df_lookup_path (drv_ext4 drv) q"]
    by (auto simp: lookup_fat32_node_def lookup_ext4_node_def split: prod.split option.split)
  show ?thesis
    using L d by (auto simp: lookup_normalized_def Let_def split: option.split vfs_backend.split)
qed

section \<open>Walking a path\<close>

lemma walk_step:
  assumes "plain_path (ps @ c # cs)" "length (join_path (ps @ [c])) < MAX_VFS_PATH"
  shows "walk_components drv ff hop (join_path ps) (join_path (c # cs)) s =
    (case lookup_normalized drv (join_path (ps @ [c])) s of
       (None, s') \<Rightarrow> (Walk_failed, s')
     | (Some node, s') \<Rightarrow>
         if n_type node = VFS_NODE_TYPE_SYMLINK \<and> (ff \<or> cs \<noteq> [])
         then if hop = VFS_SYMLINK_LIMIT then (Walk_failed, s')
              else (case readlink_node node (MAX_VFS_PATH - 1) s' of
                      (None, s'') \<Rightarrow> (Walk_failed, s'')
                    | (Some target, s'') \<Rightarrow>
                        (case build_link_destination (join_path (ps @ [c])) (cstr target) (join_path cs) MAX_VFS_PATH of
                           None \<Rightarrow> (Walk_failed, s'')
                         | Some destination \<Rightarrow> (Walk_link destination, s'')))
         else walk_components drv ff hop (join_path (ps @ [c])) (join_path cs) s')"
proof -
  have plain: "plain_path ([c] @ cs)" "plain_path cs" using assms(1) by (simp_all add: plain_path_def)
  have ps: "\<forall>x \<in> set ps. component_ok x" and c: "component_ok c" and cs: "\<forall>x \<in> set cs. component_ok x"
    using plain_pathD [OF assms(1)] by simp_all
  have ne: "join_path (c # cs) \<noteq> []" using c cs join_path_Nil_iff [of "c # cs"] by simp
  have comp: "takeWhile (\<lambda>x. x \<noteq> slash) (join_path (c # cs)) = c"
    using component_prefix(2,4) [OF c] by (simp add: join_path_Cons del: takeWhile_eq_all_conv)
  have rest: "dropWhile (\<lambda>x. x = slash) (drop (length c) (join_path (c # cs))) = join_path cs"
    using rest_after_mount [OF plain(1)] by simp
  have app: "append_path_component (join_path ps) MAX_VFS_PATH c = Some (join_path (ps @ [c]))"
    using append_join [OF ps] assms(2) by simp
  have nil: "join_path cs \<noteq> [] \<longleftrightarrow> cs \<noteq> []" using join_path_Nil_iff [OF cs] by simp
  show ?thesis
    unfolding walk_components.simps [of drv ff hop "join_path ps" "join_path (c # cs)"] Let_def comp rest app option.case nil
    by (simp only: ne if_False)
qed

lemma walk_nil: "walk_components drv ff hop prefix [] s = (Walk_end, s)"
  by (simp add: walk_components.simps)

lemma join_prefix_shorter: "length (join_path (ps @ [c])) \<le> length (join_path (ps @ c # cs))"
  using join_append [of "ps @ [c]" cs] by (cases "cs = []") simp_all

context byte_store
begin

lemma read_same:
  assumes "fs_ok bid invar contents a"
  shows "fs_same bid invar contents a (snd (aosfs_read_path path off n a))"
proof -
  obtain q a1 where sel: "select_instance_for_path path a = (q, a1)" by fastforce
  note M = select_mounted [OF assms sel]
  define a2 where "a2 = snd (aosfs_read_path path off n a)"
  have a2: "vol_update bid invar contents a1 (tree_of contents a1) a2"
    using read_path_result [OF sel M(3), of off n] unfolding a2_def by (elim exE conjE) simp
  have t: "trees contents a (g_active a1) = tree_of contents a1"
    using M(1,2) by (simp add: trees_def flip: M(1))
  show ?thesis
    using fs_ok_update [OF assms sel a2] by (simp add: fs_same_def t [symmetric] flip: a2_def)
qed

lemma readlink_same:
  assumes "fs_ok bid invar contents a"
  shows "fs_same bid invar contents a (snd (aosfs_readlink_path path cap a))"
proof -
  obtain q a1 where sel: "select_instance_for_path path a = (q, a1)" by fastforce
  have at: "fs_same bid invar contents a a1" using fs_same_at [OF assms] select_state [OF sel] by metis
  then have "fs_ok bid invar contents a1" by (simp add: fs_same_def)
  then show ?thesis
    using at fs_same_trans [OF at read_same] by (auto simp: aosfs_readlink_path_def sel Let_def split: option.split)
qed

lemma readlink_node_same:
  "fs_ok bid invar contents (vs_aosfs s) \<Longrightarrow> vfs_same bid invar contents s (snd (readlink_node node cap s))"
  using on_aosfs_same [of bid invar contents s "aosfs_readlink_path (n_path node) cap"] readlink_same vfs_same_refl
  by (auto simp: readlink_node_def Let_def)

lemma walk_same:
  "fs_ok bid invar contents (vs_aosfs s) \<Longrightarrow> vfs_same bid invar contents s (snd (walk_components drv ff hop prefix cursor s))"
proof (induction drv ff hop prefix cursor s rule: walk_components.induct)
  case (1 drv ff hop prefix cursor s)
  let ?c = "takeWhile (\<lambda>c. c \<noteq> slash) cursor"
  let ?r = "dropWhile (\<lambda>c. c = slash) (drop (length ?c) cursor)"
  show ?case
  proof (cases "cursor = [] \<or> append_path_component prefix MAX_VFS_PATH ?c = None")
    case True
    then show ?thesis using vfs_same_refl [OF "1.prems"] by (auto simp: walk_components.simps [of drv ff hop prefix cursor s] Let_def)
  next
    case False
    then obtain p where p: "cursor \<noteq> []" "append_path_component prefix MAX_VFS_PATH ?c = Some p" by auto
    obtain r s1 where l: "lookup_normalized drv p s = (r, s1)" by fastforce
    have same: "vfs_same bid invar contents s s1" using lookup_normalized_same [OF "1.prems", of drv p] l by simp
    show ?thesis
    proof (cases r)
      case None
      then show ?thesis using same p l by (simp add: walk_components.simps [of drv ff hop prefix cursor s] Let_def)
    next
      case (Some node)
      obtain t s2 where t: "readlink_node node (MAX_VFS_PATH - 1) s1 = (t, s2)" by fastforce
      have same2: "vfs_same bid invar contents s s2"
        using vfs_same_trans [OF same] readlink_node_same [OF vfs_same_ok [OF same], of node "MAX_VFS_PATH - 1"] t by simp
      show ?thesis
      proof (cases "n_type node = VFS_NODE_TYPE_SYMLINK \<and> (ff \<or> ?r \<noteq> [])")
        case True
        then show ?thesis
          using same same2 p l t Some
          by (auto simp: walk_components.simps [of drv ff hop prefix cursor s] Let_def split: option.split)
      next
        case False
        then have w: "walk_components drv ff hop prefix cursor s = walk_components drv ff hop p ?r s1"
          unfolding walk_components.simps [of drv ff hop prefix cursor s] Let_def p(2) option.case l Some prod.case
          using p(1) by (simp only: if_False)
        show ?thesis
          unfolding w
          by (rule vfs_same_trans [OF same "1.IH" [OF p(1) refl refl p(2) l [symmetric] Some False vfs_same_ok [OF same]]])
      qed
    qed
  qed
qed

lemma hops_same:
  "fs_ok bid invar contents (vs_aosfs s) \<Longrightarrow> vfs_same bid invar contents s (snd (lookup_hops drv ff left current s))"
proof (induction left arbitrary: current s)
  case 0
  then show ?case by (simp add: vfs_same_refl)
next
  case (Suc left)
  obtain w s1 where w: "walk_components drv ff (VFS_SYMLINK_LIMIT - left) [] current s = (w, s1)" by fastforce
  have same: "vfs_same bid invar contents s s1" using walk_same [OF Suc.prems, of drv ff "VFS_SYMLINK_LIMIT - left" "[]" current] w by simp
  note N = vfs_same_trans [OF same Suc.IH [OF vfs_same_ok [OF same]]]
    vfs_same_trans [OF same lookup_normalized_same [OF vfs_same_ok [OF same]]]
  show ?case using same N by (cases w) (simp_all add: w)
qed

lemma links_same:
  "fs_ok bid invar contents (vs_aosfs s) \<Longrightarrow> vfs_same bid invar contents s (snd (lookup_with_links drv path ff s))"
  by (simp add: lookup_with_links_def hops_same vfs_same_refl del: lookup_hops.simps split: option.split)

end

section \<open>Where lookups end\<close>

lemma no_link:
  "\<not> is_link (lookup_initrd_node q b)" "\<not> is_link (fst (lookup_fat32_node drv q t))" "\<not> is_link (fst (lookup_ext4_node drv q t))"
  by (auto simp: lookup_initrd_node_def lookup_fat32_node_def lookup_ext4_node_def is_link_def split: option.split prod.split)

context byte_store
begin

lemma aosfs_lookup_link:
  assumes "fs_ok bid invar contents a"
  shows "is_link (fst (aosfs_lookup_path path a)) \<longleftrightarrow> link_view (aosfs_file contents path a)"
proof -
  obtain q a1 where sel: "select_instance_for_path path a = (q, a1)" by fastforce
  note M = select_mounted [OF assms sel]
  note inv = volume_okD(2) [OF M(3)]
  have t: "aosfs_file contents path a = tree_of contents a1 q"
    using M(1,2) by (simp add: aosfs_file_def aosfs_route_def sel trees_def flip: M(1))
  show ?thesis
  proof (cases "slot_of ae_in_use ae_path (ai_entries (active a1)) q")
    case None
    then have "\<not> link_view (aosfs_file contents path a)"
      using tree_None [of "active a1" "volume_bytes contents a1" q] by (simp add: t tree_of_def link_view_def)
    moreover have "\<not> is_link (fst (aosfs_lookup_path path a))"
      using None by (auto simp: aosfs_lookup_path_def sel aosfs_find_slot [OF inv] is_link_def fill_dir_node_def fill_file_node_def
          split: option.split prod.split)
    ultimately show ?thesis by simp
  next
    case (Some i)
    let ?e = "ai_entries (active a1) ! i"
    have "is_link (fst (aosfs_lookup_path path a)) \<longleftrightarrow> ae_kind ?e = AOSFS_ENTRY_SYMLINK"
      using Some by (simp add: aosfs_lookup_path_def sel aosfs_find_slot [OF inv] is_link_def fill_dynamic_node_def entry_at_def Let_def
          AOSFS_ENTRY_SYMLINK_def AOSFS_ENTRY_DIRECTORY_def)
    then show ?thesis using slot_facts(5) [OF inv Some] by (simp add: t tree_of_def link_view_def view_def)
  qed
qed

lemma on_aosfs_link:
  assumes "fs_ok bid invar contents (vs_aosfs s)"
  shows "is_link (fst (on_aosfs (aosfs_lookup_path p) s)) \<longleftrightarrow> link_view (aosfs_file contents p (vs_aosfs s))"
  using aosfs_lookup_link [OF assms] by (simp add: on_aosfs_def split: prod.split) (metis fst_conv)

lemma lookup_link_same:
  assumes same: "vfs_same bid invar contents s s'" and ok: "fs_ok bid invar contents (vs_aosfs s)"
  shows "is_link (fst (lookup_normalized drv p s')) \<longleftrightarrow> is_link (fst (lookup_normalized drv p s))"
proof -
  have s': "g_mounts s' = g_mounts s" "vs_tmpfs s' = vs_tmpfs s" "vs_command s' = vs_command s"
      "fs_same bid invar contents (vs_aosfs s) (vs_aosfs s')"
    using same by (simp_all add: vfs_same_def)
  have a: "is_link (fst (on_aosfs (aosfs_lookup_path q) s')) \<longleftrightarrow> is_link (fst (on_aosfs (aosfs_lookup_path q) s))" for q
    using on_aosfs_link [OF ok] on_aosfs_link [OF vfs_same_ok [OF same]] fs_same_file(2) [OF s'(4) ok] by simp
  show ?thesis
    using a by (simp add: lookup_normalized_def s' no_link Let_def split: option.split vfs_backend.split)
qed

lemma walk_ends_off_link:
  assumes "plain_path (ps @ cs)" "length (join_path (ps @ cs)) < MAX_VFS_PATH" "fs_ok bid invar contents (vs_aosfs s)" "cs \<noteq> []"
    and "walk_components drv True hop (join_path ps) (join_path cs) s = (Walk_end, s')"
  shows "\<not> is_link (fst (lookup_normalized drv (join_path (ps @ cs)) s'))"
  using assms
proof (induction cs arbitrary: ps s)
  case (Cons c cs)
  have short: "length (join_path (ps @ [c])) < MAX_VFS_PATH" using Cons.prems(2) join_prefix_shorter [of ps c cs] by simp
  note W = walk_step [OF Cons.prems(1) short, of drv True hop s]
  obtain r s1 where l: "lookup_normalized drv (join_path (ps @ [c])) s = (r, s1)" by fastforce
  have same: "vfs_same bid invar contents s s1" using lookup_normalized_same [OF Cons.prems(3)] l by (metis snd_conv)
  obtain node where node: "r = Some node" "n_type node \<noteq> VFS_NODE_TYPE_SYMLINK"
      "walk_components drv True hop (join_path (ps @ [c])) (join_path cs) s1 = (Walk_end, s')"
    using Cons.prems(5) unfolding W l by (auto split: option.splits if_splits prod.splits)
  show ?case
  proof (cases "cs = []")
    case True
    then have s': "s' = s1" using node(3) by (simp add: walk_nil)
    have "\<not> is_link (fst (lookup_normalized drv (join_path (ps @ [c])) s))" using node l by (simp add: is_link_def)
    then show ?thesis using lookup_link_same [OF same Cons.prems(3)] s' True by simp
  next
    case False
    then show ?thesis
      using Cons.IH [of "ps @ [c]" s1] Cons.prems(1,2) node(3) vfs_same_ok [OF same] by simp
  qed
qed simp

end

lemma destination_normal: "build_link_destination p t r n = Some d \<Longrightarrow> \<exists>x. normalize_path (Some x) n = Some d"
  by (auto simp: build_link_destination_def Let_def split: option.splits if_splits)

lemma walk_link_normal:
  "plain_path (ps @ cs) \<Longrightarrow> length (join_path (ps @ cs)) < MAX_VFS_PATH \<Longrightarrow>
   walk_components drv ff hop (join_path ps) (join_path cs) s = (Walk_link d, s') \<Longrightarrow> \<exists>x. normalize_path (Some x) MAX_VFS_PATH = Some d"
proof (induction cs arbitrary: ps s)
  case Nil
  then show ?case by (simp add: walk_nil)
next
  case (Cons c cs)
  have short: "length (join_path (ps @ [c])) < MAX_VFS_PATH" using Cons.prems(2) join_prefix_shorter [of ps c cs] by simp
  show ?case
    using Cons.prems(3) Cons.IH [of "ps @ [c]"] Cons.prems(1,2) unfolding walk_step [OF Cons.prems(1) short]
    by (auto split: option.splits if_splits prod.splits intro: destination_normal)
qed

lemma normal_fits_plain:
  "normalize_path (Some x) MAX_VFS_PATH = Some d \<Longrightarrow> \<exists>cs. d = join_path cs \<and> plain_path cs \<and> length d < MAX_VFS_PATH"
  using normalize_path_result [of x MAX_VFS_PATH d] plain_normal by (auto simp: normal_path_def)

context byte_store
begin

lemma root_no_link:
  assumes "fs_ok bid invar contents (vs_aosfs s)" "all_trees_closed contents (vs_aosfs s)"
  shows "\<not> is_link (fst (lookup_normalized drv [] s))"
proof -
  obtain k q where r: "aosfs_route [] (vs_aosfs s) = (k, q)" by fastforce
  then have "q = []" using select_suffix [of "[]" "vs_aosfs s"] by (auto simp: aosfs_route_def split: prod.splits)
  moreover have "trees contents (vs_aosfs s) k [] = None"
    using assms(2) by (auto simp: all_trees_closed_def tree_closed_def has_parent_def)
  ultimately have "\<not> link_view (aosfs_file contents [] (vs_aosfs s))" by (simp add: aosfs_file_def r link_view_def)
  then show ?thesis using on_aosfs_link [OF assms(1)] by (simp add: lookup_normalized_def)
qed

lemma hops_no_link:
  assumes "plain_path cs" "length (join_path cs) < MAX_VFS_PATH" "fs_ok bid invar contents (vs_aosfs s)"
    and "all_trees_closed contents (vs_aosfs s)"
  shows "\<not> is_link (fst (lookup_hops drv True left (join_path cs) s))"
  using assms
proof (induction left arbitrary: cs s)
  case 0
  then show ?case by (simp add: is_link_def)
next
  case (Suc left)
  obtain w s1 where w: "walk_components drv True (VFS_SYMLINK_LIMIT - left) [] (join_path cs) s = (w, s1)" by fastforce
  have same: "vfs_same bid invar contents s s1"
    using walk_same [OF Suc.prems(3), of drv True "VFS_SYMLINK_LIMIT - left" "[]" "join_path cs"] w by simp
  have closed: "all_trees_closed contents (vs_aosfs s1)"
    using Suc.prems(4) same by (simp add: all_trees_closed_def vfs_same_def fs_same_def)
  show ?case
  proof (cases w)
    case Walk_failed
    then show ?thesis using w by (simp add: is_link_def)
  next
    case Walk_end
    then show ?thesis
      using w walk_ends_off_link [of "[]" cs s drv "VFS_SYMLINK_LIMIT - left" s1] Suc.prems(1-3) root_no_link [OF vfs_same_ok [OF same] closed]
      by (cases "cs = []") simp_all
  next
    case (Walk_link d)
    obtain x where "normalize_path (Some x) MAX_VFS_PATH = Some d"
      using walk_link_normal [of "[]" cs drv True _ s d s1] Suc.prems(1,2) w Walk_link by auto
    then obtain ds where "d = join_path ds" "plain_path ds" "length d < MAX_VFS_PATH" using normal_fits_plain by blast
    then show ?thesis using Suc.IH [of ds s1] vfs_same_ok [OF same] closed w Walk_link by simp
  qed
qed

end

text \<open>
  C35. A lookup that follows symbolic links never hands out a link: whatever it finds is a file, a
  directory or a device, on sound AOSFS volumes and whatever the other drivers answer.\<close>

theorem vfs_lookup_resolves_links:
  assumes "byte_store bid invar contents" "fs_ok bid invar contents (vs_aosfs s)" "all_trees_closed contents (vs_aosfs s)"
  shows "case vfs_lookup drv path s of (Some node, s') \<Rightarrow> n_type node \<noteq> VFS_NODE_TYPE_SYMLINK | (None, s') \<Rightarrow> True"
proof -
  have "\<not> is_link (fst (vfs_lookup drv path s))"
  proof (cases "normalize_path path MAX_VFS_PATH")
    case None
    then show ?thesis by (simp add: vfs_lookup_def lookup_with_links_def is_link_def)
  next
    case (Some d)
    then obtain x where "path = Some x" by (auto simp: normalize_path_def split: option.splits)
    then obtain cs where "d = join_path cs" "plain_path cs" "length d < MAX_VFS_PATH" using normal_fits_plain Some by blast
    then show ?thesis
      using byte_store.hops_no_link [OF assms(1) _ _ assms(2,3)] Some
      by (simp add: vfs_lookup_def lookup_with_links_def del: lookup_hops.simps)
  qed
  then show ?thesis by (auto simp: is_link_def split: prod.splits option.splits)
qed

text \<open>A small system: the mounts made at boot over one formatted root volume.\<close>

definition sample_vfs :: "unit aosfs_state \<Rightarrow> (unit, unit) vfs_state" where
  "sample_vfs a = \<lparr>g_mounts = fold (\<lambda>(path, backend, root) ms. snd (vfs_mount (Some path) backend (Some root) ms))
       init_mount_list (replicate VFS_MAX_MOUNTS vfs_mount_zero),
     vs_tmpfs = \<lparr>g_tmpfs_entries = [], g_tmpfs_next_inode = 1\<rparr>, vs_aosfs = a, vs_disk = (), vs_command = []\<rparr>"

lemma sample_closed: "all_trees_closed (mem_contents 0) sample_fs"
  by (simp add: all_trees_closed_def sample_facts(2) tree_closed_empty)

theorem vfs_lookup_resolves_links_witness:
  "\<forall>drv path. case vfs_lookup drv path (sample_vfs sample_fs) of
     (Some node, s') \<Rightarrow> n_type node \<noteq> VFS_NODE_TYPE_SYMLINK | (None, s') \<Rightarrow> True"
  using vfs_lookup_resolves_links [OF memstore.byte_store_axioms, of 0 "sample_vfs sample_fs"] sample_facts(1) sample_closed
  by (simp add: sample_vfs_def)

section \<open>Links that lead in a circle\<close>

definition link_leads :: "('d blk_state \<Rightarrow> bytes) \<Rightarrow> ('d, 'o) vfs_state \<Rightarrow> string \<Rightarrow> string \<Rightarrow> bool" where
  "link_leads contents s p d \<longleftrightarrow> plain_component p \<and> length p < NODE_PATH_BYTES \<and> p \<noteq> ''dev'' \<and>
     (\<exists>m. find_mount_for_path p MAX_VFS_PATH (g_mounts s) = Some (m, p) \<and> vm_backend m = VFS_BACKEND_AOSFS) \<and>
     aosfs_route p (vs_aosfs s) = (unat PARTITION_ROLE_ROOT, p) \<and>
     (\<exists>f. aosfs_file contents p (vs_aosfs s) = Some f \<and> fv_kind f = AOSFS_ENTRY_SYMLINK \<and>
        build_link_destination p (cstr (take (MAX_VFS_PATH - 1) (fv_data f))) [] MAX_VFS_PATH = Some d)"

lemma link_leads_same:
  assumes "vfs_same bid invar contents s s'" "fs_ok bid invar contents (vs_aosfs s)"
  shows "link_leads contents s' p d = link_leads contents s p d"
  using assms fs_same_file [of bid invar contents "vs_aosfs s" "vs_aosfs s'" p] by (simp add: link_leads_def vfs_same_def)

lemma plain_not_device:
  assumes "plain_component p"
  shows "p \<noteq> []" "\<not> path_equals p ''dev/console''" "\<not> path_equals p ''dev/tty0''" "\<not> path_equals p ''dev/null''"
    "\<not> path_equals p ''dev/urandom''" "plain_path [p]"
  using assms by (auto simp: plain_component_def component_ok_def path_equals_eq plain_path_def)

context byte_store
begin

lemma walk_link:
  assumes ok: "fs_ok bid invar contents (vs_aosfs s)" and leads: "link_leads contents s p d"
  shows "\<exists>s'. walk_components drv True hop [] p s = (if hop = VFS_SYMLINK_LIMIT then Walk_failed else Walk_link d, s')"
proof -
  obtain f m where L: "plain_component p" "length p < NODE_PATH_BYTES" "p \<noteq> ''dev''"
      "find_mount_for_path p MAX_VFS_PATH (g_mounts s) = Some (m, p)" "vm_backend m = VFS_BACKEND_AOSFS"
      "aosfs_route p (vs_aosfs s) = (unat PARTITION_ROLE_ROOT, p)" "aosfs_file contents p (vs_aosfs s) = Some f"
      "fv_kind f = AOSFS_ENTRY_SYMLINK" "build_link_destination p (cstr (take (MAX_VFS_PATH - 1) (fv_data f))) [] MAX_VFS_PATH = Some d"
    using leads unfolding link_leads_def by blast
  note N = plain_not_device [OF L(1)]
  let ?a = "vs_aosfs s"
  obtain a1 where sel: "select_instance_for_path p ?a = (p, a1)" "g_active a1 = unat PARTITION_ROLE_ROOT"
    using L(6) by (auto simp: aosfs_route_def split: prod.splits)
  note M = select_mounted [OF ok sel(1)]
  note inv = volume_okD(2) [OF M(3)]
  have tree: "tree_of contents a1 p = Some f"
    using L(6,7) M(1,2) sel(2) by (simp add: aosfs_file_def trees_def flip: M(1))
  then obtain i where i: "slot_of ae_in_use ae_path (ai_entries (active a1)) p = Some i"
    by (metis tree_None tree_of_def option.distinct(1) option.exhaust)
  note S = slot_facts [OF inv i]
  have role: "ai_role (active a1) = PARTITION_ROLE_ROOT"
    using ok M(1,2) sel(2) by (auto simp: fs_ok_def active_def at_instance_def)
  let ?node = "fill_dynamic_node i a1"
  have kind: "ae_kind (ai_entries (active a1) ! i) = AOSFS_ENTRY_SYMLINK" using S(5) tree L(8) by (auto simp: tree_of_def view_def)
  have node: "n_type ?node = VFS_NODE_TYPE_SYMLINK" "n_backend ?node = VFS_BACKEND_AOSFS" "n_path ?node = p"
    using kind S(4) L(2) role
    by (simp_all add: fill_dynamic_node_def entry_at_def Let_def make_node_path_def copy_string_fits AOSFS_ENTRY_SYMLINK_def
        AOSFS_ENTRY_DIRECTORY_def NODE_PATH_BYTES_def VFS_PATH_BYTES_def)
  have look: "lookup_normalized drv p s = (Some ?node, s\<lparr>vs_aosfs := a1\<rparr>)"
    using N L(3-5) i by (simp add: lookup_normalized_def path_equals_eq on_aosfs_def aosfs_lookup_path_def sel(1) aosfs_find_slot [OF inv])
  have sel1: "select_instance_for_path p a1 = (p, a1)" by (rule vol_update_select(1) [OF sel(1) vol_update_refl [OF M(3)]])
  obtain a2 where read: "aosfs_readlink_path p (MAX_VFS_PATH - 1) a1 = (Some (take (MAX_VFS_PATH - 1) (fv_data f)), a2)"
    using readlink_result [OF sel1 M(3) tree L(8)] by blast
  have short: "length (join_path ([] @ [p])) < MAX_VFS_PATH" using L(2) by (simp add: NODE_PATH_BYTES_def MAX_VFS_PATH_def)
  have "readlink_node ?node (MAX_VFS_PATH - 1) (s\<lparr>vs_aosfs := a1\<rparr>) = (Some (take (MAX_VFS_PATH - 1) (fv_data f)), s\<lparr>vs_aosfs := a2\<rparr>)"
    using node read by (simp add: readlink_node_def on_aosfs_def)
  then show ?thesis
    using walk_step [of "[]" p "[]" drv True hop s] N(6) short look node(1) L(9) by simp
qed

lemma hops_cycle:
  assumes "fs_ok bid invar contents (vs_aosfs s)" "\<forall>p \<in> L. \<exists>d \<in> L. link_leads contents s p d" "p \<in> L" "left \<le> VFS_SYMLINK_LIMIT + 1"
  shows "fst (lookup_hops drv True left p s) = None"
  using assms
proof (induction left arbitrary: p s)
  case (Suc left)
  obtain d where d: "d \<in> L" "link_leads contents s p d" using Suc.prems(2,3) by blast
  obtain w s1 where w: "walk_components drv True (VFS_SYMLINK_LIMIT - left) [] p s = (w, s1)" by fastforce
  have same: "vfs_same bid invar contents s s1"
    using walk_same [OF Suc.prems(1), of drv True "VFS_SYMLINK_LIMIT - left" "[]" p] w by simp
  have "w = (if left = 0 then Walk_failed else Walk_link d)"
    using walk_link [OF Suc.prems(1) d(2), of drv "VFS_SYMLINK_LIMIT - left"] w Suc.prems(4) by (auto simp: VFS_SYMLINK_LIMIT_def split: if_splits)
  moreover have "fst (lookup_hops drv True left d s1) = None"
    using Suc.IH [of s1 d] vfs_same_ok [OF same] link_leads_same [OF same Suc.prems(1)] Suc.prems(2,4) d(1) by simp
  ultimately show ?case using w by simp
qed simp

end


lemma sample_self_link:
  "\<exists>a. aosfs_symlink_path ''notes'' ''notes'' 0 0 sample_fs = (True, a) \<and> fs_ok 0 (mem_device 0) (mem_contents 0) a \<and>
     link_leads (mem_contents 0) (sample_vfs a) ''notes'' ''notes''"
proof -
  let ?f = "link_file ''notes'' 0 0 (ai_next_inode (active sample_fs))"
  obtain a where a: "aosfs_symlink_path ''notes'' ''notes'' 0 0 sample_fs = (True, a)"
      "vol_update 0 (mem_device 0) (mem_contents 0) sample_fs ((tree_of (mem_contents 0) sample_fs)(''notes'' \<mapsto> ?f)) a"
    using memstore.symlink_succeeds [OF sample_facts(1) sample_select, of 0 "''notes''" 0 0] sample_free sample_facts(4,6,7,8)
    by (auto simp: sample_tree AOSFS_PATH_MAX_def AOSFS_MAX_ENTRIES_def AOSFS_DATA_OFFSET_def AOSFS_EXTENT_ALIGNMENT_def)
  note U = memstore.fs_ok_update [OF sample_facts(1) sample_select a(2)]
  note V = memstore.vol_update_select [OF sample_select a(2)]
  have same: "aosfs_route ''notes'' a = aosfs_route ''notes'' sample_fs"
    using U(1,3) sample_facts(1) by (intro route_same) (auto simp: fs_ok_def)
  then have route: "aosfs_route ''notes'' a = (unat PARTITION_ROLE_ROOT, ''notes'')"
    by (simp add: aosfs_route_def sample_select sample_facts(3) PARTITION_ROLE_ROOT_def)
  have f: "aosfs_file (mem_contents 0) ''notes'' a = Some ?f"
    using route U(2) sample_facts(3) by (simp add: aosfs_file_def PARTITION_ROLE_ROOT_def)
  have m: "map_option (\<lambda>(m, b). (vm_backend m, b)) (find_mount_for_path ''notes'' MAX_VFS_PATH (g_mounts (sample_vfs a))) = Some (VFS_BACKEND_AOSFS, ''notes'')"
    unfolding sample_vfs_def vfs_state.simps by code_simp
  have d: "build_link_destination ''notes'' (cstr (take (MAX_VFS_PATH - 1) (map of_char ''notes''))) [] MAX_VFS_PATH = Some ''notes''"
    by code_simp
  have "link_leads (mem_contents 0) (sample_vfs a) ''notes'' ''notes''"
    unfolding link_leads_def
    using m f d route by (auto simp: sample_vfs_def plain_component_def component_ok_def NODE_PATH_BYTES_def link_file_def new_file_def)
  then show ?thesis using a(1) U(1) by blast
qed


section \<open>Queries change nothing\<close>

context byte_store
begin

lemma access_same:
  assumes "fs_ok bid invar contents (vs_aosfs s)"
  shows "vfs_same bid invar contents s (snd (vfs_access_path drv path mode s))"
  using links_same [OF assms, of drv path True] vfs_same_refl [OF assms]
  by (auto simp: vfs_access_path_def vfs_lookup_def split: prod.split option.split)

lemma readlink_path_same:
  assumes "fs_ok bid invar contents (vs_aosfs s)"
  shows "vfs_same bid invar contents s (snd (vfs_readlink_path drv path cap s))"
proof -
  obtain r s1 where l: "lookup_with_links drv path False s = (r, s1)" by fastforce
  then have same: "vfs_same bid invar contents s s1" using links_same [OF assms, of drv path False] by simp
  show ?thesis
    using same vfs_same_trans [OF same readlink_node_same [OF vfs_same_ok [OF same]]]
    by (simp add: vfs_readlink_path_def vfs_lstat_def l split: option.split)
qed

lemma dirent_same:
  assumes "fs_ok bid invar contents (vs_aosfs s)"
  shows "vfs_same bid invar contents s (snd (vfs_dirent_at drv node index n s))"
proof -
  obtain k where "snd (aosfs_dirent_at_index (n_path node) index n (vs_aosfs s)) = at_instance k (vs_aosfs s)"
    using dirent_state by blast
  then have "vfs_same bid invar contents s (snd (on_aosfs (aosfs_dirent_at_index (n_path node) index n) s))"
    using fs_same_at [OF assms] by (intro on_aosfs_same) simp
  then show ?thesis
    using vfs_same_refl [OF assms] by (simp add: on_disk_same [OF assms] vfs_dirent_at_def split: vfs_backend.split)
qed

lemma read_node_same:
  assumes "fs_ok bid invar contents (vs_aosfs s)"
  shows "vfs_same bid invar contents s (snd (vfs_read_node drv node off n s))"
proof -
  have "vfs_same bid invar contents s (snd (on_aosfs (aosfs_read_path (n_path node) off n) s))"
    using read_same [OF assms] by (intro on_aosfs_same)
  then show ?thesis
    using vfs_same_refl [OF assms] by (simp add: on_disk_same [OF assms] vfs_read_node_def split: vfs_backend.split node_u.split)
qed

end

text \<open>
  C37. Queries are safe: looking a path up, testing access, reading a file, reading a link and listing a
  directory change no file of any AOSFS volume, nothing in the temporary file system and no mount
  point, and leave every volume sound.\<close>

theorem vfs_queries_change_nothing:
  assumes "byte_store bid invar contents" "fs_ok bid invar contents (vs_aosfs s)"
  shows "vfs_same bid invar contents s (snd (vfs_lookup drv path s)) \<and> vfs_same bid invar contents s (snd (vfs_lstat drv path s)) \<and>
    vfs_same bid invar contents s (snd (vfs_access_path drv path mode s)) \<and>
    vfs_same bid invar contents s (snd (vfs_read_node drv node off n s)) \<and>
    vfs_same bid invar contents s (snd (vfs_readlink_path drv path n s)) \<and>
    vfs_same bid invar contents s (snd (vfs_dirent_at drv node off n s))"
  unfolding vfs_lookup_def vfs_lstat_def
  by (intro conjI byte_store.links_same byte_store.access_same byte_store.read_node_same byte_store.readlink_path_same
      byte_store.dirent_same assms)

theorem vfs_queries_change_nothing_witness:
  "\<forall>drv path. trees (mem_contents 0) (vs_aosfs (snd (vfs_lookup drv path (sample_vfs sample_fs)))) = (\<lambda>_. Map.empty)"
proof (intro allI)
  fix drv path
  have "fs_ok 0 (mem_device 0) (mem_contents 0) (vs_aosfs (sample_vfs sample_fs))" using sample_facts(1) by (simp add: sample_vfs_def)
  then have "vfs_same 0 (mem_device 0) (mem_contents 0) (sample_vfs sample_fs) (snd (vfs_lookup drv path (sample_vfs sample_fs)))"
    using vfs_queries_change_nothing [OF memstore.byte_store_axioms] by blast
  then show "trees (mem_contents 0) (vs_aosfs (snd (vfs_lookup drv path (sample_vfs sample_fs)))) = (\<lambda>_. Map.empty)"
    by (simp add: vfs_same_def fs_same_def sample_vfs_def sample_facts(2))
qed

end
