(* ===== verification/Credentials.thy ===== *)
theory Credentials
  imports Prelude
begin

text \<open>
  Password hashes of \<open>kernel/credentials.c\<close>: SHA-256 over a streaming context, HMAC, PBKDF2, the text format
  of a stored hash, its verification, the older FNV format and the generation of salts.

  A context is a record; the block it buffers is a list of 64 bytes that \<open>sha256_init\<close> leaves as it finds
  it. Buffers that are wiped before a function returns have no counterpart. A zero byte read at the end of
  a string is \<open>char_at\<close> past the end of the list. The cycle counter, the timer, the random number
  instruction and the stack address that salts are made from are arguments.
\<close>

section \<open>SHA-256\<close>

definition AOS_PASSWORD_SALT_SIZE :: nat where "AOS_PASSWORD_SALT_SIZE = 16"
definition AOS_PASSWORD_HASH_SIZE :: nat where "AOS_PASSWORD_HASH_SIZE = 32"
definition AOS_PASSWORD_ENCODED_MAX :: nat where "AOS_PASSWORD_ENCODED_MAX = 160"

record sha256_ctx =
  sc_state :: "u32 list"
  total_len :: u64
  sc_block :: bytes
  block_len :: nat

text \<open>The table row by row, as the code lists it.\<close>

definition sha256_k :: "u32 list" where
  "sha256_k = concat
     [[0x428a2f98, 0x71374491, 0xb5c0fbcf, 0xe9b5dba5], [0x3956c25b, 0x59f111f1, 0x923f82a4, 0xab1c5ed5],
      [0xd807aa98, 0x12835b01, 0x243185be, 0x550c7dc3], [0x72be5d74, 0x80deb1fe, 0x9bdc06a7, 0xc19bf174],
      [0xe49b69c1, 0xefbe4786, 0x0fc19dc6, 0x240ca1cc], [0x2de92c6f, 0x4a7484aa, 0x5cb0a9dc, 0x76f988da],
      [0x983e5152, 0xa831c66d, 0xb00327c8, 0xbf597fc7], [0xc6e00bf3, 0xd5a79147, 0x06ca6351, 0x14292967],
      [0x27b70a85, 0x2e1b2138, 0x4d2c6dfc, 0x53380d13], [0x650a7354, 0x766a0abb, 0x81c2c92e, 0x92722c85],
      [0xa2bfe8a1, 0xa81a664b, 0xc24b8b70, 0xc76c51a3], [0xd192e819, 0xd6990624, 0xf40e3585, 0x106aa070],
      [0x19a4c116, 0x1e376c08, 0x2748774c, 0x34b0bcb5], [0x391c0cb3, 0x4ed8aa4a, 0x5b9cca4f, 0x682e6ff3],
      [0x748f82ee, 0x78a5636f, 0x84c87814, 0x8cc70208], [0x90befffa, 0xa4506ceb, 0xbef9a3f7, 0xc67178f2]]"

definition load_be32 :: "bytes \<Rightarrow> u32" where
  "load_be32 p = push_bit 24 (ucast (p ! 0)) OR push_bit 16 (ucast (p ! 1)) OR push_bit 8 (ucast (p ! 2)) OR ucast (p ! 3)"

definition store_be32 :: "u32 \<Rightarrow> bytes" where
  "store_be32 v = [ucast (drop_bit 24 v), ucast (drop_bit 16 v), ucast (drop_bit 8 v), ucast v]"

definition rotate_right :: "u32 \<Rightarrow> nat \<Rightarrow> u32" where
  "rotate_right v n = drop_bit n v OR push_bit (32 - n) v"

definition schedule_word :: "nat \<Rightarrow> u32 list \<Rightarrow> u32 list" where
  "schedule_word i words =
     (let s0 = rotate_right (words ! (i - 15)) 7 XOR rotate_right (words ! (i - 15)) 18 XOR drop_bit 3 (words ! (i - 15));
          s1 = rotate_right (words ! (i - 2)) 17 XOR rotate_right (words ! (i - 2)) 19 XOR drop_bit 10 (words ! (i - 2))
      in words @ [words ! (i - 16) + s0 + words ! (i - 7) + s1])"

definition schedule :: "bytes \<Rightarrow> u32 list" where
  "schedule block = fold schedule_word [16..<64] (map (\<lambda>i. load_be32 (drop (i * 4) block)) [0..<16])"

fun sha256_round :: "u32 \<Rightarrow> u32 \<Rightarrow> u32 list \<Rightarrow> u32 list" where
  "sha256_round k w [a, b, c, d, e, f, g, h] =
     (let sum1 = rotate_right e 6 XOR rotate_right e 11 XOR rotate_right e 25;
          choice = (e AND f) XOR (NOT e AND g);
          temp1 = h + sum1 + choice + k + w;
          sum0 = rotate_right a 2 XOR rotate_right a 13 XOR rotate_right a 22;
          majority = (a AND b) XOR (a AND c) XOR (b AND c);
          temp2 = sum0 + majority
      in [temp1 + temp2, a, b, c, d + temp1, e, f, g])"
| "sha256_round k w state = state"

definition sha256_compress :: "u32 list \<Rightarrow> bytes \<Rightarrow> u32 list" where
  "sha256_compress state block =
     (let words = schedule block
      in map2 (+) state (fold (\<lambda>i. sha256_round (sha256_k ! i) (words ! i)) [0..<64] state))"

definition sha256_transform :: "bytes \<Rightarrow> sha256_ctx \<Rightarrow> sha256_ctx" where
  "sha256_transform block ctx = ctx\<lparr>sc_state := sha256_compress (sc_state ctx) block\<rparr>"

definition sha256_initial :: "u32 list" where
  "sha256_initial = [0x6a09e667, 0xbb67ae85, 0x3c6ef372, 0xa54ff53a, 0x510e527f, 0x9b05688c, 0x1f83d9ab, 0x5be0cd19]"

definition sha256_init :: "sha256_ctx \<Rightarrow> sha256_ctx" where
  "sha256_init ctx = ctx\<lparr>sc_state := sha256_initial, total_len := 0, block_len := 0\<rparr>"

definition sha256_byte :: "u8 \<Rightarrow> sha256_ctx \<Rightarrow> sha256_ctx" where
  "sha256_byte b ctx =
     (let ctx' = ctx\<lparr>sc_block := (sc_block ctx)[block_len ctx := b], block_len := block_len ctx + 1\<rparr>
      in if block_len ctx' = 64 then (sha256_transform (sc_block ctx') ctx')\<lparr>block_len := 0\<rparr> else ctx')"

definition sha256_update :: "bytes \<Rightarrow> sha256_ctx \<Rightarrow> sha256_ctx" where
  "sha256_update input ctx = fold sha256_byte input (ctx\<lparr>total_len := total_len ctx + of_nat (length input)\<rparr>)"

text \<open>The two loops that fill the block with zero bytes up to a limit.\<close>

definition zero_fill :: "nat \<Rightarrow> sha256_ctx \<Rightarrow> sha256_ctx" where
  "zero_fill limit ctx = ctx\<lparr>sc_block := overwrite (block_len ctx) (replicate (limit - block_len ctx) 0) (sc_block ctx),
     block_len := max limit (block_len ctx)\<rparr>"

definition sha256_final :: "sha256_ctx \<Rightarrow> bytes" where
  "sha256_final ctx0 =
     (let bit_len = total_len ctx0 * 8;
          ctx1 = ctx0\<lparr>sc_block := (sc_block ctx0)[block_len ctx0 := 0x80], block_len := block_len ctx0 + 1\<rparr>;
          ctx2 = (if block_len ctx1 > 56
                  then let full = zero_fill 64 ctx1 in (sha256_transform (sc_block full) full)\<lparr>block_len := 0\<rparr> else ctx1);
          ctx3 = zero_fill 56 ctx2;
          block = overwrite 56 (map (\<lambda>i. ucast (drop_bit (56 - i * 8) bit_len)) [0..<8]) (sc_block ctx3)
      in concat (map store_be32 (sc_state (sha256_transform block ctx3))))"

section \<open>HMAC and PBKDF2\<close>

text \<open>What a context on the stack holds before \<open>sha256_init\<close>; only the size of its block matters.\<close>

definition sha256_ctx_raw :: sha256_ctx where
  "sha256_ctx_raw = \<lparr>sc_state = replicate 8 0, total_len = 0, sc_block = replicate 64 0, block_len = 0\<rparr>"

definition hmac_key_block :: "bytes \<Rightarrow> bytes" where
  "hmac_key_block key =
     (if length key > 64
      then overwrite 0 (sha256_final (sha256_update key (sha256_init sha256_ctx_raw))) (replicate 64 0)
      else overwrite 0 key (replicate 64 0))"

definition hmac_sha256 :: "bytes \<Rightarrow> bytes \<Rightarrow> bytes \<Rightarrow> bytes" where
  "hmac_sha256 key first second =
     (let key_block = hmac_key_block key;
          ctx = sha256_update first (sha256_update (map (\<lambda>b. b XOR 0x36) key_block) (sha256_init sha256_ctx_raw));
          inner = sha256_final (if second \<noteq> [] then sha256_update second ctx else ctx)
      in sha256_final (sha256_update inner (sha256_update (map (\<lambda>b. b XOR 0x5c) key_block) (sha256_init sha256_ctx_raw))))"

fun pbkdf2_rounds :: "nat \<Rightarrow> bytes \<Rightarrow> bytes \<Rightarrow> bytes \<Rightarrow> bytes" where
  "pbkdf2_rounds 0 password u out = out"
| "pbkdf2_rounds (Suc n) password u out =
     (let u' = hmac_sha256 password u [] in pbkdf2_rounds n password u' (map2 (XOR) out u'))"

definition pbkdf2_sha256 :: "string \<Rightarrow> bytes \<Rightarrow> nat \<Rightarrow> bytes" where
  "pbkdf2_sha256 password salt iterations =
     (let u = hmac_sha256 (map of_char password) salt [0, 0, 0, 1]
      in pbkdf2_rounds (iterations - 1) (map of_char password) u u)"

section \<open>Text formats\<close>

definition char_at :: "string \<Rightarrow> nat \<Rightarrow> char" where
  "char_at s i = (if i < length s then s ! i else CHR 0x00)"

definition hex_digit_char :: "u8 \<Rightarrow> char" where
  "hex_digit_char v = (if v < 10 then char_of (48 + unat v) else char_of (97 + unat v - 10))"

definition parse_hex_digit :: "char \<Rightarrow> nat option" where
  "parse_hex_digit c =
     (let v = (of_char c :: nat)
      in if 48 \<le> v \<and> v \<le> 57 then Some (v - 48)
         else if 97 \<le> v \<and> v \<le> 102 then Some (v - 97 + 10)
         else if 65 \<le> v \<and> v \<le> 70 then Some (v - 65 + 10) else None)"

definition bytes_to_hex :: "bytes \<Rightarrow> string" where
  "bytes_to_hex bs = concat (map (\<lambda>b. [hex_digit_char (drop_bit 4 b), hex_digit_char (b AND 0x0F)]) bs)"

fun hex_pairs :: "nat \<Rightarrow> string \<Rightarrow> bytes option" where
  "hex_pairs 0 txt = Some []"
| "hex_pairs (Suc n) txt =
     (case (parse_hex_digit (char_at txt 0), parse_hex_digit (char_at txt 1)) of
        (Some high, Some low) \<Rightarrow> map_option (\<lambda>bs. (push_bit 4 (of_nat high) OR of_nat low) # bs) (hex_pairs n (drop 2 txt))
      | _ \<Rightarrow> None)"

definition hex_to_bytes :: "string \<Rightarrow> nat \<Rightarrow> bytes option" where
  "hex_to_bytes txt chars = (if odd chars then None else hex_pairs (chars div 2) txt)"

definition cred_append_text :: "nat \<Rightarrow> string \<Rightarrow> string \<Rightarrow> string option" where
  "cred_append_text out_size txt out = (if length out + length txt + 1 > out_size then None else Some (out @ txt))"

text \<open>The digits of a number from the right, in at most ten places.\<close>

fun decimal_loop :: "nat \<Rightarrow> nat \<Rightarrow> string \<Rightarrow> string" where
  "decimal_loop 0 v digits = digits"
| "decimal_loop (Suc at) v digits =
     (let digits' = char_of (48 + v mod 10) # digits in if v div 10 \<noteq> 0 then decimal_loop at (v div 10) digits' else digits')"

definition append_decimal :: "nat \<Rightarrow> u32 \<Rightarrow> string \<Rightarrow> string option" where
  "append_decimal out_size v out = cred_append_text out_size (decimal_loop 10 (unat v) []) out"

definition credentials_format_password_hash :: "string \<Rightarrow> bytes \<Rightarrow> u32 \<Rightarrow> nat \<Rightarrow> string option" where
  "credentials_format_password_hash password salt iterations out_size =
     (if iterations = 0 \<or> out_size = 0 then None
      else let salt_hex = bytes_to_hex salt; digest_hex = bytes_to_hex (pbkdf2_sha256 password salt (unat iterations))
           in Option.bind (cred_append_text out_size ''$aos-pbkdf2-sha256$'' [])
                (\<lambda>out. Option.bind (append_decimal out_size iterations out)
                (\<lambda>out. Option.bind (cred_append_text out_size ''$'' out)
                (\<lambda>out. Option.bind (cred_append_text out_size salt_hex out)
                (\<lambda>out. Option.bind (cred_append_text out_size ''$'' out)
                (cred_append_text out_size digest_hex))))))"

section \<open>Verification\<close>

definition text_starts_with :: "string \<Rightarrow> string \<Rightarrow> bool" where
  "text_starts_with v prefix \<longleftrightarrow> take (length prefix) v = prefix"

definition constant_time_equal :: "bytes \<Rightarrow> bytes \<Rightarrow> nat \<Rightarrow> bool" where
  "constant_time_equal left right n \<longleftrightarrow> fold (\<lambda>i difference. difference OR (left ! i XOR right ! i)) [0..<n] 0 = 0"

fun iterations_loop :: "string \<Rightarrow> nat \<Rightarrow> (nat \<times> string) option" where
  "iterations_loop [] iterations = Some (iterations, [])"
| "iterations_loop (c # cs) iterations =
     (let v = (of_char c :: nat)
      in if 48 \<le> v \<and> v \<le> 57
         then if iterations > 1000000 then None else iterations_loop cs (iterations * 10 + (v - 48))
         else Some (iterations, c # cs))"

definition verify_pbkdf2 :: "string \<Rightarrow> string \<Rightarrow> bool" where
  "verify_pbkdf2 password encoded =
     (let cursor = drop (length ''$aos-pbkdf2-sha256$'') encoded
      in if \<not> text_starts_with encoded ''$aos-pbkdf2-sha256$'' then False
         else if \<not> (49 \<le> (of_char (char_at cursor 0) :: nat) \<and> (of_char (char_at cursor 0) :: nat) \<le> 57) then False
         else case iterations_loop cursor 0 of
                None \<Rightarrow> False
              | Some (iterations, cursor) \<Rightarrow>
                  if char_at cursor 0 \<noteq> CHR ''$'' \<or> iterations = 0 \<or> iterations > 1000000 then False
                  else let cursor = drop 1 cursor
                       in case hex_to_bytes cursor (AOS_PASSWORD_SALT_SIZE * 2) of
                            None \<Rightarrow> False
                          | Some salt \<Rightarrow>
                              let cursor = drop (AOS_PASSWORD_SALT_SIZE * 2) cursor
                              in if char_at cursor 0 \<noteq> CHR ''$'' then False
                                 else let cursor = drop 1 cursor
                                      in case hex_to_bytes cursor (AOS_PASSWORD_HASH_SIZE * 2) of
                                           None \<Rightarrow> False
                                         | Some expected \<Rightarrow>
                                             char_at cursor (AOS_PASSWORD_HASH_SIZE * 2) = CHR 0x00 \<and>
                                             constant_time_equal expected (pbkdf2_sha256 password salt iterations)
                                               AOS_PASSWORD_HASH_SIZE)"

definition fnv_step :: "u8 \<Rightarrow> u64 \<Rightarrow> u64" where
  "fnv_step b hash = (hash XOR ucast b) * 1099511628211"

fun legacy_digits :: "nat \<Rightarrow> u64 \<Rightarrow> string \<Rightarrow> string" where
  "legacy_digits 0 hash digits = digits"
| "legacy_digits (Suc n) hash digits = legacy_digits n (drop_bit 4 hash) (hex_digit_char (ucast (hash AND 0x0F)) # digits)"

definition verify_legacy :: "string \<Rightarrow> string \<Rightarrow> string \<Rightarrow> bool" where
  "verify_legacy username password encoded =
     (if \<not> text_starts_with encoded ''$aos$'' \<or> length encoded \<noteq> 21 then False
      else let hash = fold (\<lambda>field hash. fnv_step 0xFF (fold fnv_step (map of_char field) hash))
                 [username, password] 1469598103934665603
           in constant_time_equal (map of_char (legacy_digits 16 hash [])) (map of_char (drop 5 encoded)) 16)"

definition credentials_verify_password :: "string \<Rightarrow> string \<Rightarrow> string \<Rightarrow> bool" where
  "credentials_verify_password username password encoded =
     (if encoded = [] then False
      else if text_starts_with encoded ''$aos-pbkdf2-sha256$'' then verify_pbkdf2 password encoded
      else if text_starts_with encoded ''$aos$'' then verify_legacy username password encoded
      else False)"

section \<open>Salts\<close>

record entropy_source =
  es_tsc :: u64
  es_ticks :: u64
  es_address :: u64
  es_has_rdrand :: bool
  es_rdrand :: "u64 option list"
  es_tsc_again :: u64

text \<open>The random number instruction is tried ten times; \<open>es_rdrand\<close> lists what the attempts give.\<close>

definition read_rdrand :: "entropy_source \<Rightarrow> u64 option" where
  "read_rdrand src = (if \<not> es_has_rdrand src then None
     else Option.bind (find (\<lambda>r. r \<noteq> None) (take 10 (es_rdrand src))) (\<lambda>r. r))"

definition credentials_generate_salt :: "entropy_source \<Rightarrow> bytes \<Rightarrow> u64 \<Rightarrow> bytes \<times> u64" where
  "credentials_generate_salt src ctxt salt_counter0 =
     (let salt_counter = salt_counter0 + 1;
          last_word = (case read_rdrand src of Some v \<Rightarrow> v
                       | None \<Rightarrow> es_tsc_again src XOR (salt_counter * 0x9e3779b97f4a7c15));
          entropy = [es_tsc src, es_ticks src, salt_counter, es_address src, last_word];
          ctx = sha256_update (concat (map (\<lambda>w. le_enc 8 (unat w)) entropy)) (sha256_init sha256_ctx_raw);
          ctx = (if ctxt \<noteq> [] then sha256_update ctxt ctx else ctx)
      in (take AOS_PASSWORD_SALT_SIZE (sha256_final ctx), salt_counter))"

end
