(* ===== verification/Credentials_Props.thy ===== *)
theory Credentials_Props
  imports Credentials
begin

text \<open>
  Properties of the password hashes: the streaming SHA-256 is the hash of the padded message whatever the
  pieces it is fed in, PBKDF2 is its reference, a formatted hash is accepted for its password, and what is
  accepted determines the derived key.
\<close>

section \<open>The hash of a message\<close>

text \<open>The state after the 64-byte blocks of a message, and the padding of the standard.\<close>

definition hash_blocks :: "bytes \<Rightarrow> u32 list" where
  "hash_blocks msg = fold (\<lambda>i state. sha256_compress state (subarr (64 * i) 64 msg)) [0..<length msg div 64] sha256_initial"

definition length_bytes :: "bytes \<Rightarrow> bytes" where
  "length_bytes msg = map (\<lambda>i. ucast (drop_bit (56 - i * 8) (of_nat (length msg) * 8 :: u64))) [0..<8]"

definition sha256_pad :: "bytes \<Rightarrow> bytes" where
  "sha256_pad msg = msg @ [0x80] @ replicate ((119 - length msg mod 64) mod 64) 0 @ length_bytes msg"

definition sha256_spec :: "bytes \<Rightarrow> bytes" where
  "sha256_spec msg = concat (map store_be32 (hash_blocks (sha256_pad msg)))"

lemma hash_blocks_Nil [simp]: "hash_blocks [] = sha256_initial"
  by (simp add: hash_blocks_def)

lemma hash_blocks_append:
  assumes "length m mod 64 = 0" "length blk = 64"
  shows "hash_blocks (m @ blk) = sha256_compress (hash_blocks m) blk"
proof -
  obtain k where k: "length m = 64 * k" using assms(1) by auto
  have old: "subarr (64 * i) 64 (m @ blk) = subarr (64 * i) 64 m" if "i < k" for i
    using that k by (simp add: subarr_def)
  have "fold (\<lambda>i state. sha256_compress state (subarr (64 * i) 64 (m @ blk))) [0..<k] sha256_initial = hash_blocks m"
    using k old by (auto simp: hash_blocks_def intro!: fold_cong)
  moreover have "length (m @ blk) div 64 = Suc k" "subarr (64 * k) 64 (m @ blk) = blk" using k assms(2) by (simp_all add: subarr_def)
  ultimately show ?thesis by (simp add: hash_blocks_def)
qed

text \<open>A context that has been fed \<open>msg\<close>.\<close>

definition fed :: "bytes \<Rightarrow> sha256_ctx \<Rightarrow> bool" where
  "fed msg ctx \<longleftrightarrow> length (sc_block ctx) = 64 \<and> block_len ctx < 64 \<and>
     (\<exists>m. msg = m @ take (block_len ctx) (sc_block ctx) \<and> length m mod 64 = 0 \<and> sc_state ctx = hash_blocks m)"

lemma fed_init: "length (sc_block ctx) = 64 \<Longrightarrow> fed [] (sha256_init ctx)"
  by (simp add: fed_def sha256_init_def)

lemma fed_total: "fed msg (ctx\<lparr>total_len := n\<rparr>) = fed msg ctx"
  by (simp add: fed_def)

lemma fed_byte:
  assumes "fed msg ctx"
  shows "fed (msg @ [b]) (sha256_byte b ctx)"
proof -
  let ?n = "block_len ctx" and ?blk = "(sc_block ctx)[block_len ctx := b]"
  obtain m where m: "msg = m @ take ?n (sc_block ctx)" "length m mod 64 = 0" "sc_state ctx = hash_blocks m"
    and len: "length (sc_block ctx) = 64" "?n < 64"
    using assms by (auto simp: fed_def)
  have t: "take (Suc ?n) ?blk = take ?n (sc_block ctx) @ [b]" using len by (simp add: take_Suc_conv_app_nth)
  show ?thesis
  proof (cases "Suc ?n = 64")
    case True
    then have blk: "take ?n (sc_block ctx) @ [b] = ?blk" using t len by simp
    have "hash_blocks (m @ ?blk) = sha256_compress (hash_blocks m) ?blk" using m(2) len by (intro hash_blocks_append) simp_all
    moreover have "length (m @ ?blk) mod 64 = 0" using m(2) len by (simp add: mod_add_eq [symmetric])
    ultimately show ?thesis using True m len blk by (auto simp: fed_def sha256_byte_def sha256_transform_def Let_def intro!: exI [of _ "m @ ?blk"])
  next
    case False
    then show ?thesis using m len t by (auto simp: fed_def sha256_byte_def Let_def intro!: exI [of _ m])
  qed
qed

lemma byte_total: "total_len (sha256_byte b ctx) = total_len ctx"
  by (simp add: sha256_byte_def sha256_transform_def Let_def)

lemma bytes_total: "total_len (fold sha256_byte bs ctx) = total_len ctx"
  by (induction bs arbitrary: ctx) (simp_all add: byte_total)

lemma fed_bytes: "fed msg ctx \<Longrightarrow> fed (msg @ bs) (fold sha256_byte bs ctx)"
proof (induction bs arbitrary: msg ctx)
  case (Cons b bs)
  then show ?case using Cons.IH [OF fed_byte [OF Cons.prems]] by simp
qed simp

lemma fed_update:
  assumes "fed msg ctx" "total_len ctx = of_nat (length msg)"
  shows "fed (msg @ bs) (sha256_update bs ctx)" "total_len (sha256_update bs ctx) = of_nat (length (msg @ bs))"
  using fed_bytes [of msg "ctx\<lparr>total_len := total_len ctx + of_nat (length bs)\<rparr>" bs] assms
  by (simp_all add: sha256_update_def fed_total bytes_total)

lemma block_marked:
  assumes "n < length blk" "Suc n + k \<le> length blk"
  shows "overwrite (Suc n) (replicate k z) (blk[n := x]) = take n blk @ [x] @ replicate k z @ drop (Suc n + k) blk"
  using assms by (simp add: overwrite_def take_Suc_conv_app_nth)

lemma overwrite_behind: "length p = off \<Longrightarrow> overwrite off ys (p @ q) = p @ ys @ drop (length ys) q"
  by (auto simp: overwrite_def)

lemma final_spec:
  assumes "fed msg ctx" "total_len ctx = of_nat (length msg)"
  shows "sha256_final ctx = sha256_spec msg"
proof -
  let ?n = "block_len ctx" and ?blk = "sc_block ctx"
  define tail where "tail = take ?n ?blk"
  obtain m where m: "msg = m @ tail" "length m mod 64 = 0" "sc_state ctx = hash_blocks m"
    and len: "length ?blk = 64" "?n < 64"
    using assms(1) by (auto simp: fed_def tail_def)
  have tl: "length tail = ?n" using len by (simp add: tail_def)
  have n: "length msg mod 64 = ?n" using m tl len by (simp add: mod_add_eq [symmetric])
  have lb: "length (length_bytes msg) = 8" by (simp add: length_bytes_def)
  note L = length_bytes_def [of msg, symmetric, folded assms(2)]
  show ?thesis
  proof (cases "?n < 56")
    case True
    let ?b = "tail @ [0x80] @ replicate (55 - ?n) 0 @ length_bytes msg"
    have mid: "overwrite (Suc ?n) (replicate (56 - Suc ?n) 0) (?blk[?n := 0x80]) = (tail @ [0x80] @ replicate (55 - ?n) 0) @ drop 56 ?blk"
      using block_marked [of ?n ?blk "56 - Suc ?n" 0 "0x80"] len True by (simp add: tail_def)
    have b: "overwrite 56 (length_bytes msg) (overwrite (Suc ?n) (replicate (56 - Suc ?n) 0) (?blk[?n := 0x80])) = ?b"
      unfolding mid using True lb tl len by (subst overwrite_behind) simp_all
    have "(119 - ?n) mod 64 = 55 - ?n" using True by (simp add: mod_if)
    then have pad: "sha256_pad msg = m @ ?b" by (simp add: sha256_pad_def n) (simp add: m(1))
    have "hash_blocks (m @ ?b) = sha256_compress (hash_blocks m) ?b"
      using m(2) tl True lb by (intro hash_blocks_append) simp_all
    then show ?thesis
      using True m(3) b
      by (simp add: sha256_final_def sha256_spec_def pad zero_fill_def sha256_transform_def L Let_def max_def)
  next
    case False
    let ?b1 = "tail @ [0x80] @ replicate (63 - ?n) 0" and ?b2 = "replicate 56 0 @ length_bytes msg"
    have b1: "overwrite (Suc ?n) (replicate (64 - Suc ?n) 0) (?blk[?n := 0x80]) = ?b1"
      using block_marked [of ?n ?blk "64 - Suc ?n" 0 "0x80"] len by (simp add: tail_def)
    have b2: "overwrite 56 (length_bytes msg) (overwrite 0 (replicate 56 0) ?b1) = ?b2"
      using lb tl len by (simp add: overwrite_def)
    have "(119 - ?n) mod 64 = (63 - ?n) + 56" using False len(2) by (simp add: mod_if)
    then have "replicate ((119 - ?n) mod 64) (0 :: u8) = replicate (63 - ?n) 0 @ replicate 56 0" by (simp only: replicate_add)
    then have "sha256_pad msg = (m @ ?b1) @ ?b2" unfolding sha256_pad_def n by (simp add: m(1))
    moreover have h1: "hash_blocks (m @ ?b1) = sha256_compress (hash_blocks m) ?b1"
      using m(2) tl len lb by (intro hash_blocks_append) simp_all
    moreover have "length (m @ ?b1) mod 64 = 0" using m(2) tl len by (simp add: mod_add_eq [symmetric])
    then have "hash_blocks ((m @ ?b1) @ ?b2) = sha256_compress (hash_blocks (m @ ?b1)) ?b2" using lb by (intro hash_blocks_append) simp_all
    ultimately have "hash_blocks (sha256_pad msg) = sha256_compress (sha256_compress (hash_blocks m) ?b1) ?b2" by simp
    then show ?thesis
      using False m(3) b1 b2
      by (simp add: sha256_final_def sha256_spec_def zero_fill_def sha256_transform_def L Let_def max_def)
  qed
qed

lemma round_length: "length (sha256_round k w st) = length st"
  by (cases "(k, w, st)" rule: sha256_round.cases) (simp_all add: Let_def)

lemma rounds_length: "length (fold (\<lambda>i. sha256_round (f i) (g i)) is st) = length st"
  by (induction "is" arbitrary: st) (simp_all add: round_length)

lemma compress_length: "length (sha256_compress st blk) = length st"
  by (simp add: sha256_compress_def Let_def rounds_length)

lemma hash_blocks_length: "length (hash_blocks msg) = 8"
proof -
  have "length (fold (\<lambda>i st. sha256_compress st (f i)) is st) = length st" for f :: "nat \<Rightarrow> bytes" and "is" st
    by (induction "is" arbitrary: st) (simp_all add: compress_length)
  then show ?thesis by (simp add: hash_blocks_def sha256_initial_def)
qed

lemma spec_length: "length (sha256_spec msg) = 32"
proof -
  have "length (concat (map store_be32 ws)) = 4 * length ws" for ws
    by (induction ws) (simp_all add: store_be32_def)
  then show ?thesis by (simp add: sha256_spec_def hash_blocks_length)
qed

text \<open>One piece, several pieces, and the contexts of HMAC.\<close>

lemma updates_spec:
  assumes "length (sc_block ctx) = 64"
  shows "fed (concat pieces) (fold sha256_update pieces (sha256_init ctx))"
    "total_len (fold sha256_update pieces (sha256_init ctx)) = of_nat (length (concat pieces))"
proof -
  have "fed (msg @ concat pieces) (fold sha256_update pieces c) \<and>
      total_len (fold sha256_update pieces c) = of_nat (length (msg @ concat pieces))"
    if "fed msg c" "total_len c = of_nat (length msg)" for msg c
    using that
  proof (induction pieces arbitrary: msg c)
    case (Cons p pieces)
    then show ?case using Cons.IH [OF fed_update [OF Cons.prems]] by simp
  qed simp
  from this [of "[]" "sha256_init ctx"] fed_init [OF assms]
  show "fed (concat pieces) (fold sha256_update pieces (sha256_init ctx))"
    "total_len (fold sha256_update pieces (sha256_init ctx)) = of_nat (length (concat pieces))"
    by (simp_all add: sha256_init_def)
qed

lemma digest_pieces:
  "length (sc_block ctx) = 64 \<Longrightarrow> sha256_final (fold sha256_update pieces (sha256_init ctx)) = sha256_spec (concat pieces)"
  by (intro final_spec updates_spec)

section \<open>HMAC and PBKDF2\<close>

definition hmac_block :: "bytes \<Rightarrow> bytes" where
  "hmac_block key = (let k = (if length key > 64 then sha256_spec key else key) in k @ replicate (64 - length k) 0)"

definition hmac_spec :: "bytes \<Rightarrow> bytes \<Rightarrow> bytes" where
  "hmac_spec key msg = sha256_spec (map (\<lambda>b. b XOR 0x5C) (hmac_block key) @ sha256_spec (map (\<lambda>b. b XOR 0x36) (hmac_block key) @ msg))"

definition pbkdf2_spec :: "bytes \<Rightarrow> bytes \<Rightarrow> nat \<Rightarrow> bytes" where
  "pbkdf2_spec password salt n =
     (let u = \<lambda>k. (hmac_spec password ^^ k) (hmac_spec password (salt @ [0, 0, 0, 1]))
      in fold (\<lambda>k out. map2 (XOR) out (u k)) [1..<n] (u 0))"

lemma raw_pieces: "sha256_final (fold sha256_update pieces (sha256_init sha256_ctx_raw)) = sha256_spec (concat pieces)"
  by (rule digest_pieces) (simp add: sha256_ctx_raw_def)

lemma key_block: "hmac_key_block key = hmac_block key"
  using raw_pieces [of "[key]"] spec_length [of key]
  by (auto simp: hmac_key_block_def hmac_block_def overwrite_def Let_def)

lemma hmac_equiv: "hmac_sha256 key first second = hmac_spec key (first @ second)"
proof -
  let ?pad = "\<lambda>x. map (\<lambda>b. b XOR x) (hmac_block key)"
  have "sha256_final (sha256_update first (sha256_update (?pad 0x36) (sha256_init sha256_ctx_raw))) = sha256_spec (?pad 0x36 @ first)"
    using raw_pieces [of "[?pad 0x36, first]"] by simp
  moreover have "sha256_final (sha256_update second (sha256_update first (sha256_update (?pad 0x36) (sha256_init sha256_ctx_raw)))) =
      sha256_spec (?pad 0x36 @ first @ second)"
    using raw_pieces [of "[?pad 0x36, first, second]"] by simp
  moreover have "sha256_final (sha256_update inner (sha256_update (?pad 0x5C) (sha256_init sha256_ctx_raw))) = sha256_spec (?pad 0x5C @ inner)" for inner
    using raw_pieces [of "[?pad 0x5C, inner]"] by simp
  ultimately show ?thesis by (simp add: hmac_sha256_def hmac_spec_def key_block Let_def)
qed

lemma fold_upt_Suc: "fold f [Suc i..<Suc j] x = fold (\<lambda>k. f (Suc k)) [i..<j] x"
  by (simp add: map_Suc_upt [symmetric] fold_map comp_def del: upt_Suc)

lemma rounds_equiv:
  "pbkdf2_rounds n password u out = fold (\<lambda>k out. map2 (XOR) out ((hmac_spec password ^^ k) u)) [1..<Suc n] out"
proof (induction n arbitrary: u out)
  case (Suc n)
  let ?u = "hmac_spec password u"
  have "pbkdf2_rounds (Suc n) password u out =
      fold (\<lambda>k out. map2 (XOR) out ((hmac_spec password ^^ k) ?u)) [1..<Suc n] (map2 (XOR) out ?u)"
    using Suc.IH [of ?u] by (simp add: hmac_equiv Let_def del: upt_Suc)
  also have "\<dots> = fold (\<lambda>k out. map2 (XOR) out ((hmac_spec password ^^ k) u)) [Suc 1..<Suc (Suc n)] (map2 (XOR) out ?u)"
    unfolding fold_upt_Suc by (simp add: funpow_swap1 del: upt_Suc)
  also have "\<dots> = fold (\<lambda>k out. map2 (XOR) out ((hmac_spec password ^^ k) u)) [1..<Suc (Suc n)] out"
    by (subst (2) upt_conv_Cons) simp_all
  finally show ?case .
qed simp

lemma pbkdf2_equiv: "0 < n \<Longrightarrow> pbkdf2_sha256 password salt n = pbkdf2_spec (map of_char password) salt n"
  by (simp add: pbkdf2_sha256_def pbkdf2_spec_def hmac_equiv rounds_equiv Let_def del: upt_Suc)

lemma pbkdf2_length: "length (pbkdf2_spec password salt n) = 32"
proof -
  have u: "length ((hmac_spec password ^^ k) (hmac_spec password x)) = 32" for k x
    by (cases k) (simp_all add: hmac_spec_def spec_length)
  have "length (fold (\<lambda>k out. map2 (XOR) out (g k)) ks x) = 32" if "\<And>k. length (g k) = 32" "length x = 32" for g :: "nat \<Rightarrow> bytes" and ks x
    using that by (induction ks arbitrary: x) simp_all
  then show ?thesis using u [of 0] u by (simp add: pbkdf2_spec_def Let_def)
qed

section \<open>Numbers and bytes as text\<close>

fun decimal :: "nat \<Rightarrow> string" where
  "decimal v = (if v < 10 then [char_of (48 + v)] else decimal (v div 10) @ [char_of (48 + v mod 10)])"

declare decimal.simps [simp del]

lemma decimal_loop_result: "0 < at \<Longrightarrow> v < 10 ^ at \<Longrightarrow> decimal_loop at v ds = decimal v @ ds"
proof (induction at v ds rule: decimal_loop.induct)
  case (2 at v ds)
  show ?case
  proof (cases "v < 10")
    case True
    then show ?thesis by (simp add: decimal.simps [of v] Let_def)
  next
    case False
    then have q: "v div 10 \<noteq> 0" "0 < at" "v div 10 < 10 ^ at" using "2.prems" by (simp_all add: div_eq_0_iff, cases at, simp_all)
    show ?thesis using "2.IH" [OF refl q] False q(1) by (simp add: decimal.simps [of v] Let_def)
  qed
qed simp

lemma iterations_decimal: "v \<le> 1000000 \<Longrightarrow> iterations_loop (decimal v @ r) 0 = iterations_loop r v"
proof (induction v arbitrary: r rule: decimal.induct)
  case (1 v)
  have digit: "iterations_loop (char_of (48 + d) # r) n = iterations_loop r (n * 10 + d)" if "d < 10" "n \<le> 1000000" for d n
    using that by simp
  show ?case
  proof (cases "v < 10")
    case True
    then show ?thesis using digit [of v 0] by (simp add: decimal.simps [of v])
  next
    case False
    then have "iterations_loop (decimal v @ r) 0 = iterations_loop (char_of (48 + v mod 10) # r) (v div 10)"
      using "1.IH" "1.prems" by (simp add: decimal.simps [of v])
    then show ?thesis using digit [of "v mod 10" "v div 10"] "1.prems" by simp
  qed
qed

lemma decimal_facts:
  "decimal v \<noteq> []" "0 < v \<Longrightarrow> 49 \<le> (of_char (decimal v ! 0) :: nat) \<and> (of_char (decimal v ! 0) :: nat) \<le> 57"
  "v < 10 ^ Suc k \<Longrightarrow> length (decimal v) \<le> Suc k" "c \<in> set (decimal v) \<Longrightarrow> 48 \<le> (of_char c :: nat)"
proof (induction v arbitrary: k c rule: decimal.induct)
  case (1 v)
  {
    case 1
    show ?case by (simp add: decimal.simps [of v])
  next
    case 2
    show ?case
    proof (cases "v < 10")
      case False
      then show ?thesis using "1.IH"(1,2) by (simp add: decimal.simps [of v] nth_append)
    qed (use 2 in \<open>simp add: decimal.simps [of v]\<close>)
  next
    case 3
    show ?case
    proof (cases "v < 10")
      case False
      then obtain j where j: "k = Suc j" using 3 by (cases k) auto
      then have "v div 10 < 10 ^ Suc j" using 3 by auto
      then have "length (decimal (v div 10)) \<le> Suc j" using "1.IH"(3) [OF False] by blast
      then show ?thesis using False j by (simp add: decimal.simps [of v])
    qed (simp add: decimal.simps [of v])
  next
    case 4
    then show ?case using "1.IH"(4) by (cases "v < 10") (auto simp: decimal.simps [of v])
  }
qed

lemma parse_hex_char: "unat v < 16 \<Longrightarrow> parse_hex_digit (hex_digit_char v) = Some (unat v)"
  by (auto simp: parse_hex_digit_def hex_digit_char_def Let_def word_less_nat_alt)

lemma nibbles:
  fixes b :: u8
  shows "unat (drop_bit 4 b) < 16" "unat (b AND 0x0F) < 16"
    "push_bit 4 (of_nat (unat (drop_bit 4 b))) OR of_nat (unat (b AND 0x0F)) = b"
proof -
  have m: "(0x0F :: u8) = mask 4" by (simp add: mask_eq_exp_minus_1)
  have a: "b AND 0x0F = take_bit 4 b" by (simp add: m take_bit_eq_mask)
  show "unat (drop_bit 4 b) < 16" using unat_less [of b] by (simp add: drop_bit_eq_div unat_div_distrib)
  show "unat (b AND 0x0F) < 16" by (simp add: a take_bit_eq_mod unat_mod_distrib)
  have "push_bit 4 (drop_bit 4 b) OR take_bit 4 b = b" by (rule bit_word_eqI) (auto simp: bit_simps)
  then show "push_bit 4 (of_nat (unat (drop_bit 4 b))) OR of_nat (unat (b AND 0x0F)) = b" by (simp add: a)
qed

lemma hex_pairs_hex: "length bs = n \<Longrightarrow> hex_pairs n (bytes_to_hex bs @ r) = Some bs"
proof (induction n arbitrary: bs)
  case (Suc n)
  then obtain b bs' where b: "bs = b # bs'" "length bs' = n" by (cases bs) auto
  show ?case using Suc.IH [OF b(2)] nibbles [of b]
    by (simp add: b(1) bytes_to_hex_def char_at_def parse_hex_char)
qed (simp add: bytes_to_hex_def)

lemma hex_length: "length (bytes_to_hex bs) = 2 * length bs"
  by (induction bs) (simp_all add: bytes_to_hex_def)

lemma hex_no_nul: "c \<in> set (bytes_to_hex bs) \<Longrightarrow> c \<noteq> CHR 0x00"
proof -
  have nz: "hex_digit_char v \<noteq> CHR 0x00" if "unat v < 16" for v
  proof
    assume "hex_digit_char v = CHR 0x00"
    then have "parse_hex_digit (CHR 0x00) = Some (unat v)" using parse_hex_char [OF that] by simp
    then show False by (simp add: parse_hex_digit_def)
  qed
  show "c \<in> set (bytes_to_hex bs) \<Longrightarrow> c \<noteq> CHR 0x00"
    using nz [OF nibbles(1)] nz [OF nibbles(2)] by (fastforce simp: bytes_to_hex_def)
qed

lemma constant_time_equal_iff: "length l = n \<Longrightarrow> length r = n \<Longrightarrow> constant_time_equal l r n \<longleftrightarrow> l = r"
proof -
  assume len: "length l = n" "length r = n"
  have zero: "fold (\<lambda>i d. d OR (l ! i XOR r ! i)) is d = 0 \<longleftrightarrow> d = 0 \<and> (\<forall>i \<in> set is. l ! i = r ! i)" for "is" d
  proof (induction "is" arbitrary: d)
    case (Cons i "is")
    have "d OR (l ! i XOR r ! i) = 0 \<longleftrightarrow> d = 0 \<and> l ! i = r ! i" 
      by (auto simp: or_eq_0_iff) (metis xor.assoc xor.right_neutral xor_self_eq)
    then show ?case using Cons.IH by auto
  qed simp
  show ?thesis using len by (simp add: constant_time_equal_def zero list_eq_iff_nth_eq Ball_def)
qed

lemma pad_length: "length (sha256_pad msg) mod 64 = 0"
proof -
  define n where "n = length msg mod 64"
  have n: "n < 64" by (simp add: n_def)
  have len: "length (sha256_pad msg) = length msg + (9 + (119 - n) mod 64)"
    by (simp add: sha256_pad_def length_bytes_def n_def)
  have "(n + (9 + (119 - n) mod 64)) mod 64 = 0"
  proof (cases "n < 56")
    case True
    then have "(119 - n) mod 64 = 55 - n" by (simp add: mod_if)
    then show ?thesis using True by simp
  next
    case False
    then have "(119 - n) mod 64 = 119 - n" using n by simp
    then show ?thesis using n by simp
  qed
  then show ?thesis unfolding len by (metis mod_add_left_eq n_def)
qed

section \<open>Stored hashes\<close>

abbreviation hash_text :: "string \<Rightarrow> bytes \<Rightarrow> u32 \<Rightarrow> string" where
  "hash_text password salt iterations \<equiv> ''$aos-pbkdf2-sha256$'' @ decimal (unat iterations) @ ''$'' @ bytes_to_hex salt @ ''$'' @
     bytes_to_hex (pbkdf2_spec (map of_char password) salt (unat iterations))"

lemma format_result:
  assumes "length salt = AOS_PASSWORD_SALT_SIZE" "0 < iterations" "iterations \<le> 1000000" "125 \<le> out_size"
  shows "credentials_format_password_hash password salt iterations out_size = Some (hash_text password salt iterations)"
    "length (hash_text password salt iterations) < out_size"
proof -
  let ?d = "decimal (unat iterations)" and ?h = "bytes_to_hex (pbkdf2_spec (map of_char password) salt (unat iterations))"
  have n: "0 < unat iterations" "unat iterations \<le> 1000000" using assms(2,3) by (simp_all add: unat_gt_0 word_le_nat_alt)
  have d: "decimal_loop 10 (unat iterations) [] = ?d" "length ?d \<le> 7"
    using decimal_loop_result [of 10 "unat iterations" "[]"] decimal_facts(3) [of "unat iterations" 6] n by simp_all
  have l: "length (bytes_to_hex salt) = 32" "length ?h = 64"
    using assms(1) by (simp_all add: hex_length pbkdf2_length AOS_PASSWORD_SALT_SIZE_def)
  show "credentials_format_password_hash password salt iterations out_size = Some (hash_text password salt iterations)"
    using assms(2,4) l d pbkdf2_equiv [OF n(1), of password salt]
    by (simp add: credentials_format_password_hash_def append_decimal_def cred_append_text_def Let_def)
  show "length (hash_text password salt iterations) < out_size" using assms(4) l d(2) by simp
qed

lemma verify_hash_text:
  fixes iterations :: u32
  assumes salt: "length salt = AOS_PASSWORD_SALT_SIZE" and n: "0 < iterations" "iterations \<le> 1000000" and hash: "length h = 32"
  shows "credentials_verify_password user password (''$aos-pbkdf2-sha256$'' @ decimal (unat iterations) @ ''$'' @ bytes_to_hex salt @ ''$'' @ bytes_to_hex h) \<longleftrightarrow>
    pbkdf2_spec (map of_char password) salt (unat iterations) = h"
proof -
  let ?n = "unat iterations" and ?tail = "bytes_to_hex salt @ ''$'' @ bytes_to_hex h"
  have m: "0 < ?n" "?n \<le> 1000000" using n by (simp_all add: unat_gt_0 word_le_nat_alt)
  have iter: "iterations_loop (decimal ?n @ CHR ''$'' # ?tail) 0 = Some (?n, CHR ''$'' # ?tail)"
    using iterations_decimal [OF m(2), of "CHR ''$'' # ?tail"] by simp
  have first: "char_at (decimal ?n @ r) 0 = decimal ?n ! 0" for r using decimal_facts(1) [of ?n] by (simp add: char_at_def nth_append)
  have dollar: "char_at (CHR ''$'' # r) 0 = CHR ''$''" for r by (simp add: char_at_def)
  have digit: "49 \<le> (of_char (decimal ?n ! 0) :: nat)" "(of_char (decimal ?n ! 0) :: nat) \<le> 57" using decimal_facts(2) [OF m(1)] by auto
  have len: "length (bytes_to_hex salt) = 32" "length (bytes_to_hex h) = 64" using salt hash by (simp_all add: hex_length AOS_PASSWORD_SALT_SIZE_def)
  have hex: "hex_to_bytes ?tail 32 = Some salt" "hex_to_bytes (bytes_to_hex h) 64 = Some h"
    using hex_pairs_hex [of salt 16 "''$'' @ bytes_to_hex h"] hex_pairs_hex [of h 32 "[]"] salt hash
    by (simp_all add: hex_to_bytes_def AOS_PASSWORD_SALT_SIZE_def)
  have rest: "drop 32 ?tail = CHR ''$'' # bytes_to_hex h" using len by simp
  have stop: "char_at (bytes_to_hex h) 64 = CHR 0x00" using len by (simp add: char_at_def)
  have eq: "constant_time_equal h (pbkdf2_sha256 password salt ?n) 32 \<longleftrightarrow> h = pbkdf2_spec (map of_char password) salt ?n"
    using pbkdf2_equiv [OF m(1), of password salt] constant_time_equal_iff [of h 32] hash by (simp add: pbkdf2_length)
  have "verify_pbkdf2 password (''$aos-pbkdf2-sha256$'' @ decimal ?n @ CHR ''$'' # ?tail) \<longleftrightarrow>
      h = pbkdf2_spec (map of_char password) salt ?n"
    using digit iter hex rest stop eq m
    by (simp add: verify_pbkdf2_def text_starts_with_def first dollar AOS_PASSWORD_SALT_SIZE_def AOS_PASSWORD_HASH_SIZE_def Let_def)
  then show ?thesis by (auto simp: credentials_verify_password_def text_starts_with_def)
qed

section \<open>Properties\<close>

text \<open>
  C39. The streaming SHA-256 is equivalent to the hash of the whole message: however the message is cut into
  pieces, and whatever the block of the context held before, the digest is the one obtained by padding the
  message as the standard prescribes and compressing its 64-byte blocks in turn.\<close>

theorem sha256_streaming_equivalent:
  assumes "length (sc_block ctx) = 64"
  shows "sha256_final (fold sha256_update pieces (sha256_init ctx)) = sha256_spec (concat pieces) \<and>
    length (sha256_spec (concat pieces)) = AOS_PASSWORD_HASH_SIZE \<and> length (sha256_pad (concat pieces)) mod 64 = 0"
  using digest_pieces [OF assms] spec_length pad_length by (simp add: AOS_PASSWORD_HASH_SIZE_def)

theorem sha256_streaming_equivalent_witness:
  "sha256_final (sha256_update [2] (sha256_update [0, 1] (sha256_init sha256_ctx_raw))) = sha256_spec [0, 1, 2]"
  using sha256_streaming_equivalent [of sha256_ctx_raw "[[0, 1], [2]]"] by (simp add: sha256_ctx_raw_def)

text \<open>
  C40. A stored password hash accepts exactly the passwords that derive its key: formatting succeeds in a
  buffer of 125 bytes, the text it stores is a C string that fits, and verification against that text
  succeeds for the password it was made from, for every user name, and for another password only when
  PBKDF2-HMAC-SHA-256 derives the same key from it.\<close>

theorem credentials_hash_roundtrip:
  assumes "length salt = AOS_PASSWORD_SALT_SIZE" "0 < iterations" "iterations \<le> 1000000" "125 \<le> out_size"
  shows "\<exists>encoded. credentials_format_password_hash password salt iterations out_size = Some encoded \<and>
    length encoded < out_size \<and> CHR 0x00 \<notin> set encoded \<and> credentials_verify_password user password encoded \<and>
    (\<forall>other. credentials_verify_password user other encoded \<longleftrightarrow>
       pbkdf2_spec (map of_char other) salt (unat iterations) = pbkdf2_spec (map of_char password) salt (unat iterations))"
proof -
  note V = verify_hash_text [OF assms(1-3) pbkdf2_length]
  have "CHR 0x00 \<notin> set (hash_text password salt iterations)"
    using hex_no_nul decimal_facts(4) [of "CHR 0x00" "unat iterations"] by auto
  then show ?thesis using format_result [OF assms, of password] V [of user] by (intro exI [of _ "hash_text password salt iterations"]) simp
qed

theorem credentials_hash_roundtrip_witness:
  "\<exists>encoded. credentials_format_password_hash ''secret'' (replicate 16 7) 12000 160 = Some encoded \<and>
     credentials_verify_password ''explorer'' ''secret'' encoded"
  using credentials_hash_roundtrip [of "replicate 16 7" 12000 160 "''secret''" "''explorer''"]
  by (auto simp: AOS_PASSWORD_SALT_SIZE_def)

end
