(* ===== verification/Pmm.thy ===== *)
theory Pmm
  imports Prelude
begin

text \<open>
  The physical page-frame allocator of \<open>kernel/pmm.c\<close>.

  A frame (4 KiB block) is described by one bit of \<open>pmm_bitmap\<close> and one 16-bit reference count.
  The allocator manages the first GiB: 262144 frames. The state record holds the five globals of
  the file; \<open>oom_reported\<close> only throttles a log message but is kept.

  The Multiboot information is given as the list of its tags in memory order up to the END tag;
  the walk from tag to tag over raw memory is not modelled. Console and serial output is left out.
\<close>

section \<open>State\<close>

record pmm_state =
  pmm_bitmap :: "u8 list"
  pmm_refcounts :: "u16 list"
  total_blocks :: u64
  free_blocks :: u64
  oom_reported :: bool

definition BITMAP_BYTES :: nat where "BITMAP_BYTES = 32768"
definition PMM_BLOCKS :: nat where "PMM_BLOCKS = 262144"
definition ONE_GIB :: u64 where "ONE_GIB = 1024 * 1024 * 1024"

record mmap_entry =
  me_addr :: u64
  me_len :: u64
  me_type :: u32

datatype multiboot_tag =
    TagMmap "mmap_entry list"
  | TagModule u32 u32 \<comment> \<open>\<open>mod_start\<close>, \<open>mod_end\<close>\<close>
  | TagOther

section \<open>Bitmap\<close>

definition block_mask :: "nat \<Rightarrow> u8" where
  "block_mask block = push_bit (block mod 8) 1"

definition bitmap_test :: "u8 list \<Rightarrow> nat \<Rightarrow> bool" where
  "bitmap_test bm block \<longleftrightarrow> bm ! (block div 8) AND block_mask block \<noteq> 0"

definition bitmap_set :: "u8 list \<Rightarrow> nat \<Rightarrow> u8 list" where
  "bitmap_set bm block = bm[block div 8 := bm ! (block div 8) OR block_mask block]"

definition bitmap_clear :: "u8 list \<Rightarrow> nat \<Rightarrow> u8 list" where
  "bitmap_clear bm block = bm[block div 8 := bm ! (block div 8) AND NOT (block_mask block)]"

section \<open>Initialisation\<close>

definition mark_block_used :: "nat \<Rightarrow> pmm_state \<Rightarrow> pmm_state" where
  "mark_block_used block s =
     (let s' = (if \<not> bitmap_test (pmm_bitmap s) block \<and> free_blocks s > 0
                then s\<lparr>free_blocks := free_blocks s - 1\<rparr> else s)
      in s'\<lparr>pmm_bitmap := bitmap_set (pmm_bitmap s) block\<rparr>)"

text \<open>
  The loop of \<open>mark_used_range\<close> visits the page-aligned addresses from \<open>range_start\<close> up to
  \<open>range_end\<close>, that is the blocks from \<open>range_start / 4096\<close> up to \<open>range_end / 4096\<close>.
\<close>

definition used_range_blocks :: "u64 \<Rightarrow> u64 \<Rightarrow> nat list" where
  "used_range_blocks start end' =
     (if end' \<le> start then []
      else let range_start = start AND NOT 0xFFF;
               range_end = (end' + 0xFFF) AND NOT 0xFFF
           in if range_start \<ge> ONE_GIB then []
              else let range_end = (if range_end > ONE_GIB then ONE_GIB else range_end)
                   in [unat (range_start div 4096)..<unat (range_end div 4096)])"

definition mark_used_range :: "u64 \<Rightarrow> u64 \<Rightarrow> pmm_state \<Rightarrow> pmm_state" where
  "mark_used_range start end' s = fold mark_block_used (used_range_blocks start end') s"

definition release_block :: "nat \<Rightarrow> pmm_state \<Rightarrow> pmm_state" where
  "release_block block s =
     (if bitmap_test (pmm_bitmap s) block
      then s\<lparr>pmm_bitmap := bitmap_clear (pmm_bitmap s) block, free_blocks := free_blocks s + 1\<rparr>
      else s)"

function free_entry_loop :: "u64 \<Rightarrow> u64 \<Rightarrow> pmm_state \<Rightarrow> pmm_state" where
  "free_entry_loop addr end' s =
     (if addr < end' \<and> \<not> addr \<ge> ONE_GIB
      then free_entry_loop (addr + 4096) end' (release_block (unat (addr div 4096)) s)
      else s)"
  by pat_completeness auto
termination
proof (relation "measure (\<lambda>(addr, _, _). 2 ^ 30 - unat addr)")
  fix addr end' :: u64 and s :: pmm_state
  assume a: "addr < end' \<and> \<not> addr \<ge> ONE_GIB"
  then have lt: "unat addr < 2 ^ 30" by (simp add: ONE_GIB_def word_le_nat_alt)
  then have "unat (addr + 4096) = unat addr + 4096"
    by (subst unat_add_small) simp_all
  with lt show "((addr + 4096, end', release_block (unat (addr div 4096)) s), addr, end', s)
      \<in> measure (\<lambda>(addr, _, _). 2 ^ 30 - unat addr)"
    by simp
qed simp

declare free_entry_loop.simps [simp del]

definition init_mmap_entry :: "mmap_entry \<Rightarrow> pmm_state \<Rightarrow> pmm_state" where
  "init_mmap_entry e s =
     (if me_type e = 1
      then let entry_end = me_addr e + me_len e;
               capped_end = (if entry_end > ONE_GIB then ONE_GIB else entry_end);
               s1 = (if capped_end > total_blocks s * 4096
                     then s\<lparr>total_blocks := (capped_end + 4095) div 4096\<rparr> else s)
           in free_entry_loop (me_addr e) entry_end s1
      else s)"

fun init_mmap_tag :: "multiboot_tag \<Rightarrow> pmm_state \<Rightarrow> pmm_state" where
  "init_mmap_tag (TagMmap entries) s = fold init_mmap_entry entries s"
| "init_mmap_tag _ s = s"

fun is_mmap_tag :: "multiboot_tag \<Rightarrow> bool" where
  "is_mmap_tag (TagMmap _) = True"
| "is_mmap_tag _ = False"

fun mark_module_tag :: "multiboot_tag \<Rightarrow> pmm_state \<Rightarrow> pmm_state" where
  "mark_module_tag (TagModule mod_start mod_end) s = mark_used_range (ucast mod_start) (ucast mod_end) s"
| "mark_module_tag _ s = s"

definition pmm_all_used :: pmm_state where
  "pmm_all_used = \<lparr>pmm_bitmap = replicate BITMAP_BYTES 0xFF, pmm_refcounts = replicate PMM_BLOCKS 0,
     total_blocks = 0, free_blocks = 0, oom_reported = False\<rparr>"

definition pmm_parse_mmap :: "multiboot_tag list \<Rightarrow> pmm_state" where
  "pmm_parse_mmap tags =
     (let s = fold init_mmap_tag tags pmm_all_used
      in if \<not> list_ex is_mmap_tag tags
         then fold release_block [0..<32768] (s\<lparr>total_blocks := 32768\<rparr>)
         else if total_blocks s = 0 then s\<lparr>total_blocks := 262144\<rparr> else s)"

record boot_info =
  mb_info :: u64
  mb_total_size :: u32
  mb_tags :: "multiboot_tag list"
  kernel_start :: u64
  kernel_end :: u64

definition pmm_init :: "boot_info \<Rightarrow> pmm_state" where
  "pmm_init b =
     (let s1 = pmm_parse_mmap (mb_tags b);
          s2 = fold mark_block_used [0..<256] s1;
          s3 = mark_used_range (kernel_start b) (kernel_end b) s2;
          s4 = (if mb_total_size b \<ge> 8 \<and> mb_total_size b < 1024 * 1024
                then mark_used_range (mb_info b) (mb_info b + ucast (mb_total_size b)) s3 else s3)
      in fold mark_module_tag (mb_tags b) s4)"

section \<open>Operations\<close>

text \<open>A returned address of 0 is the NULL of the C code.\<close>

definition pmm_alloc_block :: "pmm_state \<Rightarrow> u64 \<times> pmm_state" where
  "pmm_alloc_block s =
     (case find (\<lambda>i. \<not> bitmap_test (pmm_bitmap s) i) [0..<unat (total_blocks s)] of
        Some i \<Rightarrow>
          (of_nat i * 4096,
           s\<lparr>pmm_bitmap := bitmap_set (pmm_bitmap s) i,
             pmm_refcounts := (pmm_refcounts s)[i := 1],
             free_blocks := (if free_blocks s > 0 then free_blocks s - 1 else free_blocks s),
             oom_reported := False\<rparr>)
      | None \<Rightarrow> (0, s\<lparr>oom_reported := True\<rparr>))"

text \<open>\<open>True\<close> is the return value 0, \<open>False\<close> is -1.\<close>

definition pmm_retain_block :: "u64 \<Rightarrow> pmm_state \<Rightarrow> bool \<times> pmm_state" where
  "pmm_retain_block addr s =
     (let block = unat (addr div 4096)
      in if addr AND 0xFFF \<noteq> 0 \<or> addr div 4096 \<ge> total_blocks s then (False, s)
         else if \<not> bitmap_test (pmm_bitmap s) block \<or> pmm_refcounts s ! block = 0 \<or>
                 pmm_refcounts s ! block = 0xFFFF then (False, s)
         else (True, s\<lparr>pmm_refcounts := (pmm_refcounts s)[block := pmm_refcounts s ! block + 1]\<rparr>))"

definition pmm_free_block :: "u64 \<Rightarrow> pmm_state \<Rightarrow> pmm_state" where
  "pmm_free_block addr s =
     (let block = unat (addr div 4096)
      in if addr AND 0xFFF \<noteq> 0 \<or> addr div 4096 \<ge> total_blocks s \<or> pmm_refcounts s ! block = 0 then s
         else if pmm_refcounts s ! block > 1
         then s\<lparr>pmm_refcounts := (pmm_refcounts s)[block := pmm_refcounts s ! block - 1]\<rparr>
         else let s1 = s\<lparr>pmm_refcounts := (pmm_refcounts s)[block := 0]\<rparr>
              in if bitmap_test (pmm_bitmap s1) block
                 then s1\<lparr>pmm_bitmap := bitmap_clear (pmm_bitmap s1) block,
                         free_blocks := free_blocks s1 + 1, oom_reported := False\<rparr>
                 else s1)"

definition pmm_block_refcount :: "u64 \<Rightarrow> pmm_state \<Rightarrow> u16" where
  "pmm_block_refcount addr s =
     (if addr AND 0xFFF \<noteq> 0 \<or> addr div 4096 \<ge> total_blocks s then 0
      else pmm_refcounts s ! unat (addr div 4096))"

definition pmm_total_memory :: "pmm_state \<Rightarrow> u64" where
  "pmm_total_memory s = total_blocks s * 4096"

definition pmm_free_memory :: "pmm_state \<Rightarrow> u64" where
  "pmm_free_memory s = free_blocks s * 4096"

definition pmm_used_memory :: "pmm_state \<Rightarrow> u64" where
  "pmm_used_memory s = pmm_total_memory s - pmm_free_memory s"

section \<open>Bitmap laws\<close>

lemma bitmap_test_bit: "bitmap_test bm i \<longleftrightarrow> bit (bm ! (i div 8)) (i mod 8)"
  by (simp add: bitmap_test_def block_mask_def bit_iff_and_push_bit_not_eq_0)

lemma bit_block_mask: "j < 8 \<Longrightarrow> bit (block_mask i) j \<longleftrightarrow> j = i mod 8"
  by (auto simp: block_mask_def bit_exp_iff possible_bit_word)

lemma same_block: "i div 8 = j div 8 \<Longrightarrow> i mod 8 = j mod 8 \<Longrightarrow> i = (j::nat)"
  using div_mod_decomp [of i 8] div_mod_decomp [of j 8] by simp

lemma bitmap_test_set:
  assumes "i div 8 < length bm"
  shows "bitmap_test (bitmap_set bm i) j \<longleftrightarrow> i = j \<or> bitmap_test bm j"
proof (cases "i div 8 = j div 8")
  case True
  then have "i = j \<longleftrightarrow> j mod 8 = i mod 8" using same_block [of i j] by auto
  then show ?thesis using assms True
    by (simp add: bitmap_test_bit bitmap_set_def bit_or_iff bit_block_mask possible_bit_word disj_commute)
next
  case False
  then show ?thesis by (auto simp: bitmap_test_def bitmap_set_def)
qed

lemma bitmap_test_clear:
  assumes "i div 8 < length bm"
  shows "bitmap_test (bitmap_clear bm i) j \<longleftrightarrow> i \<noteq> j \<and> bitmap_test bm j"
proof (cases "i div 8 = j div 8")
  case True
  then have "i = j \<longleftrightarrow> j mod 8 = i mod 8" using same_block [of i j] by auto
  then show ?thesis using assms True
    by (simp add: bitmap_test_bit bitmap_clear_def bit_and_iff bit_not_iff bit_block_mask possible_bit_word conj_commute)
next
  case False
  then show ?thesis by (auto simp: bitmap_test_def bitmap_clear_def)
qed

lemma length_bitmap [simp]:
  "length (bitmap_set bm i) = length bm" "length (bitmap_clear bm i) = length bm"
  by (simp_all add: bitmap_set_def bitmap_clear_def)

section \<open>Invariant\<close>

definition free_set :: "pmm_state \<Rightarrow> nat set" where
  "free_set s = {i. i < PMM_BLOCKS \<and> \<not> bitmap_test (pmm_bitmap s) i}"

text \<open>
  The counter agrees with the bitmap, and a frame that the bitmap shows as free lies inside the
  managed range and has no owners; owned frames lie inside the managed range too.
\<close>

definition pmm_inv :: "pmm_state \<Rightarrow> bool" where
  "pmm_inv s \<longleftrightarrow>
     length (pmm_bitmap s) = BITMAP_BYTES \<and> length (pmm_refcounts s) = PMM_BLOCKS \<and>
     unat (total_blocks s) \<le> PMM_BLOCKS \<and> unat (free_blocks s) = card (free_set s) \<and>
     (\<forall>i \<in> free_set s. i < unat (total_blocks s) \<and> pmm_refcounts s ! i = 0) \<and>
     (\<forall>i < PMM_BLOCKS. pmm_refcounts s ! i \<noteq> 0 \<longrightarrow> i < unat (total_blocks s))"

text \<open>A reserved frame is in use and has no owner, so no operation may ever release it.\<close>

definition frame_reserved :: "pmm_state \<Rightarrow> nat \<Rightarrow> bool" where
  "frame_reserved s i \<longleftrightarrow>
     i < PMM_BLOCKS \<and> bitmap_test (pmm_bitmap s) i \<and> pmm_refcounts s ! i = 0"

lemma finite_free_set [simp]: "finite (free_set s)"
  by (rule finite_subset [of _ "{..<PMM_BLOCKS}"]) (auto simp: free_set_def)

lemma card_free_set_le: "card (free_set s) \<le> PMM_BLOCKS"
proof -
  have "card (free_set s) \<le> card {..<PMM_BLOCKS}"
    by (rule card_mono) (auto simp: free_set_def)
  then show ?thesis by simp
qed

lemma block_in_bitmap: "i < PMM_BLOCKS \<Longrightarrow> i div 8 < BITMAP_BYTES"
  by (simp add: PMM_BLOCKS_def BITMAP_BYTES_def)

lemma pmm_invD:
  assumes "pmm_inv s"
  shows "length (pmm_bitmap s) = BITMAP_BYTES" "length (pmm_refcounts s) = PMM_BLOCKS"
    "unat (total_blocks s) \<le> PMM_BLOCKS" "unat (free_blocks s) = card (free_set s)"
    "i \<in> free_set s \<Longrightarrow> i < unat (total_blocks s)" "i \<in> free_set s \<Longrightarrow> pmm_refcounts s ! i = 0"
    "i < PMM_BLOCKS \<Longrightarrow> pmm_refcounts s ! i \<noteq> 0 \<Longrightarrow> i < unat (total_blocks s)"
  using assms by (auto simp: pmm_inv_def)

lemma free_set_setbit:
  assumes "length (pmm_bitmap s) = BITMAP_BYTES" "i < PMM_BLOCKS"
  shows "{j. j < PMM_BLOCKS \<and> \<not> bitmap_test (bitmap_set (pmm_bitmap s) i) j} = free_set s - {i}"
  using assms block_in_bitmap [of i] by (auto simp: free_set_def bitmap_test_set)

lemma free_set_clearbit:
  assumes "length (pmm_bitmap s) = BITMAP_BYTES" "i < PMM_BLOCKS"
  shows "{j. j < PMM_BLOCKS \<and> \<not> bitmap_test (bitmap_clear (pmm_bitmap s) i) j} = insert i (free_set s)"
  using assms block_in_bitmap [of i] by (auto simp: free_set_def bitmap_test_clear)

lemma free_blocks_pred:
  assumes "pmm_inv s" "i \<in> free_set s"
  shows "free_blocks s > 0" "unat (free_blocks s - 1) = card (free_set s - {i})"
proof -
  have "card (free_set s) > 0" using assms(2) by (auto simp: card_gt_0_iff)
  then have "unat (free_blocks s) > 0" using pmm_invD(4) [OF assms(1)] by simp
  then show "free_blocks s > 0" by (simp add: word_gt_0 unat_gt_0)
  then show "unat (free_blocks s - 1) = card (free_set s - {i})"
    using assms pmm_invD(4) [OF assms(1)] by (simp add: unat_pred word_gt_0)
qed

lemma free_blocks_succ:
  assumes "pmm_inv s" "i < PMM_BLOCKS" "i \<notin> free_set s"
  shows "unat (free_blocks s + 1) = card (insert i (free_set s))"
proof -
  have "Suc (unat (free_blocks s)) < 2 ^ LENGTH(64)"
    using card_free_set_le [of s] pmm_invD(4) [OF assms(1)] by (simp add: PMM_BLOCKS_def)
  then show ?thesis
    using assms pmm_invD(4) [OF assms(1)] by (simp add: unat_Suc_small)
qed

section \<open>Initialisation keeps the invariant\<close>

definition pmm_fresh :: "pmm_state \<Rightarrow> bool" where
  "pmm_fresh s \<longleftrightarrow> pmm_inv s \<and> pmm_refcounts s = replicate PMM_BLOCKS 0"

lemma free_set_mark_block_used:
  assumes "pmm_inv s" "i < PMM_BLOCKS"
  shows "free_set (mark_block_used i s) = free_set s - {i}"
  using free_set_setbit [OF pmm_invD(1) [OF assms(1)] assms(2)]
  by (simp add: mark_block_used_def Let_def free_set_def)

lemma mark_block_used_fields [simp]:
  "pmm_refcounts (mark_block_used i s) = pmm_refcounts s"
  "total_blocks (mark_block_used i s) = total_blocks s"
  "length (pmm_bitmap (mark_block_used i s)) = length (pmm_bitmap s)"
  by (simp_all add: mark_block_used_def Let_def)

lemma mark_block_used_inv:
  assumes inv: "pmm_inv s" and i: "i < PMM_BLOCKS"
  shows "pmm_inv (mark_block_used i s)"
proof -
  have "unat (free_blocks (mark_block_used i s)) = card (free_set s - {i})"
  proof (cases "i \<in> free_set s")
    case True
    then have "\<not> bitmap_test (pmm_bitmap s) i" by (simp add: free_set_def)
    then show ?thesis using free_blocks_pred [OF inv True]
      by (simp add: mark_block_used_def Let_def)
  next
    case False
    then have "bitmap_test (pmm_bitmap s) i" using i by (simp add: free_set_def)
    then show ?thesis using False pmm_invD(4) [OF inv]
      by (simp add: mark_block_used_def Let_def)
  qed
  then show ?thesis
    using pmm_invD [OF inv] free_set_mark_block_used [OF inv i]
    by (auto simp: pmm_inv_def)
qed

lemma fold_mark_inv:
  assumes "pmm_inv s" "\<forall>i \<in> set is. i < PMM_BLOCKS"
  shows "pmm_inv (fold mark_block_used is s) \<and>
    free_set (fold mark_block_used is s) = free_set s - set is \<and>
    pmm_refcounts (fold mark_block_used is s) = pmm_refcounts s"
  using assms
proof (induction "is" arbitrary: s)
  case (Cons i "is")
  then show ?case
    using mark_block_used_inv [of s i] free_set_mark_block_used [of s i] by auto
qed simp

text \<open>The blocks that \<open>mark_used_range\<close> marks, when the rounded end does not wrap around.\<close>

lemma used_range_blocks_bound: "i \<in> set (used_range_blocks start end') \<Longrightarrow> i < PMM_BLOCKS"
proof -
  define re :: u64 where "re = (end' + 0xFFF) AND NOT 0xFFF"
  define cap where "cap = (if re > ONE_GIB then ONE_GIB else re)"
  assume "i \<in> set (used_range_blocks start end')"
  then have "i < unat (cap div 4096)"
    unfolding used_range_blocks_def Let_def re_def [symmetric] cap_def [symmetric]
    by (simp split: if_splits)
  moreover have "unat cap \<le> 1073741824"
    by (simp add: cap_def ONE_GIB_def word_le_nat_alt not_less)
  ultimately show ?thesis by (simp add: unat_div_distrib PMM_BLOCKS_def)
qed

text \<open>Every frame that overlaps the range is marked, when the rounded end does not wrap around.\<close>

lemma used_range_blocks_covers:
  assumes i: "i < PMM_BLOCKS"
    and lo: "unat start div 4096 \<le> i" and hi: "i * 4096 < unat end'"
    and nowrap: "unat end' \<le> 2 ^ 64 - 4096" and "start < end'"
  shows "i \<in> set (used_range_blocks start end')"
proof -
  define rs where "rs = start AND NOT 0xFFF"
  define re where "re = (end' + 0xFFF) AND NOT 0xFFF"
  define cap where "cap = (if re > ONE_GIB then ONE_GIB else re)"
  have rs: "unat (rs div 4096) = unat start div 4096" "unat rs = unat start div 4096 * 4096"
    by (simp_all only: rs_def unat_div_distrib unat_page_down) simp
  have "unat start div 4096 * 4096 < 1073741824"
    using lo i by (simp add: PMM_BLOCKS_def)
  then have "\<not> rs \<ge> ONE_GIB" using rs(2) by (simp add: ONE_GIB_def word_le_nat_alt)
  moreover have "i < unat (cap div 4096)"
  proof (cases "re > ONE_GIB")
    case True
    then show ?thesis using i by (simp add: cap_def ONE_GIB_def PMM_BLOCKS_def)
  next
    case False
    have "unat (end' + 0xFFF) = unat end' + 4095"
      using nowrap by (subst unat_add_small) simp_all
    then have "unat (re div 4096) = (unat end' + 4095) div 4096"
      by (simp only: re_def unat_div_distrib unat_page_down) simp
    moreover have "i < (unat end' + 4095) div 4096" using hi by linarith
    ultimately show ?thesis using False by (simp add: cap_def)
  qed
  ultimately show ?thesis using rs(1) lo \<open>start < end'\<close>
    unfolding used_range_blocks_def Let_def re_def [symmetric] cap_def [symmetric] rs_def [symmetric]
    by simp
qed

lemma mark_used_range_inv:
  assumes inv: "pmm_inv s"
  shows "pmm_inv (mark_used_range start end' s)"
    and "free_set (mark_used_range start end' s) = free_set s - set (used_range_blocks start end')"
    and "pmm_refcounts (mark_used_range start end' s) = pmm_refcounts s"
  using fold_mark_inv [OF inv, of "used_range_blocks start end'"] used_range_blocks_bound
  by (auto simp: mark_used_range_def)

lemma release_block_fresh:
  assumes fresh: "pmm_fresh s" and i: "i < unat (total_blocks s)"
  shows "pmm_fresh (release_block i s)" "total_blocks (release_block i s) = total_blocks s"
proof -
  have inv: "pmm_inv s" and rc: "pmm_refcounts s = replicate PMM_BLOCKS 0"
    using fresh by (auto simp: pmm_fresh_def)
  have ib: "i < PMM_BLOCKS" using i pmm_invD(3) [OF inv] by simp
  show "total_blocks (release_block i s) = total_blocks s" by (simp add: release_block_def)
  show "pmm_fresh (release_block i s)"
  proof (cases "bitmap_test (pmm_bitmap s) i")
    case True
    then have nf: "i \<notin> free_set s" by (simp add: free_set_def)
    have fs: "free_set (release_block i s) = insert i (free_set s)"
      using True free_set_clearbit [OF pmm_invD(1) [OF inv] ib]
      by (simp add: release_block_def free_set_def)
    have "unat (free_blocks (release_block i s)) = card (free_set (release_block i s))"
      using True free_blocks_succ [OF inv ib nf] by (simp only: fs) (simp add: release_block_def)
    then show ?thesis
      using pmm_invD [OF inv] rc i ib fs True
      by (auto simp: pmm_fresh_def pmm_inv_def) (auto simp: release_block_def)
  next
    case False
    then show ?thesis using fresh by (simp add: release_block_def)
  qed
qed

lemma fold_release_fresh:
  assumes "pmm_fresh s" "\<forall>i \<in> set is. i < unat (total_blocks s)"
  shows "pmm_fresh (fold release_block is s)"
  using assms
proof (induction "is" arbitrary: s)
  case (Cons i "is")
  then show ?case using release_block_fresh [of s i] by simp
qed simp

lemma free_entry_loop_fresh:
  assumes "pmm_fresh s"
    and "\<And>a. a < end' \<Longrightarrow> a < ONE_GIB \<Longrightarrow> unat (a div 4096) < unat (total_blocks s)"
  shows "pmm_fresh (free_entry_loop addr end' s) \<and>
    total_blocks (free_entry_loop addr end' s) = total_blocks s"
  using assms
proof (induction addr end' s rule: free_entry_loop.induct)
  case (1 addr end' s)
  show ?case
  proof (cases "addr < end' \<and> \<not> addr \<ge> ONE_GIB")
    case True
    let ?s = "release_block (unat (addr div 4096)) s"
    have lt: "unat (addr div 4096) < unat (total_blocks s)" using True by (intro "1.prems"(2)) (simp_all add: not_le)
    have "pmm_fresh (free_entry_loop (addr + 4096) end' ?s) \<and>
        total_blocks (free_entry_loop (addr + 4096) end' ?s) = total_blocks ?s"
      by (rule "1.IH" [OF True])
        (simp_all only: release_block_fresh [OF "1.prems"(1) lt] "1.prems"(2))
    then show ?thesis
      using True release_block_fresh(2) [OF "1.prems"(1) lt]
      by (simp add: free_entry_loop.simps [of addr end' s])
  next
    case False
    then show ?thesis using "1.prems"(1)
      by (simp only: free_entry_loop.simps [of addr end' s] if_False)
  qed
qed

lemma total_blocks_grow:
  assumes fresh: "pmm_fresh s" and t: "unat (total_blocks s) \<le> t" "t \<le> PMM_BLOCKS"
  shows "pmm_fresh (s\<lparr>total_blocks := of_nat t\<rparr>)"
proof -
  have "unat (of_nat t :: u64) = t"
    using t(2) by (intro unat_of_nat_small) (simp add: PMM_BLOCKS_def)
  then show ?thesis
    using fresh t unfolding pmm_fresh_def pmm_inv_def free_set_def by fastforce
qed

lemma init_mmap_entry_fresh:
  assumes fresh: "pmm_fresh s"
  shows "pmm_fresh (init_mmap_entry e s)"
proof (cases "me_type e = 1")
  case True
  define ee where "ee = me_addr e + me_len e"
  define cap where "cap = (if ee > ONE_GIB then ONE_GIB else ee)"
  define s1 where "s1 = (if cap > total_blocks s * 4096
                     then s\<lparr>total_blocks := (cap + 4095) div 4096\<rparr> else s)"
  have tb: "unat (total_blocks s) \<le> 262144"
    using fresh by (simp add: pmm_fresh_def pmm_inv_def PMM_BLOCKS_def)
  have tm: "unat (total_blocks s * 4096) = unat (total_blocks s) * 4096"
    using tb by (subst unat_mult_small) simp_all
  have cap: "unat cap \<le> 1073741824"
    by (simp add: cap_def ONE_GIB_def word_le_nat_alt not_less)
  have up: "unat ((cap + 4095) div 4096) = (unat cap + 4095) div 4096"
    using cap by (simp add: unat_div_distrib unat_add_small)
  have s1: "pmm_fresh s1 \<and> unat cap \<le> unat (total_blocks s1) * 4096"
  proof (cases "cap > total_blocks s * 4096")
    case True
    then have gt: "unat (total_blocks s) * 4096 < unat cap"
      using tm by (simp add: word_less_nat_alt)
    have "pmm_fresh (s\<lparr>total_blocks := of_nat ((unat cap + 4095) div 4096)\<rparr>)"
      using gt cap by (intro total_blocks_grow [OF fresh]) (simp_all add: PMM_BLOCKS_def)
    moreover have "of_nat ((unat cap + 4095) div 4096) = (cap + 4095) div 4096"
      unfolding up [symmetric] by simp
    ultimately show ?thesis using True up by (auto simp: s1_def)
  next
    case False
    then show ?thesis using fresh tm by (simp add: s1_def word_less_nat_alt)
  qed
  have "pmm_fresh (free_entry_loop (me_addr e) ee s1)"
  proof (rule free_entry_loop_fresh [THEN conjunct1])
    show "pmm_fresh s1" using s1 by simp
    fix a assume "a < ee" "a < ONE_GIB"
    then have "unat a < unat cap" by (auto simp: cap_def word_less_nat_alt)
    then show "unat (a div 4096) < unat (total_blocks s1)"
      using s1 by (simp add: unat_div_distrib less_mult_imp_div_less)
  qed
  then show ?thesis
    unfolding init_mmap_entry_def Let_def ee_def [symmetric] cap_def [symmetric] s1_def [symmetric]
    using True by simp
next
  case False
  then show ?thesis using fresh by (simp add: init_mmap_entry_def)
qed

lemma fold_fresh:
  assumes "pmm_fresh s" "\<And>x s. pmm_fresh s \<Longrightarrow> pmm_fresh (f x s)"
  shows "pmm_fresh (fold f xs s)"
  using assms by (induction xs arbitrary: s) auto

lemma init_mmap_tag_fresh: "pmm_fresh s \<Longrightarrow> pmm_fresh (init_mmap_tag t s)"
  by (cases t) (auto intro: fold_fresh init_mmap_entry_fresh)

lemma pmm_all_used_fresh: "pmm_fresh pmm_all_used"
proof -
  have "bitmap_test (pmm_bitmap pmm_all_used) i" if "i < PMM_BLOCKS" for i
  proof -
    have "bit (0xFF :: u8) (i mod 8)"
    proof -
      have "(0xFF :: u8) = mask 8" by (simp add: mask_eq_exp_minus_1)
      then show ?thesis by (simp only: bit_mask_iff possible_bit_word) simp
    qed
    then show ?thesis using block_in_bitmap [OF that]
      by (simp add: bitmap_test_bit pmm_all_used_def)
  qed
  then have "free_set pmm_all_used = {}" by (auto simp: free_set_def)
  then show ?thesis
    unfolding pmm_fresh_def pmm_inv_def by (simp add: pmm_all_used_def PMM_BLOCKS_def)
qed

lemma pmm_parse_mmap_fresh: "pmm_fresh (pmm_parse_mmap tags)"
proof -
  define s where "s = fold init_mmap_tag tags pmm_all_used"
  have s: "pmm_fresh s"
    unfolding s_def by (intro fold_fresh pmm_all_used_fresh init_mmap_tag_fresh)
  show ?thesis
  proof (cases "list_ex is_mmap_tag tags")
    case True
    then show ?thesis
      using s total_blocks_grow [OF s, of 262144]
      by (auto simp: pmm_parse_mmap_def s_def [symmetric] Let_def PMM_BLOCKS_def)
  next
    case False
    then have "t \<in> set tags \<Longrightarrow> init_mmap_tag t = id" for t
      by (cases t) (auto simp: list_ex_iff)
    then have "s = pmm_all_used"
      unfolding s_def by (induction tags) (auto simp: list_ex_iff)
    then have "pmm_fresh (s\<lparr>total_blocks := of_nat 32768\<rparr>)"
      by (intro total_blocks_grow [OF s]) (simp_all add: pmm_all_used_def PMM_BLOCKS_def)
    then have "pmm_fresh (fold release_block [0..<32768] (s\<lparr>total_blocks := 32768\<rparr>))"
      by (intro fold_release_fresh) (simp_all add: of_nat_numeral)
    then show ?thesis using False
      by (simp only: pmm_parse_mmap_def s_def [symmetric] Let_def not_False_eq_True if_True)
  qed
qed

lemma mark_used_range_fresh: "pmm_fresh s \<Longrightarrow> pmm_fresh (mark_used_range a b s)"
  using mark_used_range_inv [of s a b] by (simp add: pmm_fresh_def)

lemma fold_module_fresh:
  assumes "pmm_fresh s"
  shows "pmm_fresh (fold mark_module_tag tags s)"
    and "free_set (fold mark_module_tag tags s) \<subseteq> free_set s"
    and "TagModule ms me \<in> set tags \<Longrightarrow>
      free_set (fold mark_module_tag tags s) \<inter> set (used_range_blocks (ucast ms) (ucast me)) = {}"
proof -
  have step: "pmm_fresh (mark_module_tag t s) \<and> free_set (mark_module_tag t s) \<subseteq> free_set s"
    if "pmm_fresh s" for t s
    using that mark_used_range_inv(2) mark_used_range_fresh
    by (cases t) (auto simp: pmm_fresh_def)
  have *: "pmm_fresh (fold mark_module_tag tags s) \<and>
      free_set (fold mark_module_tag tags s) \<subseteq> free_set s" if "pmm_fresh s" for tags s
    using that step by (induction tags arbitrary: s) (auto, blast)
  show "pmm_fresh (fold mark_module_tag tags s)"
    and "free_set (fold mark_module_tag tags s) \<subseteq> free_set s"
    using * [OF assms] by auto
  show "free_set (fold mark_module_tag tags s) \<inter> set (used_range_blocks (ucast ms) (ucast me)) = {}"
    if "TagModule ms me \<in> set tags"
    using that assms
  proof (induction tags arbitrary: s)
    case (Cons t tags)
    show ?case
    proof (cases "t = TagModule ms me")
      case True
      have f: "pmm_fresh (mark_module_tag t s)" using step [OF Cons.prems(2)] by simp
      have "free_set (mark_module_tag t s) =
          free_set s - set (used_range_blocks (ucast ms) (ucast me))"
        using True mark_used_range_inv(2) Cons.prems(2) by (simp add: pmm_fresh_def)
      with * [OF f, of tags] show ?thesis by auto
    next
      case False
      with Cons show ?thesis using step [of s t] by simp
    qed
  qed simp
qed

section \<open>The allocator as ownership of frames\<close>

datatype frame_status = Free | Reserved | Owned nat

text \<open>Abstraction of the two tables: the status of every frame.\<close>

definition pmm_view :: "pmm_state \<Rightarrow> nat \<Rightarrow> frame_status" where
  "pmm_view s i =
     (if i \<ge> PMM_BLOCKS then Reserved
      else if \<not> bitmap_test (pmm_bitmap s) i then Free
      else if pmm_refcounts s ! i = 0 then Reserved
      else Owned (unat (pmm_refcounts s ! i)))"

definition frame_of :: "u64 \<Rightarrow> nat" where
  "frame_of addr = unat addr div 4096"

definition page_aligned :: "u64 \<Rightarrow> bool" where
  "page_aligned addr \<longleftrightarrow> unat addr mod 4096 = 0"

lemma pmm_view_Free: "pmm_view s i = Free \<longleftrightarrow> i \<in> free_set s"
  by (auto simp: pmm_view_def free_set_def)

lemma pmm_view_Reserved: "pmm_view s i = Reserved \<longleftrightarrow> i \<ge> PMM_BLOCKS \<or> frame_reserved s i"
  by (auto simp: pmm_view_def frame_reserved_def)

lemma pmm_view_Owned:
  "pmm_view s i = Owned n \<longleftrightarrow>
     i < PMM_BLOCKS \<and> bitmap_test (pmm_bitmap s) i \<and> pmm_refcounts s ! i \<noteq> 0 \<and>
     n = unat (pmm_refcounts s ! i)"
  by (auto simp: pmm_view_def)

text \<open>The first free block, as the scan of \<open>pmm_alloc_block\<close> finds it.\<close>

lemma alloc_scan_None:
  assumes "pmm_inv s"
  shows "find (\<lambda>i. \<not> bitmap_test (pmm_bitmap s) i) [0..<unat (total_blocks s)] = None
    \<longleftrightarrow> free_set s = {}"
  using pmm_invD(3,5) [OF assms] by (fastforce simp: find_None_iff free_set_def)

lemma alloc_scan_Some:
  assumes "pmm_inv s" "find (\<lambda>i. \<not> bitmap_test (pmm_bitmap s) i) [0..<unat (total_blocks s)] = Some i"
  shows "i \<in> free_set s" "\<And>j. j < i \<Longrightarrow> j \<notin> free_set s"
  using assms(2) pmm_invD(3) [OF assms(1)]
  by (auto simp: find_Some_iff free_set_def)

lemma frame_addr:
  assumes "i < PMM_BLOCKS"
  shows "unat (of_nat i * 4096 :: u64) = i * 4096" "frame_of (of_nat i * 4096) = i"
    "page_aligned (of_nat i * 4096)"
proof -
  have i: "unat (of_nat i :: u64) = i"
    using assms by (intro unat_of_nat_small) (simp add: PMM_BLOCKS_def)
  show u: "unat (of_nat i * 4096 :: u64) = i * 4096"
    using assms i by (subst unat_mult_small) (simp_all add: PMM_BLOCKS_def)
  show "frame_of (of_nat i * 4096) = i" "page_aligned (of_nat i * 4096)"
    by (simp_all add: frame_of_def page_aligned_def u)
qed

lemma pmm_alloc_none:
  assumes "pmm_inv s" "free_set s = {}"
  shows "pmm_alloc_block s = (0, s\<lparr>oom_reported := True\<rparr>)"
  using alloc_scan_None [OF assms(1)] assms(2) by (simp add: pmm_alloc_block_def)

lemma pmm_alloc_some:
  assumes inv: "pmm_inv s" and free: "free_set s \<noteq> {}"
  obtains i where "i = (LEAST i. i \<in> free_set s)" "i \<in> free_set s"
    "fst (pmm_alloc_block s) = of_nat i * 4096"
    "pmm_bitmap (snd (pmm_alloc_block s)) = bitmap_set (pmm_bitmap s) i"
    "pmm_refcounts (snd (pmm_alloc_block s)) = (pmm_refcounts s)[i := 1]"
    "total_blocks (snd (pmm_alloc_block s)) = total_blocks s"
    "free_blocks (snd (pmm_alloc_block s)) = free_blocks s - 1"
proof -
  from alloc_scan_None [OF inv] free obtain i where
    i: "find (\<lambda>i. \<not> bitmap_test (pmm_bitmap s) i) [0..<unat (total_blocks s)] = Some i"
    by fastforce
  have "i = (LEAST i. i \<in> free_set s)"
    using alloc_scan_Some [OF inv i] by (metis LeastI Least_le order_le_less)
  moreover have "free_blocks s > 0"
    using alloc_scan_Some(1) [OF inv i] free_blocks_pred(1) [OF inv] by blast
  ultimately show thesis
    using that [of i] alloc_scan_Some(1) [OF inv i] i by (simp add: pmm_alloc_block_def)
qed

lemma pmm_alloc_inv:
  assumes inv: "pmm_inv s"
  shows "pmm_inv (snd (pmm_alloc_block s))"
proof (cases "free_set s = {}")
  case True
  then show ?thesis using inv
    by (simp add: pmm_alloc_none [OF inv True] pmm_inv_def free_set_def)
next
  case False
  obtain i where i: "i \<in> free_set s"
    "pmm_bitmap (snd (pmm_alloc_block s)) = bitmap_set (pmm_bitmap s) i"
    "pmm_refcounts (snd (pmm_alloc_block s)) = (pmm_refcounts s)[i := 1]"
    "total_blocks (snd (pmm_alloc_block s)) = total_blocks s"
    "free_blocks (snd (pmm_alloc_block s)) = free_blocks s - 1"
    by (rule pmm_alloc_some [OF inv False])
  have ib: "i < PMM_BLOCKS" using i(1) by (simp add: free_set_def)
  have fs: "free_set (snd (pmm_alloc_block s)) = free_set s - {i}"
    using free_set_setbit [OF pmm_invD(1) [OF inv] ib] i(2) by (simp add: free_set_def)
  show ?thesis
    unfolding pmm_inv_def fs i
    using pmm_invD [OF inv] free_blocks_pred [OF inv i(1)] i(1) ib
    by (auto simp: nth_list_update split: if_splits)
qed

lemma pmm_alloc_view:
  assumes inv: "pmm_inv s" and free: "free_set s \<noteq> {}"
  defines "f \<equiv> (LEAST i. i \<in> free_set s)"
  shows "page_aligned (fst (pmm_alloc_block s))" "frame_of (fst (pmm_alloc_block s)) = f"
    "pmm_view (snd (pmm_alloc_block s)) = (pmm_view s)(f := Owned 1)"
proof -
  obtain i where i: "i = (LEAST i. i \<in> free_set s)" "i \<in> free_set s"
    "fst (pmm_alloc_block s) = of_nat i * 4096"
    "pmm_bitmap (snd (pmm_alloc_block s)) = bitmap_set (pmm_bitmap s) i"
    "pmm_refcounts (snd (pmm_alloc_block s)) = (pmm_refcounts s)[i := 1]"
    by (rule pmm_alloc_some [OF inv free])
  have ib: "i < PMM_BLOCKS" using i(2) by (simp add: free_set_def)
  show "page_aligned (fst (pmm_alloc_block s))" "frame_of (fst (pmm_alloc_block s)) = f"
    using frame_addr [OF ib] i(1,3) by (simp_all add: f_def)
  show "pmm_view (snd (pmm_alloc_block s)) = (pmm_view s)(f := Owned 1)"
    using ib i(1,4,5) pmm_invD(1,2) [OF inv] block_in_bitmap [OF ib]
    by (auto simp: pmm_view_def fun_eq_iff f_def bitmap_test_set nth_list_update)
qed

lemma frame_of_div: "unat (a div 4096) = frame_of a"
  by (simp add: frame_of_def unat_div_distrib)

lemma total_guard: "a div 4096 \<ge> total_blocks s \<longleftrightarrow> unat (total_blocks s) \<le> frame_of a"
  by (simp add: word_le_nat_alt frame_of_div)

lemma pmm_retain_inv:
  assumes inv: "pmm_inv s"
  shows "pmm_inv (snd (pmm_retain_block a s))"
  using inv pmm_invD(5,6) [OF inv]
  by (auto simp: pmm_retain_block_def Let_def pmm_inv_def free_set_def nth_list_update total_guard
      frame_of_div not_le)

lemma pmm_retain_view:
  assumes inv: "pmm_inv s"
  shows "fst (pmm_retain_block a s) \<longleftrightarrow>
      page_aligned a \<and> (\<exists>n. pmm_view s (frame_of a) = Owned n \<and> n < 65535)"
    and "\<not> fst (pmm_retain_block a s) \<Longrightarrow> snd (pmm_retain_block a s) = s"
    and "fst (pmm_retain_block a s) \<Longrightarrow> pmm_view s (frame_of a) = Owned n \<Longrightarrow>
      pmm_view (snd (pmm_retain_block a s)) = (pmm_view s)(frame_of a := Owned (Suc n))"
proof -
  let ?f = "frame_of a" and ?r = "pmm_refcounts s ! frame_of a"
  have max: "?r = 0xFFFF \<longleftrightarrow> \<not> unat ?r < 65535"
    using unat_less [of ?r] by (auto simp: word_unat_eq_iff)
  have own: "?f < unat (total_blocks s)" if "?f < PMM_BLOCKS" "?r \<noteq> 0"
    using pmm_invD(7) [OF inv that] .
  have tot: "?f < PMM_BLOCKS" if "?f < unat (total_blocks s)"
    using pmm_invD(3) [OF inv] that by simp
  show "fst (pmm_retain_block a s) \<longleftrightarrow>
      page_aligned a \<and> (\<exists>n. pmm_view s ?f = Owned n \<and> n < 65535)"
    using own tot max
    by (auto simp: pmm_retain_block_def Let_def total_guard frame_of_div page_aligned_iff
        page_aligned_def pmm_view_Owned)
  show "\<not> fst (pmm_retain_block a s) \<Longrightarrow> snd (pmm_retain_block a s) = s"
    by (auto simp: pmm_retain_block_def Let_def)
  assume ok: "fst (pmm_retain_block a s)" and n: "pmm_view s ?f = Owned n"
  have lt: "unat ?r < 65535" using ok max
    by (auto simp: pmm_retain_block_def Let_def frame_of_div split: if_splits)
  then have "unat (?r + 1) = Suc (unat ?r)" by (intro unat_Suc_small) simp
  moreover have "?r + 1 \<noteq> 0" using calculation by (metis nat.distinct(1) unat_0)
  ultimately show "pmm_view (snd (pmm_retain_block a s)) = (pmm_view s)(?f := Owned (Suc n))"
    using ok n pmm_invD(2) [OF inv]
    by (auto simp: pmm_retain_block_def Let_def pmm_view_def fun_eq_iff frame_of_div nth_list_update
        split: if_splits)
qed

lemma pmm_free_view:
  assumes inv: "pmm_inv s"
  shows "pmm_view (pmm_free_block a s) =
    (if page_aligned a
     then case pmm_view s (frame_of a) of
            Owned n \<Rightarrow> (pmm_view s)(frame_of a := if n \<le> 1 then Free else Owned (n - 1))
          | _ \<Rightarrow> pmm_view s
     else pmm_view s)"
proof (cases "page_aligned a \<and> frame_of a < unat (total_blocks s) \<and> pmm_refcounts s ! frame_of a \<noteq> 0")
  case True
  let ?f = "frame_of a" and ?r = "pmm_refcounts s ! frame_of a"
  have fb: "?f < PMM_BLOCKS" using True pmm_invD(3) [OF inv] by simp
  have used: "bitmap_test (pmm_bitmap s) ?f"
    using True fb pmm_invD(6) [OF inv, of ?f] by (auto simp: free_set_def)
  have view: "pmm_view s ?f = Owned (unat ?r)" using True fb used by (simp add: pmm_view_Owned)
  have one: "unat ?r \<le> 1 \<longleftrightarrow> \<not> ?r > 1" "unat (?r - 1) = unat ?r - 1"
    using True by (simp_all add: word_less_nat_alt not_less unat_pred)
  have nz: "?r > 1 \<Longrightarrow> ?r - 1 \<noteq> 0"
    using one(2) by (metis diff_is_0_eq one(1) unat_0)
  show ?thesis
    using True view used fb one nz pmm_invD(1,2) [OF inv] block_in_bitmap [OF fb]
    by (auto simp: pmm_free_block_def Let_def total_guard frame_of_div page_aligned_iff
        page_aligned_def pmm_view_def fun_eq_iff bitmap_test_clear nth_list_update not_le)
next
  case False
  have "pmm_free_block a s = s"
    using False by (auto simp: pmm_free_block_def Let_def total_guard frame_of_div page_aligned_iff
        page_aligned_def not_less)
  moreover have "\<not> (\<exists>n. pmm_view s (frame_of a) = Owned n)" if "page_aligned a"
    using False that pmm_invD(7) [OF inv, of "frame_of a"] by (auto simp: pmm_view_Owned)
  ultimately show ?thesis by (auto split: frame_status.splits)
qed

lemma pmm_free_inv:
  assumes inv: "pmm_inv s"
  shows "pmm_inv (pmm_free_block a s)"
proof (cases "page_aligned a \<and> frame_of a < unat (total_blocks s) \<and> pmm_refcounts s ! frame_of a = 1")
  case True
  let ?f = "frame_of a"
  have fb: "?f < PMM_BLOCKS" using True pmm_invD(3) [OF inv] by simp
  have nf: "?f \<notin> free_set s" using True pmm_invD(6) [OF inv, of ?f] by auto
  then have used: "bitmap_test (pmm_bitmap s) ?f" using fb by (simp add: free_set_def)
  define s' where "s' = pmm_free_block a s"
  have s': "pmm_bitmap s' = bitmap_clear (pmm_bitmap s) ?f" "total_blocks s' = total_blocks s"
    "pmm_refcounts s' = (pmm_refcounts s)[?f := 0]" "free_blocks s' = free_blocks s + 1"
    using True used by (simp_all add: s'_def pmm_free_block_def Let_def total_guard frame_of_div
        page_aligned_iff page_aligned_def)
  have "free_set s' = insert ?f (free_set s)"
    using free_set_clearbit [OF pmm_invD(1) [OF inv] fb] s'(1) by (simp add: free_set_def)
  then show ?thesis
    unfolding pmm_inv_def s'_def [symmetric] s'
    using pmm_invD [OF inv] free_blocks_succ [OF inv fb nf] True fb
    by (auto simp: nth_list_update split: if_splits)
next
  case False
  have g1: "r > 1 \<longleftrightarrow> r \<noteq> 0 \<and> r \<noteq> 1" for r :: u16
    by (auto simp: word_less_nat_alt word_unat_eq_iff)
  show ?thesis
    using False inv pmm_invD(5,6) [OF inv]
    by (auto simp: pmm_free_block_def Let_def g1 total_guard frame_of_div page_aligned_iff
        page_aligned_def not_le pmm_inv_def free_set_def nth_list_update)
qed

section \<open>The allocator interface\<close>

text \<open>
  What the rest of the kernel relies on: the status of every frame before and after each call.
  The clients' consequences are proved once from these laws.
\<close>

locale frame_allocator =
  fixes view :: "'s \<Rightarrow> nat \<Rightarrow> frame_status"
    and invar :: "'s \<Rightarrow> bool"
    and alloc :: "'s \<Rightarrow> u64 \<times> 's"
    and retain :: "u64 \<Rightarrow> 's \<Rightarrow> bool \<times> 's"
    and release :: "u64 \<Rightarrow> 's \<Rightarrow> 's"
  assumes alloc_invar: "invar s \<Longrightarrow> invar (snd (alloc s))"
    and retain_invar: "invar s \<Longrightarrow> invar (snd (retain a s))"
    and release_invar: "invar s \<Longrightarrow> invar (release a s)"
    and owned_pos: "invar s \<Longrightarrow> view s i = Owned n \<Longrightarrow> 0 < n"
    and alloc_full: "invar s \<Longrightarrow> \<forall>i. view s i \<noteq> Free \<Longrightarrow>
      fst (alloc s) = 0 \<and> view (snd (alloc s)) = view s"
    and alloc_frame: "invar s \<Longrightarrow> view s i = Free \<Longrightarrow>
      page_aligned (fst (alloc s)) \<and> frame_of (fst (alloc s)) = (LEAST i. view s i = Free) \<and>
      view (snd (alloc s)) = (view s)((LEAST i. view s i = Free) := Owned 1)"
    and retain_ok: "invar s \<Longrightarrow> fst (retain a s) \<longleftrightarrow>
      page_aligned a \<and> (\<exists>n. view s (frame_of a) = Owned n \<and> n < 65535)"
    and retain_fail: "invar s \<Longrightarrow> \<not> fst (retain a s) \<Longrightarrow> snd (retain a s) = s"
    and retain_view: "invar s \<Longrightarrow> fst (retain a s) \<Longrightarrow> view s (frame_of a) = Owned n \<Longrightarrow>
      view (snd (retain a s)) = (view s)(frame_of a := Owned (Suc n))"
    and release_view: "invar s \<Longrightarrow> view (release a s) =
      (if page_aligned a
       then case view s (frame_of a) of
              Owned n \<Rightarrow> (view s)(frame_of a := if n \<le> 1 then Free else Owned (n - 1))
            | _ \<Rightarrow> view s
       else view s)"
begin

lemma alloc_takes_free:
  assumes "invar s" "view s i = Free"
  shows "view s (frame_of (fst (alloc s))) = Free"
  using alloc_frame [OF assms] LeastI [of "\<lambda>i. view s i = Free", OF assms(2)] by simp

lemma reserved_alloc:
  assumes "invar s" "view s i = Reserved"
  shows "view (snd (alloc s)) i = Reserved"
proof (cases "\<exists>j. view s j = Free")
  case True
  then obtain j where j: "view s j = Free" ..
  have "view s (LEAST i. view s i = Free) = Free" using j by (rule LeastI)
  with alloc_frame [OF assms(1) j] assms(2) show ?thesis by auto
next
  case False
  with alloc_full [OF assms(1)] assms(2) show ?thesis by simp
qed

lemma reserved_retain:
  assumes "invar s" "view s i = Reserved"
  shows "view (snd (retain a s)) i = Reserved"
proof (cases "fst (retain a s)")
  case True
  then obtain n where n: "view s (frame_of a) = Owned n" using retain_ok [OF assms(1)] by blast
  with retain_view [OF assms(1) True n] assms(2) show ?thesis by auto
next
  case False
  with retain_fail [OF assms(1)] assms(2) show ?thesis by simp
qed

lemma reserved_release:
  assumes "invar s" "view s i = Reserved"
  shows "view (release a s) i = Reserved"
  using release_view [OF assms(1), of a] assms(2) by (auto split: frame_status.splits)

lemma alloc_release_id:
  assumes "invar s" "view s i = Free"
  shows "view (release (fst (alloc s)) (snd (alloc s))) = view s"
proof -
  let ?f = "LEAST i. view s i = Free"
  have "view s ?f = Free" using assms(2) by (rule LeastI)
  then show ?thesis
    using release_view [OF alloc_invar [OF assms(1)], of "fst (alloc s)"] alloc_frame [OF assms]
    by (simp add: fun_upd_idem)
qed

lemma retain_release_id:
  assumes "invar s" "fst (retain a s)"
  shows "view (release a (snd (retain a s))) = view s"
proof -
  obtain n where n: "view s (frame_of a) = Owned n" "page_aligned a"
    using assms retain_ok by blast
  have "0 < n" using owned_pos [OF assms(1) n(1)] .
  with n show ?thesis
    using release_view [OF retain_invar [OF assms(1)], of a a] retain_view [OF assms n(1)]
    by (simp add: fun_upd_idem)
qed

end

interpretation pmm: frame_allocator pmm_view pmm_inv pmm_alloc_block pmm_retain_block pmm_free_block
proof
  fix s :: pmm_state and a :: u64 and i n :: nat
  assume inv: "pmm_inv s"
  show "pmm_inv (snd (pmm_alloc_block s))" by (rule pmm_alloc_inv [OF inv])
  show "pmm_inv (snd (pmm_retain_block a s))" by (rule pmm_retain_inv [OF inv])
  show "pmm_inv (pmm_free_block a s)" by (rule pmm_free_inv [OF inv])
  show "pmm_view s i = Owned n \<Longrightarrow> 0 < n"
    by (auto simp: pmm_view_Owned word_neq_0_conv unat_gt_0)
  show "fst (pmm_alloc_block s) = 0 \<and> pmm_view (snd (pmm_alloc_block s)) = pmm_view s"
    if "\<forall>i. pmm_view s i \<noteq> Free"
  proof -
    have "free_set s = {}" using that by (auto simp: pmm_view_Free)
    then show ?thesis by (simp add: pmm_alloc_none [OF inv] pmm_view_def fun_eq_iff)
  qed
  show "pmm_view s i = Free \<Longrightarrow>
      page_aligned (fst (pmm_alloc_block s)) \<and>
      frame_of (fst (pmm_alloc_block s)) = (LEAST i. pmm_view s i = Free) \<and>
      pmm_view (snd (pmm_alloc_block s)) = (pmm_view s)((LEAST i. pmm_view s i = Free) := Owned 1)"
    using pmm_alloc_view [OF inv] by (auto simp: pmm_view_Free)
  show "fst (pmm_retain_block a s) \<longleftrightarrow>
      page_aligned a \<and> (\<exists>n. pmm_view s (frame_of a) = Owned n \<and> n < 65535)"
    by (rule pmm_retain_view(1) [OF inv])
  show "\<not> fst (pmm_retain_block a s) \<Longrightarrow> snd (pmm_retain_block a s) = s"
    by (rule pmm_retain_view(2) [OF inv])
  show "fst (pmm_retain_block a s) \<Longrightarrow> pmm_view s (frame_of a) = Owned n \<Longrightarrow>
      pmm_view (snd (pmm_retain_block a s)) = (pmm_view s)(frame_of a := Owned (Suc n))"
    by (rule pmm_retain_view(3) [OF inv])
  show "pmm_view (pmm_free_block a s) =
    (if page_aligned a
     then case pmm_view s (frame_of a) of
            Owned n \<Rightarrow> (pmm_view s)(frame_of a := if n \<le> 1 then Free else Owned (n - 1))
          | _ \<Rightarrow> pmm_view s
     else pmm_view s)"
    by (rule pmm_free_view [OF inv])
qed

section \<open>Reachable allocator states\<close>

inductive pmm_reachable :: "boot_info \<Rightarrow> pmm_state \<Rightarrow> bool" for b where
  boot: "pmm_reachable b (pmm_init b)"
| alloc: "pmm_reachable b s \<Longrightarrow> pmm_reachable b (snd (pmm_alloc_block s))"
| retain: "pmm_reachable b s \<Longrightarrow> pmm_reachable b (snd (pmm_retain_block a s))"
| free: "pmm_reachable b s \<Longrightarrow> pmm_reachable b (pmm_free_block a s)"

definition boot_reserved :: "boot_info \<Rightarrow> nat set" where
  "boot_reserved b = {..<256} \<union> set (used_range_blocks (kernel_start b) (kernel_end b)) \<union>
     (if mb_total_size b \<ge> 8 \<and> mb_total_size b < 1024 * 1024
      then set (used_range_blocks (mb_info b) (mb_info b + ucast (mb_total_size b))) else {}) \<union>
     (\<Union>(ms, me) \<in> {(ms, me). TagModule ms me \<in> set (mb_tags b)}.
        set (used_range_blocks (ucast ms) (ucast me)))"

lemma pmm_init_fresh: "pmm_fresh (pmm_init b)" "free_set (pmm_init b) \<inter> boot_reserved b = {}"
proof -
  define s1 where "s1 = pmm_parse_mmap (mb_tags b)"
  define s2 where "s2 = fold mark_block_used [0..<256] s1"
  define s3 where "s3 = mark_used_range (kernel_start b) (kernel_end b) s2"
  define s4 where "s4 = (if mb_total_size b \<ge> 8 \<and> mb_total_size b < 1024 * 1024
                then mark_used_range (mb_info b) (mb_info b + ucast (mb_total_size b)) s3 else s3)"
  have init: "pmm_init b = fold mark_module_tag (mb_tags b) s4"
    by (simp only: pmm_init_def Let_def s1_def s2_def s3_def s4_def)
  have f1: "pmm_fresh s1" by (simp add: s1_def pmm_parse_mmap_fresh)
  have f2: "pmm_fresh s2 \<and> free_set s2 \<inter> {..<256} = {}"
    using fold_mark_inv [of s1 "[0..<256]"] f1
    by (auto simp: s2_def pmm_fresh_def PMM_BLOCKS_def simp del: upt_rec_numeral)
  have f3: "pmm_fresh s3" "free_set s3 = free_set s2 - set (used_range_blocks (kernel_start b) (kernel_end b))"
    using f2 mark_used_range_fresh mark_used_range_inv(2) by (auto simp: s3_def pmm_fresh_def)
  have f4: "pmm_fresh s4" "free_set s4 = free_set s3 -
      (if mb_total_size b \<ge> 8 \<and> mb_total_size b < 1024 * 1024
       then set (used_range_blocks (mb_info b) (mb_info b + ucast (mb_total_size b))) else {})"
    using f3(1) mark_used_range_fresh mark_used_range_inv(2) by (auto simp: s4_def pmm_fresh_def)
  show "pmm_fresh (pmm_init b)" using fold_module_fresh(1) [OF f4(1)] by (simp add: init)
  have "i \<notin> free_set (pmm_init b)"
    if "TagModule ms me \<in> set (mb_tags b)" "i \<in> set (used_range_blocks (ucast ms) (ucast me))" for i ms me
    using fold_module_fresh(3) [OF f4(1) that(1)] that(2) by (auto simp: init)
  moreover have "free_set (pmm_init b) \<subseteq> free_set s4"
    using fold_module_fresh(2) [OF f4(1)] by (simp add: init)
  ultimately show "free_set (pmm_init b) \<inter> boot_reserved b = {}"
    using f2 f3(2) f4(2) by (auto simp: boot_reserved_def)
qed

lemma pmm_reachable_inv:
  assumes "pmm_reachable b s"
  shows "pmm_inv s \<and> (\<forall>i \<in> boot_reserved b. pmm_view s i = Reserved)"
  using assms
proof induction
  case boot
  have "pmm_view (pmm_init b) i = Reserved" if "i \<in> boot_reserved b" for i
  proof -
    have "i \<notin> free_set (pmm_init b)" using pmm_init_fresh(2) [of b] that by blast
    then show ?thesis using pmm_init_fresh(1) [of b]
      by (auto simp: pmm_view_def pmm_fresh_def free_set_def)
  qed
  then show ?case using pmm_init_fresh(1) [of b] by (simp add: pmm_fresh_def)
next
  case (alloc s)
  then show ?case using pmm.alloc_invar pmm.reserved_alloc by blast
next
  case (retain s a)
  then show ?case using pmm.retain_invar pmm.reserved_retain by blast
next
  case (free s a)
  then show ?case using pmm.release_invar pmm.reserved_release by blast
qed

section \<open>Properties\<close>

lemma boot_reserved_not_allocated:
  assumes r: "pmm_reachable b s" and a: "fst (pmm_alloc_block s) \<noteq> 0"
  shows "frame_of (fst (pmm_alloc_block s)) \<in> free_set s"
    "frame_of (fst (pmm_alloc_block s)) \<notin> boot_reserved b"
    "page_aligned (fst (pmm_alloc_block s))"
proof -
  have inv: "pmm_inv s" using pmm_reachable_inv [OF r] by simp
  from a pmm_alloc_none [OF inv] have "free_set s \<noteq> {}" by auto
  then obtain j where j: "pmm_view s j = Free" by (auto simp: pmm_view_Free)
  have free: "pmm_view s (frame_of (fst (pmm_alloc_block s))) = Free"
    by (rule pmm.alloc_takes_free [OF inv j])
  then show "frame_of (fst (pmm_alloc_block s)) \<in> free_set s" by (simp add: pmm_view_Free)
  show "frame_of (fst (pmm_alloc_block s)) \<notin> boot_reserved b"
    using free pmm_reachable_inv [OF r] by fastforce
  show "page_aligned (fst (pmm_alloc_block s))" using pmm.alloc_frame [OF inv j] by simp
qed

lemma page_disjoint_range:
  assumes "page_aligned a" "frame_of a < PMM_BLOCKS"
    and "frame_of a \<notin> set (used_range_blocks lo hi)" "unat hi \<le> 2 ^ 64 - 4096"
  shows "hi \<le> lo \<or> unat a + 4096 \<le> unat lo \<or> unat hi \<le> unat a"
proof (rule ccontr)
  assume "\<not> ?thesis"
  then have r: "lo < hi" "unat lo < unat a + 4096" "unat a < unat hi" by (auto simp: not_le)
  have a: "unat a = frame_of a * 4096" using assms(1) by (auto simp: page_aligned_def frame_of_def)
  then have "unat lo div 4096 \<le> frame_of a" using r(2) by linarith
  with used_range_blocks_covers [OF assms(2)] r a assms(3,4) show False by auto
qed


definition sample_boot :: boot_info where
  "sample_boot = \<lparr>mb_info = 0x9000, mb_total_size = 64,
     mb_tags = [TagMmap [\<lparr>me_addr = 0x100000, me_len = 0x8000, me_type = 1\<rparr>], TagModule 0x102000 0x103000],
     kernel_start = 0x100000, kernel_end = 0x101800\<rparr>"


text \<open>
  C16. Allocation refines ownership: it fails exactly when the free counter is 0; otherwise the
  lowest free frame, which nobody owned, becomes owned once, every other frame keeps its status
  and the counter drops by one.
\<close>

theorem pmm_alloc_refines:
  assumes "pmm_reachable b s" and "a = fst (pmm_alloc_block s)" and "s' = snd (pmm_alloc_block s)"
  shows "(a = 0 \<longleftrightarrow> free_blocks s = 0) \<and>
    (if a = 0 then pmm_view s' = pmm_view s
     else pmm_view s (frame_of a) = Free \<and> (\<forall>j < frame_of a. pmm_view s j \<noteq> Free) \<and>
       pmm_view s' = (pmm_view s)(frame_of a := Owned 1) \<and> free_blocks s' = free_blocks s - 1)"
proof (cases "free_set s = {}")
  case True
  have inv: "pmm_inv s" using pmm_reachable_inv [OF assms(1)] by simp
  have "free_blocks s = 0" using pmm_invD(4) [OF inv] True by (simp add: unat_eq_zero)
  moreover have "a = 0" "pmm_view s' = pmm_view s"
    using pmm.alloc_full [OF inv] True by (auto simp: pmm_view_Free assms)
  ultimately show ?thesis by simp
next
  case False
  have inv: "pmm_inv s" using pmm_reachable_inv [OF assms(1)] by simp
  obtain i where i: "i = (LEAST i. i \<in> free_set s)" "i \<in> free_set s" "free_blocks s' = free_blocks s - 1"
    by (rule pmm_alloc_some [OF inv False]) (simp add: assms(3))
  note v = pmm_alloc_view [OF inv False, folded assms(2) assms(3) i(1)]
  have "0 \<in> boot_reserved b" by (simp add: boot_reserved_def)
  then have "pmm_view s 0 = Reserved" using pmm_reachable_inv [OF assms(1)] by blast
  then have "i \<noteq> 0" using i(2) by (metis frame_status.distinct(1) pmm_view_Free)
  then have "a \<noteq> 0" using v(2) by (auto simp: frame_of_def)
  moreover have "free_blocks s \<noteq> 0" using free_blocks_pred(1) [OF inv i(2)] by simp
  moreover have "\<forall>j < i. pmm_view s j \<noteq> Free"
    using not_less_Least i(1) by (auto simp: pmm_view_Free)
  ultimately show ?thesis using v i(2,3) by (simp add: pmm_view_Free)
qed

theorem pmm_alloc_refines_witness:
  "let s = pmm_init sample_boot; a = fst (pmm_alloc_block s); s' = snd (pmm_alloc_block s) in
   (a = 0 \<longleftrightarrow> free_blocks s = 0) \<and>
    (if a = 0 then pmm_view s' = pmm_view s
     else pmm_view s (frame_of a) = Free \<and> (\<forall>j < frame_of a. pmm_view s j \<noteq> Free) \<and>
       pmm_view s' = (pmm_view s)(frame_of a := Owned 1) \<and> free_blocks s' = free_blocks s - 1)"
  using pmm_alloc_refines [OF pmm_reachable.boot [of sample_boot] refl refl] by (simp add: Let_def)

text \<open>
  C17. Reference counting: in every reachable state freeing an address drops exactly one reference
  of the frame it names (the last one makes the frame free again) and does nothing for a frame
  that is free, reserved or addressed by an unaligned pointer; a successful retain followed by a
  free restores every frame's status, so does an allocation followed by a free.
\<close>

theorem pmm_reference_counting:
  assumes "pmm_reachable b s"
  shows "pmm_view (pmm_free_block a s) =
      (case (page_aligned a, pmm_view s (frame_of a)) of
         (True, Owned n) \<Rightarrow> (pmm_view s)(frame_of a := if n \<le> 1 then Free else Owned (n - 1))
       | _ \<Rightarrow> pmm_view s) \<and>
    (fst (pmm_retain_block a s) \<longrightarrow>
      pmm_view (pmm_free_block a (snd (pmm_retain_block a s))) = pmm_view s) \<and>
    (free_blocks s \<noteq> 0 \<longrightarrow>
      pmm_view (pmm_free_block (fst (pmm_alloc_block s)) (snd (pmm_alloc_block s))) = pmm_view s)"
proof (intro conjI impI)
  have inv: "pmm_inv s" using pmm_reachable_inv [OF assms] by simp
  show "pmm_view (pmm_free_block a s) =
      (case (page_aligned a, pmm_view s (frame_of a)) of
         (True, Owned n) \<Rightarrow> (pmm_view s)(frame_of a := if n \<le> 1 then Free else Owned (n - 1))
       | _ \<Rightarrow> pmm_view s)"
    using pmm.release_view [OF inv, of a] by (simp split: frame_status.splits bool.splits)
  show "pmm_view (pmm_free_block a (snd (pmm_retain_block a s))) = pmm_view s"
    if "fst (pmm_retain_block a s)"
    by (rule pmm.retain_release_id [OF inv that])
  show "pmm_view (pmm_free_block (fst (pmm_alloc_block s)) (snd (pmm_alloc_block s))) = pmm_view s"
    if "free_blocks s \<noteq> 0"
  proof -
    have "free_set s \<noteq> {}" using that pmm_invD(4) [OF inv] by (auto simp: unat_eq_zero)
    then obtain j where "pmm_view s j = Free" by (auto simp: pmm_view_Free)
    then show ?thesis by (rule pmm.alloc_release_id [OF inv])
  qed
qed

theorem pmm_reference_counting_witness:
  "pmm_view (pmm_free_block 0x2000 (pmm_init sample_boot)) = pmm_view (pmm_init sample_boot)"
proof -
  have "2 \<in> boot_reserved sample_boot" by (simp add: boot_reserved_def)
  then have "pmm_view (pmm_init sample_boot) 2 = Reserved"
    using pmm_reachable_inv [OF pmm_reachable.boot] by blast
  then show ?thesis
    using pmm_reference_counting [OF pmm_reachable.boot, of "0x2000" sample_boot]
    by (simp add: frame_of_def page_aligned_def)
qed

text \<open>
  C18. Accounting: in every reachable state the reported free memory is 4096 bytes per free frame,
  and the used memory is the rest of the managed memory; the subtraction never wraps around.
\<close>

theorem pmm_accounting:
  assumes "pmm_reachable b s"
  shows "unat (pmm_free_memory s) = 4096 * card {i. pmm_view s i = Free} \<and>
    unat (pmm_total_memory s) = 4096 * unat (total_blocks s) \<and>
    card {i. pmm_view s i = Free} \<le> unat (total_blocks s) \<and>
    unat (pmm_used_memory s) = 4096 * (unat (total_blocks s) - card {i. pmm_view s i = Free})"
proof -
  have inv: "pmm_inv s" using pmm_reachable_inv [OF assms] by simp
  have fs: "{i. pmm_view s i = Free} = free_set s" by (auto simp: pmm_view_Free)
  have tot: "unat (total_blocks s) \<le> 262144" using pmm_invD(3) [OF inv] by (simp add: PMM_BLOCKS_def)
  have "card (free_set s) \<le> card {..<unat (total_blocks s)}"
    using pmm_invD(5) [OF inv] by (intro card_mono) auto
  then have le: "unat (free_blocks s) \<le> unat (total_blocks s)" using pmm_invD(4) [OF inv] by simp
  have f: "unat (pmm_free_memory s) = 4096 * unat (free_blocks s)"
    unfolding pmm_free_memory_def using le tot by (subst unat_mult_small) simp_all
  have t: "unat (pmm_total_memory s) = 4096 * unat (total_blocks s)"
    unfolding pmm_total_memory_def using tot by (subst unat_mult_small) simp_all
  have "pmm_free_memory s \<le> pmm_total_memory s" using f t le by (simp add: word_le_nat_alt)
  then have "unat (pmm_used_memory s) = 4096 * (unat (total_blocks s) - unat (free_blocks s))"
    using f t by (simp add: pmm_used_memory_def unat_sub_small)
  then show ?thesis using f t le pmm_invD(4) [OF inv] by (simp add: fs)
qed

theorem pmm_accounting_witness:
  "unat (pmm_free_memory (pmm_init sample_boot)) = 4096 * card {i. pmm_view (pmm_init sample_boot) i = Free}"
  using pmm_accounting [OF pmm_reachable.boot, of sample_boot] by simp

end
