(* ===== verification/Vmm.thy ===== *)
theory Vmm
  imports Pmm
begin

text \<open>
  Address spaces of \<open>kernel/vmm.c\<close>: four levels of page tables in physical memory, on top of the physical
  memory manager. Physical memory is a function from the addresses of 8-byte words to their contents, the
  unit in which the code reads and writes tables and in which a page is copied or cleared. The low memory
  that holds tables and pages is mapped at its physical address, so the code uses physical addresses as
  pointers.

  The bit \<open>PAGE_COW\<close> that marks a page to be copied on a write is not defined by the headers of the
  repository and is the argument \<open>cow\<close> of the operations that use it. The translation caches of the
  processor have no counterpart, so the instructions that flush them do nothing here. The table the kernel
  starts with, \<open>p4_table\<close>, is the argument \<open>kernel_p4\<close>.
\<close>

definition PAGE_PRESENT :: u64 where "PAGE_PRESENT = 1"
definition PAGE_WRITABLE :: u64 where "PAGE_WRITABLE = 2"
definition PAGE_USER :: u64 where "PAGE_USER = 4"
definition AOS_USER_SPACE_START :: u64 where "AOS_USER_SPACE_START = 0x0000010000000000"
definition PTE_PHYS_MASK :: u64 where "PTE_PHYS_MASK = 0x000FFFFFFFFFF000"

text \<open>Bit 7 of a directory entry: the entry maps a region of 2 MiB.\<close>

definition PAGE_HUGE :: u64 where "PAGE_HUGE = 0x80"

record vmm_state =
  vm_mem :: "u64 \<Rightarrow> u64"
  vm_pmm :: pmm_state

definition present :: "u64 \<Rightarrow> bool" where "present e \<longleftrightarrow> e AND PAGE_PRESENT \<noteq> 0"
definition user :: "u64 \<Rightarrow> bool" where "user e \<longleftrightarrow> e AND PAGE_USER \<noteq> 0"
definition huge :: "u64 \<Rightarrow> bool" where "huge e \<longleftrightarrow> e AND PAGE_HUGE \<noteq> 0"

definition slot_addr :: "u64 \<Rightarrow> nat \<Rightarrow> u64" where
  "slot_addr t i = t + 8 * of_nat i"

definition rd :: "u64 \<Rightarrow> nat \<Rightarrow> vmm_state \<Rightarrow> u64" where
  "rd t i s = vm_mem s (slot_addr t i)"

definition wr :: "u64 \<Rightarrow> nat \<Rightarrow> u64 \<Rightarrow> vmm_state \<Rightarrow> vmm_state" where
  "wr t i v s = s\<lparr>vm_mem := (vm_mem s)(slot_addr t i := v)\<rparr>"

text \<open>\<open>memset (t, 0, 4096)\<close>, and \<open>local_memcpy\<close> of one page.\<close>

definition clear_page :: "u64 \<Rightarrow> vmm_state \<Rightarrow> vmm_state" where
  "clear_page t s = fold (\<lambda>i. wr t i 0) [0..<512] s"

definition copy_page :: "u64 \<Rightarrow> u64 \<Rightarrow> vmm_state \<Rightarrow> vmm_state" where
  "copy_page dst src s = fold (\<lambda>i s. wr dst i (rd src i s) s) [0..<512] s"

definition vm_alloc :: "vmm_state \<Rightarrow> u64 \<times> vmm_state" where
  "vm_alloc s = (case pmm_alloc_block (vm_pmm s) of (a, p) \<Rightarrow> (a, s\<lparr>vm_pmm := p\<rparr>))"

definition vm_free :: "u64 \<Rightarrow> vmm_state \<Rightarrow> vmm_state" where
  "vm_free a s = s\<lparr>vm_pmm := pmm_free_block a (vm_pmm s)\<rparr>"

definition table_index :: "nat \<Rightarrow> u64 \<Rightarrow> nat" where
  "table_index shift virt = unat (drop_bit shift virt AND 0x1FF)"

section \<open>Mapping and unmapping\<close>

definition find_page_entry :: "u64 \<Rightarrow> u64 \<Rightarrow> vmm_state \<Rightarrow> u64 option" where
  "find_page_entry pml4 virt s =
     (let i4 = table_index 39 virt; i3 = table_index 30 virt; i2 = table_index 21 virt; i1 = table_index 12 virt
      in if pml4 = 0 \<or> \<not> present (rd pml4 i4 s) then None
         else let pdpt = rd pml4 i4 s AND PTE_PHYS_MASK
              in if \<not> present (rd pdpt i3 s) then None
                 else let pd = rd pdpt i3 s AND PTE_PHYS_MASK
                      in if \<not> present (rd pd i2 s) \<or> huge (rd pd i2 s) then None
                         else Some (slot_addr (rd pd i2 s AND PTE_PHYS_MASK) i1))"

definition split_entry :: "u64 \<Rightarrow> nat \<Rightarrow> u64" where
  "split_entry old_entry i = ((old_entry AND NOT 0x1FFFFF) + of_nat i * 4096) OR ((old_entry AND 0xFFF) AND NOT PAGE_HUGE)"

definition split_huge_pd_entry :: "u64 \<Rightarrow> nat \<Rightarrow> vmm_state \<Rightarrow> bool \<times> vmm_state" where
  "split_huge_pd_entry pd pd_idx s =
     (let old_entry = rd pd pd_idx s; table_flags = old_entry AND (PAGE_PRESENT OR PAGE_WRITABLE OR PAGE_USER)
      in case vm_alloc s of (new_pt, s') \<Rightarrow>
           if new_pt = 0 then (False, s')
           else (True, wr pd pd_idx (new_pt OR table_flags)
                   (fold (\<lambda>i. wr new_pt i (split_entry old_entry i)) [0..<512] (clear_page new_pt s'))))"

text \<open>The block that \<open>vmm_map_page\<close> repeats for three levels: a missing table is allocated and cleared.\<close>

definition ensure_table :: "u64 \<Rightarrow> nat \<Rightarrow> vmm_state \<Rightarrow> bool \<times> vmm_state" where
  "ensure_table t i s =
     (if present (rd t i s) then (True, s)
      else case vm_alloc s of (new_table, s') \<Rightarrow>
        if new_table = 0 then (False, s')
        else (True, wr t i (new_table OR (PAGE_PRESENT OR PAGE_WRITABLE OR PAGE_USER)) (clear_page new_table s')))"

definition next_table :: "u64 \<Rightarrow> nat \<Rightarrow> vmm_state \<Rightarrow> u64" where
  "next_table t i s = rd t i s AND NOT 0xFFF"

definition vmm_map_page :: "u64 \<Rightarrow> u64 \<Rightarrow> u64 \<Rightarrow> u64 \<Rightarrow> vmm_state \<Rightarrow> vmm_state" where
  "vmm_map_page pml4 virt phys flags s0 =
     (let i4 = table_index 39 virt; i3 = table_index 30 virt; i2 = table_index 21 virt; i1 = table_index 12 virt
      in case ensure_table pml4 i4 s0 of
           (False, s) \<Rightarrow> s
         | (True, s) \<Rightarrow>
             let pdpt = next_table pml4 i4 s
             in (case ensure_table pdpt i3 s of
                   (False, s) \<Rightarrow> s
                 | (True, s) \<Rightarrow>
                     let pd = next_table pdpt i3 s
                     in (case (if present (rd pd i2 s) \<and> huge (rd pd i2 s) then split_huge_pd_entry pd i2 s else (True, s)) of
                           (False, s) \<Rightarrow> s
                         | (True, s) \<Rightarrow>
                             (case ensure_table pd i2 s of
                                (False, s) \<Rightarrow> s
                              | (True, s) \<Rightarrow> wr (next_table pd i2 s) i1 (phys OR flags) s))))"

definition vmm_unmap_page :: "u64 \<Rightarrow> u64 \<Rightarrow> vmm_state \<Rightarrow> u64 \<times> vmm_state" where
  "vmm_unmap_page pml4 virt s =
     (let i4 = table_index 39 virt; i3 = table_index 30 virt; i2 = table_index 21 virt; i1 = table_index 12 virt
      in if pml4 = 0 \<or> virt < AOS_USER_SPACE_START \<or> \<not> present (rd pml4 i4 s) then (0, s)
         else let pdpt = next_table pml4 i4 s
              in if \<not> present (rd pdpt i3 s) then (0, s)
                 else let pd = next_table pdpt i3 s
                      in if \<not> present (rd pd i2 s) \<or> huge (rd pd i2 s) then (0, s)
                         else let pt = next_table pd i2 s
                              in if \<not> present (rd pt i1 s) then (0, s)
                                 else (rd pt i1 s AND NOT 0xFFF, wr pt i1 0 s))"

definition vmm_page_present :: "u64 \<Rightarrow> u64 \<Rightarrow> vmm_state \<Rightarrow> bool" where
  "vmm_page_present pml4 virt s =
     (case find_page_entry pml4 virt s of None \<Rightarrow> False | Some entry \<Rightarrow> present (vm_mem s entry))"

section \<open>Copy on write\<close>

definition vmm_handle_cow_fault :: "u64 \<Rightarrow> u64 \<Rightarrow> u64 \<Rightarrow> vmm_state \<Rightarrow> bool \<times> vmm_state" where
  "vmm_handle_cow_fault cow pml4 virt s =
     (case find_page_entry pml4 virt s of
        None \<Rightarrow> (False, s)
      | Some entry \<Rightarrow>
          if \<not> present (vm_mem s entry) \<or> vm_mem s entry AND cow = 0 then (False, s)
          else let old_phys = vm_mem s entry AND PTE_PHYS_MASK
               in case (if pmm_block_refcount old_phys (vm_pmm s) > 1
                        then case vm_alloc s of (new_phys, s') \<Rightarrow>
                               if new_phys = 0 then (None, s')
                               else (Some new_phys, vm_free old_phys (copy_page new_phys old_phys s'))
                        else (Some old_phys, s)) of
                    (None, s') \<Rightarrow> (False, s')
                  | (Some new_phys, s') \<Rightarrow>
                      (True, s'\<lparr>vm_mem := (vm_mem s')(entry :=
                         new_phys OR ((vm_mem s' entry AND 0xFFF) AND NOT cow) OR PAGE_PRESENT OR PAGE_WRITABLE)\<rparr>))"

text \<open>The loop of \<open>vmm_prepare_user_write\<close>; \<open>n\<close> is the number of pages behind \<open>page\<close> that the range still covers.\<close>

fun prepare_pages :: "u64 \<Rightarrow> u64 \<Rightarrow> nat \<Rightarrow> u64 \<Rightarrow> vmm_state \<Rightarrow> bool \<times> vmm_state" where
  "prepare_pages cow pml4 n page s =
     (case find_page_entry pml4 page s of
        None \<Rightarrow> (False, s)
      | Some entry \<Rightarrow>
          if vm_mem s entry AND (PAGE_PRESENT OR PAGE_USER) \<noteq> PAGE_PRESENT OR PAGE_USER then (False, s)
          else case (if vm_mem s entry AND PAGE_WRITABLE = 0 then vmm_handle_cow_fault cow pml4 page s else (True, s)) of
                 (False, s') \<Rightarrow> (False, s')
               | (True, s') \<Rightarrow> (case n of 0 \<Rightarrow> (True, s') | Suc m \<Rightarrow> prepare_pages cow pml4 m (page + 4096) s'))"

declare prepare_pages.simps [simp del]

definition vmm_prepare_user_write :: "u64 \<Rightarrow> u64 \<Rightarrow> u64 \<Rightarrow> u64 \<Rightarrow> vmm_state \<Rightarrow> bool \<times> vmm_state" where
  "vmm_prepare_user_write cow pml4 virt len s =
     (let stop = virt + len - 1
      in if len = 0 then (True, s)
         else if pml4 = 0 \<or> stop < virt \<or> virt < AOS_USER_SPACE_START \<or> stop \<ge> 0x0000800000000000 then (False, s)
         else prepare_pages cow pml4 (unat ((stop AND NOT 0xFFF) - (virt AND NOT 0xFFF)) div 4096) (virt AND NOT 0xFFF) s)"

definition vmm_protect_page :: "u64 \<Rightarrow> u64 \<Rightarrow> u64 \<Rightarrow> u64 \<Rightarrow> vmm_state \<Rightarrow> bool \<times> vmm_state" where
  "vmm_protect_page cow pml4 virt flags s =
     (case find_page_entry pml4 virt s of
        None \<Rightarrow> (False, s)
      | Some entry \<Rightarrow>
          if \<not> present (vm_mem s entry) then (False, s)
          else let phys = vm_mem s entry AND PTE_PHYS_MASK
               in if flags AND PAGE_WRITABLE \<noteq> 0
                  then (case (if vm_mem s entry AND cow \<noteq> 0 \<or> pmm_block_refcount phys (vm_pmm s) > 1
                              then case vm_alloc s of (new_phys, s') \<Rightarrow>
                                     if new_phys = 0 then (None, s')
                                     else (Some new_phys, vm_free phys (copy_page new_phys phys s'))
                              else (Some phys, s)) of
                          (None, s') \<Rightarrow> (False, s')
                        | (Some phys', s') \<Rightarrow> (True, s'\<lparr>vm_mem := (vm_mem s')(entry := phys' OR flags)\<rparr>))
                  else (True, s\<lparr>vm_mem := (vm_mem s)(entry :=
                          phys OR flags OR (if vm_mem s entry AND cow \<noteq> 0 then cow else 0))\<rparr>))"

section \<open>Whole address spaces\<close>

definition table_has_present_entries :: "u64 \<Rightarrow> vmm_state \<Rightarrow> bool" where
  "table_has_present_entries t s \<longleftrightarrow> (\<exists>i \<in> set [0..<512]. present (rd t i s))"

definition is_user_slot :: "nat \<Rightarrow> bool" where
  "is_user_slot i \<longleftrightarrow> \<not> (push_bit 39 (of_nat i) < AOS_USER_SPACE_START \<or> i \<ge> 256)"

definition free_pt_slot :: "u64 \<Rightarrow> nat \<Rightarrow> vmm_state \<Rightarrow> vmm_state" where
  "free_pt_slot pt l s =
     (if present (rd pt l s) \<and> user (rd pt l s) then wr pt l 0 (vm_free (rd pt l s AND NOT 0xFFF) s) else s)"

definition release_table :: "u64 \<Rightarrow> nat \<Rightarrow> u64 \<Rightarrow> vmm_state \<Rightarrow> vmm_state" where
  "release_table parent i t s = (if table_has_present_entries t s then s else wr parent i 0 (vm_free t s))"

definition free_pd_slot :: "u64 \<Rightarrow> nat \<Rightarrow> vmm_state \<Rightarrow> vmm_state" where
  "free_pd_slot pd k s =
     (if \<not> present (rd pd k s) \<or> \<not> user (rd pd k s) then s
      else if huge (rd pd k s) then wr pd k 0 (vm_free (rd pd k s AND NOT 0x1FFFFF) s)
      else let pt = next_table pd k s in release_table pd k pt (fold (free_pt_slot pt) [0..<512] s))"

definition free_pdpt_slot :: "u64 \<Rightarrow> nat \<Rightarrow> vmm_state \<Rightarrow> vmm_state" where
  "free_pdpt_slot pdpt j s =
     (if \<not> present (rd pdpt j s) \<or> \<not> user (rd pdpt j s) then s
      else let pd = next_table pdpt j s in release_table pdpt j pd (fold (free_pd_slot pd) [0..<512] s))"

definition free_pml4_slot :: "u64 \<Rightarrow> nat \<Rightarrow> vmm_state \<Rightarrow> vmm_state" where
  "free_pml4_slot pml4 i s =
     (if \<not> is_user_slot i then s
      else if \<not> present (rd pml4 i s) \<or> \<not> user (rd pml4 i s) then s
      else let pdpt = next_table pml4 i s in release_table pml4 i pdpt (fold (free_pdpt_slot pdpt) [0..<512] s))"

definition vmm_free_user_space :: "u64 \<Rightarrow> vmm_state \<Rightarrow> vmm_state" where
  "vmm_free_user_space pml4 s = (if pml4 = 0 then s else fold (free_pml4_slot pml4) [0..<512] s)"

definition vmm_create_user_space :: "u64 \<Rightarrow> u64 \<Rightarrow> vmm_state \<Rightarrow> u64 \<times> vmm_state" where
  "vmm_create_user_space kernel_p4 source0 s =
     (let kernel_source = (if source0 = 0 then kernel_p4 else source0)
      in case vm_alloc s of (dst_p4, s') \<Rightarrow>
           if dst_p4 = 0 then (0, s')
           else (dst_p4, fold (\<lambda>i s. if \<not> is_user_slot i then wr dst_p4 i (rd kernel_source i s) s else s) [0..<512]
                   (clear_page dst_p4 s')))"

definition vmm_destroy_user_space :: "u64 \<Rightarrow> u64 \<Rightarrow> vmm_state \<Rightarrow> vmm_state" where
  "vmm_destroy_user_space kernel_p4 pml4 s =
     (if pml4 = 0 then s
      else let s' = vmm_free_user_space pml4 s in if pml4 \<noteq> kernel_p4 then vm_free pml4 s' else s')"

text \<open>A loop whose body may leave with \<open>goto copy_failed\<close>.\<close>

fun try_loop :: "('i \<Rightarrow> 's \<Rightarrow> bool \<times> 's) \<Rightarrow> 'i list \<Rightarrow> 's \<Rightarrow> bool \<times> 's" where
  "try_loop body [] s = (True, s)"
| "try_loop body (i # is) s = (case body i s of (False, s') \<Rightarrow> (False, s') | (True, s') \<Rightarrow> try_loop body is s')"

definition copy_pt_slot :: "u64 \<Rightarrow> u64 \<Rightarrow> u64 \<Rightarrow> nat \<Rightarrow> vmm_state \<Rightarrow> bool \<times> vmm_state" where
  "copy_pt_slot cow src_pt dst_pt l s =
     (let e = rd src_pt l s
      in if \<not> present e then (True, s)
         else if user e
         then case pmm_retain_block (e AND PTE_PHYS_MASK) (vm_pmm s) of
                (False, p) \<Rightarrow> (False, s\<lparr>vm_pmm := p\<rparr>)
              | (True, p) \<Rightarrow>
                  let s' = s\<lparr>vm_pmm := p\<rparr>
                  in if e AND (PAGE_WRITABLE OR cow) \<noteq> 0
                     then let shared_entry = (e AND NOT PAGE_WRITABLE) OR cow
                          in (True, wr dst_pt l shared_entry (wr src_pt l shared_entry s'))
                     else (True, wr dst_pt l e s')
         else (True, wr dst_pt l e s))"

text \<open>The common head of the three inner loops: a table for the copy, then its entries.\<close>

definition copy_table :: "(u64 \<Rightarrow> u64 \<Rightarrow> nat \<Rightarrow> vmm_state \<Rightarrow> bool \<times> vmm_state) \<Rightarrow> u64 \<Rightarrow> u64 \<Rightarrow> nat \<Rightarrow> vmm_state \<Rightarrow> bool \<times> vmm_state" where
  "copy_table body src dst i s =
     (let e = rd src i s; src_table = e AND NOT 0xFFF
      in case vm_alloc s of (dst_table, s') \<Rightarrow>
           if dst_table = 0 then (False, s')
           else try_loop (body src_table dst_table) [0..<512] (wr dst i (dst_table OR (e AND 0xFFF)) (clear_page dst_table s')))"

definition copy_pd_slot :: "u64 \<Rightarrow> u64 \<Rightarrow> u64 \<Rightarrow> nat \<Rightarrow> vmm_state \<Rightarrow> bool \<times> vmm_state" where
  "copy_pd_slot cow src_pd dst_pd k s =
     (if \<not> present (rd src_pd k s) then (True, s)
      else if huge (rd src_pd k s) then (False, s)
      else copy_table (copy_pt_slot cow) src_pd dst_pd k s)"

definition copy_pdpt_slot :: "u64 \<Rightarrow> u64 \<Rightarrow> u64 \<Rightarrow> nat \<Rightarrow> vmm_state \<Rightarrow> bool \<times> vmm_state" where
  "copy_pdpt_slot cow src_pdpt dst_pdpt j s =
     (if \<not> present (rd src_pdpt j s) then (True, s) else copy_table (copy_pd_slot cow) src_pdpt dst_pdpt j s)"

definition copy_p4_slot :: "u64 \<Rightarrow> u64 \<Rightarrow> u64 \<Rightarrow> nat \<Rightarrow> vmm_state \<Rightarrow> bool \<times> vmm_state" where
  "copy_p4_slot cow src_p4 dst_p4 i s =
     (if \<not> present (rd src_p4 i s) then (True, s)
      else if \<not> is_user_slot i then (True, wr dst_p4 i (rd src_p4 i s) s)
      else copy_table (copy_pdpt_slot cow) src_p4 dst_p4 i s)"

definition vmm_copy_p4 :: "u64 \<Rightarrow> u64 \<Rightarrow> u64 \<Rightarrow> vmm_state \<Rightarrow> u64 \<times> vmm_state" where
  "vmm_copy_p4 cow kernel_p4 src_p4 s =
     (case vm_alloc s of (dst_p4, s') \<Rightarrow>
        if dst_p4 = 0 then (0, s')
        else case try_loop (copy_p4_slot cow src_p4 dst_p4) [0..<512] (clear_page dst_p4 s') of
               (True, s'') \<Rightarrow> (dst_p4, s'')
             | (False, s'') \<Rightarrow> (0, vmm_destroy_user_space kernel_p4 dst_p4 s''))"

end
