(* ===== verification/Vmm_Props.thy ===== *)
theory Vmm_Props
  imports Vmm
begin

text \<open>
  Address spaces as functions from virtual pages to page table entries. The tables of an address space form
  a tree whose nodes are distinct frames that the physical memory manager has given out; under this
  invariant mapping a page changes the translation of that page and of no other, also when a region of
  2 MiB has to be split first, and a write to a shared page makes it private.
\<close>

section \<open>Words of a table\<close>

lemma aligned_unat: "page_aligned t \<longleftrightarrow> unat t mod 4096 = 0"
  by (simp add: page_aligned_def page_aligned_iff)

lemma unat_slot_addr:
  assumes "page_aligned t" "i < 512"
  shows "unat (slot_addr t i) = unat t + 8 * i"
proof -
  obtain k where k: "unat t = 4096 * k" using assms(1) by (auto simp: aligned_unat)
  then have "k < 4503599627370496" using unat_less [of t] by simp
  then have room: "unat t + 8 * i < 2 ^ 64" using assms(2) k by simp
  have "unat (8 * of_nat i :: u64) = 8 * i" using assms(2) by (subst unat_mult_small) (simp_all add: unat_of_nat_small)
  then show ?thesis using room by (simp add: slot_addr_def unat_add_small)
qed

lemma slot_addr_eq:
  assumes "page_aligned t" "page_aligned t'" "i < 512" "j < 512"
  shows "slot_addr t i = slot_addr t' j \<longleftrightarrow> t = t' \<and> i = j"
proof
  assume "slot_addr t i = slot_addr t' j"
  then have sum: "unat t + 8 * i = unat t' + 8 * j" using unat_slot_addr assms by metis
  obtain k k' where k: "unat t = 4096 * k" "unat t' = 4096 * k'" using assms(1,2) by (auto simp: aligned_unat elim!: dvdE)
  then have q: "512 * k + i = 512 * k' + j" using sum by simp
  then have "i = j" using assms(3,4) by (metis mod_less mod_mult_self4)
  then have "unat t = unat t' \<and> i = j" using q k by simp
  then show "t = t' \<and> i = j" by (simp add: word_unat_eq_iff)
qed simp

lemma vm_pmm_wr [simp]: "vm_pmm (wr t i v s) = vm_pmm s"
  by (simp add: wr_def)

lemma rd_wr:
  "page_aligned t \<Longrightarrow> page_aligned t' \<Longrightarrow> i < 512 \<Longrightarrow> j < 512 \<Longrightarrow>
   rd t i (wr t' j v s) = (if t = t' \<and> i = j then v else rd t i s)"
  by (simp add: rd_def wr_def slot_addr_eq)

lemma rd_pmm [simp]: "rd t i (s\<lparr>vm_pmm := p\<rparr>) = rd t i s"
  by (simp add: rd_def)

lemma rd_fill:
  assumes "page_aligned t" "page_aligned t'" "i < 512" "n \<le> 512"
  shows "rd t i (fold (\<lambda>i. wr t' i (f i)) [0..<n] s) = (if t = t' \<and> i < n then f i else rd t i s)"
    "vm_pmm (fold (\<lambda>i. wr t' i (f i)) [0..<n] s) = vm_pmm s"
  using assms(4) by (induction n) (use assms in \<open>auto simp: rd_wr less_Suc_eq\<close>)

lemma rd_clear:
  "page_aligned t \<Longrightarrow> page_aligned t' \<Longrightarrow> i < 512 \<Longrightarrow> rd t i (clear_page t' s) = (if t = t' then 0 else rd t i s)"
  "vm_pmm (clear_page t' s) = vm_pmm s"
proof -
  show "page_aligned t \<Longrightarrow> page_aligned t' \<Longrightarrow> i < 512 \<Longrightarrow> rd t i (clear_page t' s) = (if t = t' then 0 else rd t i s)"
    unfolding clear_page_def by (subst rd_fill) simp_all
  have "vm_pmm (fold (\<lambda>i. wr t' i 0) is s) = vm_pmm s" for "is" by (induction "is" arbitrary: s) simp_all
  then show "vm_pmm (clear_page t' s) = vm_pmm s" by (simp add: clear_page_def)
qed

lemma rd_copy:
  assumes "page_aligned d" "page_aligned src" "d \<noteq> src" "n \<le> 512"
  shows "page_aligned t \<Longrightarrow> i < 512 \<Longrightarrow>
      rd t i (fold (\<lambda>i s. wr d i (rd src i s) s) [0..<n] s) = (if t = d \<and> i < n then rd src i s else rd t i s)"
    "vm_pmm (fold (\<lambda>i s. wr d i (rd src i s) s) [0..<n] s) = vm_pmm s"
proof -
  show "rd t i (fold (\<lambda>i s. wr d i (rd src i s) s) [0..<n] s) = (if t = d \<and> i < n then rd src i s else rd t i s)"
    if "page_aligned t" "i < 512" for t i
    using assms(4) that
  proof (induction n arbitrary: t i)
    case (Suc n)
    then show ?case using assms(1-3) by (auto simp: rd_wr less_Suc_eq)
  qed simp
  show "vm_pmm (fold (\<lambda>i s. wr d i (rd src i s) s) [0..<n] s) = vm_pmm s" by (induction n) simp_all
qed

section \<open>The tree of tables\<close>

definition child :: "u64 \<Rightarrow> u64 option" where
  "child e = (if present e \<and> \<not> huge e then Some (e AND NOT 0xFFF) else None)"

fun walk_tables :: "u64 \<Rightarrow> nat list \<Rightarrow> vmm_state \<Rightarrow> u64 option" where
  "walk_tables t [] s = Some t"
| "walk_tables t (i # is) s = (case child (rd t i s) of None \<Rightarrow> None | Some t' \<Rightarrow> walk_tables t' is s)"

lemma walk_append: "walk_tables t (p @ q) s = Option.bind (walk_tables t p s) (\<lambda>t'. walk_tables t' q s)"
  by (induction t p s rule: walk_tables.induct) (simp_all split: option.split)

lemma walk_cong:
  assumes "\<And>n t'. n < length p \<Longrightarrow> walk_tables t (take n p) s = Some t' \<Longrightarrow> rd t' (p ! n) s' = rd t' (p ! n) s"
  shows "walk_tables t p s' = walk_tables t p s"
  using assms
proof (induction p arbitrary: t)
  case (Cons i p)
  have e: "rd t i s' = rd t i s" using Cons.prems [of 0 t] by simp
  show ?case
  proof (cases "child (rd t i s)")
    case (Some t1)
    have "walk_tables t1 p s' = walk_tables t1 p s"
      using Cons.prems [of "Suc n" for n] Some by (intro Cons.IH) auto
    then show ?thesis using e Some by simp
  qed (simp add: e)
qed simp

definition path_ok :: "nat list \<Rightarrow> bool" where
  "path_ok p \<longleftrightarrow> length p \<le> 3 \<and> (\<forall>i \<in> set p. i < 512)"

definition table_ok :: "u64 \<Rightarrow> vmm_state \<Rightarrow> bool" where
  "table_ok t s \<longleftrightarrow> page_aligned t \<and> t \<noteq> 0 \<and> t AND PTE_PHYS_MASK = t \<and> pmm_view (vm_pmm s) (frame_of t) \<noteq> Free"

definition space_ok :: "u64 \<Rightarrow> vmm_state \<Rightarrow> bool" where
  "space_ok p4 s \<longleftrightarrow> pmm_inv (vm_pmm s) \<and> pmm_view (vm_pmm s) 0 \<noteq> Free \<and>
     (\<forall>p t. path_ok p \<longrightarrow> walk_tables p4 p s = Some t \<longrightarrow> table_ok t s) \<and>
     (\<forall>p q t. path_ok p \<longrightarrow> path_ok q \<longrightarrow> walk_tables p4 p s = Some t \<longrightarrow> walk_tables p4 q s = Some t \<longrightarrow> p = q) \<and>
     (\<forall>p t i. path_ok p \<longrightarrow> length p \<le> 1 \<longrightarrow> i < 512 \<longrightarrow> walk_tables p4 p s = Some t \<longrightarrow> present (rd t i s) \<longrightarrow> \<not> huge (rd t i s))"

lemma space_okD:
  assumes "space_ok p4 s"
  shows "pmm_inv (vm_pmm s)" "pmm_view (vm_pmm s) 0 \<noteq> Free" "path_ok p \<Longrightarrow> walk_tables p4 p s = Some t \<Longrightarrow> table_ok t s"
    "path_ok p \<Longrightarrow> path_ok q \<Longrightarrow> walk_tables p4 p s = Some t \<Longrightarrow> walk_tables p4 q s = Some t \<Longrightarrow> p = q"
    "path_ok p \<Longrightarrow> length p \<le> 1 \<Longrightarrow> i < 512 \<Longrightarrow> walk_tables p4 p s = Some t \<Longrightarrow> present (rd t i s) \<Longrightarrow> \<not> huge (rd t i s)"
  using assms unfolding space_ok_def by blast+

text \<open>What the page with the four given indices is mapped to: a page table entry, or a piece of a large page.\<close>

definition mapping :: "u64 \<Rightarrow> nat \<Rightarrow> nat \<Rightarrow> nat \<Rightarrow> nat \<Rightarrow> vmm_state \<Rightarrow> u64 option" where
  "mapping p4 a b c l s =
     (case walk_tables p4 [a, b] s of
        None \<Rightarrow> None
      | Some pd \<Rightarrow>
          if present (rd pd c s) \<and> huge (rd pd c s) then Some (split_entry (rd pd c s) l)
          else case walk_tables p4 [a, b, c] s of
                 None \<Rightarrow> None
               | Some pt \<Rightarrow> if present (rd pt l s) then Some (rd pt l s) else None)"

section \<open>New tables\<close>

lemma frame_of_inj: "page_aligned a \<Longrightarrow> page_aligned b \<Longrightarrow> frame_of a = frame_of b \<Longrightarrow> a = b"
  by (metis aligned_unat frame_of_def mult_div_mod_eq word_unat_eq_iff)

lemma page_base: "page_aligned a \<longleftrightarrow> a AND NOT 0xFFF = a"
proof -
  have "unat (a AND NOT 0xFFF) = unat a div 4096 * 4096" by (rule unat_page_down)
  then show ?thesis by (metis aligned_unat mod_mult_self2_is_0 div_mult_mod_eq add.right_neutral word_unat_eq_iff)
qed

lemma page_base_aligned: "page_aligned (a AND NOT 0xFFF)"
  by (simp add: page_base and.assoc)

lemma mask_id:
  assumes "page_aligned a" "unat a < 2 ^ 52"
  shows "a AND PTE_PHYS_MASK = a"
proof -
  have m: "PTE_PHYS_MASK = mask 52 AND NOT 0xFFF" by (simp add: PTE_PHYS_MASK_def mask_eq_exp_minus_1)
  have "take_bit 52 a = a" using assms(2) by (simp add: take_bit_eq_mod word_unat_eq_iff unat_mod_distrib)
  then have "a AND mask 52 = a" by (simp add: take_bit_eq_mask)
  then show ?thesis using assms(1) unfolding m page_base by (metis and.assoc)
qed

lemma alloc_result:
  assumes "pmm_inv (vm_pmm s)" "pmm_view (vm_pmm s) 0 \<noteq> Free" "vm_alloc s = (n, s1)"
  shows "vm_mem s1 = vm_mem s" "pmm_inv (vm_pmm s1)"
    "n = 0 \<Longrightarrow> (\<forall>i. pmm_view (vm_pmm s) i \<noteq> Free) \<and> pmm_view (vm_pmm s1) = pmm_view (vm_pmm s)"
    "n \<noteq> 0 \<Longrightarrow> page_aligned n \<and> n AND PTE_PHYS_MASK = n \<and> pmm_view (vm_pmm s) (frame_of n) = Free \<and>
       pmm_view (vm_pmm s1) = (pmm_view (vm_pmm s))(frame_of n := Owned 1)"
proof -
  let ?p = "vm_pmm s"
  have n: "n = fst (pmm_alloc_block ?p)" "s1 = s\<lparr>vm_pmm := snd (pmm_alloc_block ?p)\<rparr>"
    using assms(3) by (auto simp: vm_alloc_def split: prod.splits)
  show "vm_mem s1 = vm_mem s" "pmm_inv (vm_pmm s1)" using n(2) pmm.alloc_invar [OF assms(1)] by simp_all
  have full: "n = 0" "pmm_view (vm_pmm s1) = pmm_view ?p" if "\<forall>i. pmm_view ?p i \<noteq> Free"
    using pmm.alloc_full [OF assms(1) that] n by simp_all
  have got: "page_aligned n \<and> n AND PTE_PHYS_MASK = n \<and> pmm_view ?p (frame_of n) = Free \<and>
      pmm_view (vm_pmm s1) = (pmm_view ?p)(frame_of n := Owned 1) \<and> n \<noteq> 0" if "pmm_view ?p i = Free" for i
  proof -
    note A = pmm.alloc_frame [OF assms(1) that]
    have al: "page_aligned n" and view: "pmm_view (vm_pmm s1) = (pmm_view ?p)(frame_of n := Owned 1)" using A n by simp_all
    have free: "pmm_view ?p (frame_of n) = Free" using pmm.alloc_takes_free [OF assms(1) that] n(1) by simp
    then have "n \<noteq> 0" using assms(2) by (auto simp: frame_of_def)
    moreover have "frame_of n < PMM_BLOCKS" using free by (auto simp: pmm_view_def split: if_splits)
    then have "unat n < 2 ^ 52" using al by (simp add: frame_of_def PMM_BLOCKS_def aligned_unat less_mult_imp_div_less div_less_iff_less_mult)
    ultimately show ?thesis using al free view mask_id by blast
  qed
  show "n = 0 \<Longrightarrow> (\<forall>i. pmm_view ?p i \<noteq> Free) \<and> pmm_view (vm_pmm s1) = pmm_view ?p" using full got by metis
  show "n \<noteq> 0 \<Longrightarrow> page_aligned n \<and> n AND PTE_PHYS_MASK = n \<and> pmm_view ?p (frame_of n) = Free \<and>
       pmm_view (vm_pmm s1) = (pmm_view ?p)(frame_of n := Owned 1)"
    using full got by metis
qed

text \<open>
  A step that hangs a table \<open>n\<close>, just taken from the free frames, under slot \<open>i\<close> of the table at path \<open>r\<close>: \<open>e\<close> is
  the new entry of the slot and \<open>g\<close> the contents of the new table, which maps nothing unless it is a last-level table.
\<close>

definition grown :: "u64 \<Rightarrow> vmm_state \<Rightarrow> nat list \<Rightarrow> u64 \<Rightarrow> nat \<Rightarrow> u64 \<Rightarrow> u64 \<Rightarrow> (nat \<Rightarrow> u64) \<Rightarrow> vmm_state \<Rightarrow> bool" where
  "grown p4 s r t i n e g s' \<longleftrightarrow> path_ok (r @ [i]) \<and> walk_tables p4 r s = Some t \<and> child (rd t i s) = None \<and> child e = Some n \<and>
     page_aligned n \<and> n \<noteq> 0 \<and> n AND PTE_PHYS_MASK = n \<and> pmm_view (vm_pmm s) (frame_of n) = Free \<and>
     pmm_view (vm_pmm s') = (pmm_view (vm_pmm s))(frame_of n := Owned 1) \<and> pmm_inv (vm_pmm s') \<and>
     (length r < 2 \<longrightarrow> (\<forall>j < 512. \<not> present (g j))) \<and>
     (\<forall>t' j. page_aligned t' \<longrightarrow> j < 512 \<longrightarrow> rd t' j s' = (if t' = t \<and> j = i then e else if t' = n then g j else rd t' j s))"

lemma grownD:
  assumes "grown p4 s r t i n e g s'"
  shows "path_ok (r @ [i])" "walk_tables p4 r s = Some t" "child (rd t i s) = None" "child e = Some n"
    "page_aligned n" "n \<noteq> 0" "n AND PTE_PHYS_MASK = n" "pmm_view (vm_pmm s) (frame_of n) = Free"
    "pmm_view (vm_pmm s') = (pmm_view (vm_pmm s))(frame_of n := Owned 1)" "pmm_inv (vm_pmm s')"
    "length r < 2 \<Longrightarrow> j < 512 \<Longrightarrow> \<not> present (g j)"
    "page_aligned t' \<Longrightarrow> j < 512 \<Longrightarrow> rd t' j s' = (if t' = t \<and> j = i then e else if t' = n then g j else rd t' j s)"
  using assms unfolding grown_def by blast+

lemma path_ok_append: "path_ok (p @ q) \<Longrightarrow> path_ok p"
  by (simp add: path_ok_def)

lemma path_ok_take: "path_ok p \<Longrightarrow> path_ok (take n p)"
  by (auto simp: path_ok_def dest: in_set_takeD)

lemma walk_grown:
  assumes ok: "space_ok p4 s" and g: "grown p4 s r t i n e g s'" and p: "path_ok p"
  shows "walk_tables p4 p s' = (if take (Suc (length r)) p = r @ [i] then if p = r @ [i] then Some n else None else walk_tables p4 p s)"
    "walk_tables p4 p s \<noteq> Some n"
proof -
  note G = grownD [OF g]
  have new: "walk_tables p4 p s \<noteq> Some n" if "path_ok p" for p
    using space_okD(3) [OF ok that] G(8) by (auto simp: table_ok_def)
  have rok: "path_ok r" using G(1) path_ok_append by blast
  have same: "walk_tables p4 q s' = walk_tables p4 q s" if q: "path_ok q" "take (Suc (length r)) q \<noteq> r @ [i]" for q
  proof (rule walk_cong)
    fix m t' assume m: "m < length q" "walk_tables p4 (take m q) s = Some t'"
    have tok: "path_ok (take m q)" using path_ok_take [OF q(1)] .
    have t': "page_aligned t'" "t' \<noteq> n" using space_okD(3) [OF ok tok m(2)] new [OF tok] m(2) by (auto simp: table_ok_def)
    have idx: "q ! m < 512" using q(1) m(1) by (simp add: path_ok_def)
    have "\<not> (t' = t \<and> q ! m = i)"
    proof
      assume "t' = t \<and> q ! m = i"
      then have "take m q = r" "q ! m = i" using space_okD(4) [OF ok tok rok m(2)] G(2) by auto
      then have "take (Suc (length r)) q = r @ [i]" using m(1) by (metis length_take min.absorb2 less_imp_le take_Suc_conv_app_nth)
      then show False using q(2) by simp
    qed
    then show "rd t' (q ! m) s' = rd t' (q ! m) s" using G(12) [OF t'(1) idx] t'(2) by auto
  qed
  show "walk_tables p4 p s' = (if take (Suc (length r)) p = r @ [i] then if p = r @ [i] then Some n else None else walk_tables p4 p s)"
  proof (cases "take (Suc (length r)) p = r @ [i]")
    case True
    then obtain q where q: "p = r @ i # q" by (metis append_take_drop_id append.assoc append_Cons append_Nil)
    have r: "walk_tables p4 r s' = Some t" using same [OF rok] G(2) by simp
    have al: "page_aligned t" using space_okD(3) [OF ok rok G(2)] by (simp add: table_ok_def)
    have i: "i < 512" using G(1) by (simp add: path_ok_def)
    have e: "rd t i s' = e" using G(12) [OF al i] by simp
    have "walk_tables n q s' = None" if ne: "q \<noteq> []"
    proof -
      obtain j q' where j: "q = j # q'" using ne by (cases q) auto
      have lt: "length r < 2" "j < 512" using p unfolding q j by (simp_all add: path_ok_def)
      have "rd n j s' = g j" using G(12) [OF G(5) lt(2)] new [OF rok] G(2) by auto
      then show ?thesis using G(11) [OF lt] by (simp add: j child_def)
    qed
    then show ?thesis using True r e G(4) q by (cases q) (auto simp: walk_append)
  next
    case False
    then show ?thesis using same [OF p] by simp
  qed
  show "walk_tables p4 p s \<noteq> Some n" by (rule new [OF p])
qed

lemma grown_ok:
  assumes ok: "space_ok p4 s" and g: "grown p4 s r t i n e g s'"
  shows "space_ok p4 s'"
proof -
  note G = grownD [OF g] and W = walk_grown [OF ok g]
  have nz: "table_ok n s'" using G(5-9) by (simp add: table_ok_def)
  have old: "table_ok t' s'" if "table_ok t' s" for t' using that G(9) by (auto simp: table_ok_def)
  show ?thesis
    unfolding space_ok_def
  proof (intro conjI allI impI)
    show "pmm_inv (vm_pmm s')" by (rule G(10))
    show "pmm_view (vm_pmm s') 0 \<noteq> Free" using space_okD(2) [OF ok] G(9) by simp
    show "table_ok t' s'" if "path_ok p" "walk_tables p4 p s' = Some t'" for p t'
      using that W(1) [OF that(1)] nz old space_okD(3) [OF ok that(1)] by (auto split: if_splits)
    show "p = q" if "path_ok p" "path_ok q" "walk_tables p4 p s' = Some t'" "walk_tables p4 q s' = Some t'" for p q t'
      using that W [OF that(1)] W [OF that(2)] space_okD(4) [OF ok that(1,2)] by (auto split: if_splits)
    show "\<not> huge (rd t' j s')"
      if p: "path_ok p" "length p \<le> 1" "j < 512" "walk_tables p4 p s' = Some t'" "present (rd t' j s')" for p t' j
    proof (cases "p = r @ [i]")
      case True
      then have "t' = n" "length r < 2" using p(2,4) W(1) [OF p(1)] by auto
      then show ?thesis using G(11) [of j] G(12) [OF G(5) p(3)] W(2) [of r] G(1,2) p(3,5) path_ok_append by auto
    next
      case False
      then have w: "walk_tables p4 p s = Some t'" using W(1) [OF p(1)] p(4) by (auto split: if_splits)
      have al: "page_aligned t'" "t' \<noteq> n" using space_okD(3) [OF ok p(1) w] W(2) [OF p(1)] w by (auto simp: table_ok_def)
      show ?thesis
        using G(12) [OF al(1) p(3)] al(2) space_okD(5) [OF ok p(1-3) w] p(5) G(4) by (auto simp: child_def split: if_splits)
    qed
  qed
qed

lemma mapping_grown:
  assumes ok: "space_ok p4 s" and g: "grown p4 s r t i n e g s'" and idx: "a < 512" "b < 512" "c < 512" "l < 512"
  shows "mapping p4 a b c l s' = (if take (Suc (length r)) [a, b, c] = r @ [i] \<and> length r = 2
       then if present (g l) then Some (g l) else None else mapping p4 a b c l s)"
    "take (Suc (length r)) [a, b, c] = r @ [i] \<Longrightarrow> mapping p4 a b c l s =
       (if length r = 2 \<and> present (rd t i s) then Some (split_entry (rd t i s) l) else None)"
proof -
  note G = grownD [OF g] and W = walk_grown [OF ok g]
  have pd: "path_ok [a, b]" "path_ok [a, b, c]" using idx by (simp_all add: path_ok_def)
  have rok: "path_ok r" "length r \<le> 2" "i < 512" using G(1) by (simp_all add: path_ok_def)
  show before: "mapping p4 a b c l s = (if length r = 2 \<and> present (rd t i s) then Some (split_entry (rd t i s) l) else None)"
    if ext: "take (Suc (length r)) [a, b, c] = r @ [i]"
  proof (cases "length r = 2")
    case True
    then have r: "r = [a, b]" "i = c" using ext by (auto simp: numeral_2_eq_2)
    then have "walk_tables p4 [a, b] s = Some t" using G(2) by simp
    moreover have "walk_tables p4 [a, b, c] s = None" using G(2,3) r walk_append [of p4 "[a, b]" "[c]" s] by simp
    moreover have "present (rd t i s) \<longrightarrow> huge (rd t i s)" using G(3) by (auto simp: child_def split: if_splits)
    ultimately show ?thesis using r True by (auto simp: mapping_def)
  next
    case False
    then have len: "length r < 2" using rok(2) by simp
    have "take (Suc (length r)) [a, b] = r @ [i]" using ext len by (cases r) (auto simp: less_2_cases_iff)
    then obtain q where q: "[a, b] = r @ i # q" by (metis append_take_drop_id append.assoc append_Cons append_Nil)
    have "walk_tables p4 [a, b] s = None" unfolding q walk_append G(2) using G(3) by simp
    then show ?thesis using False by (simp add: mapping_def)
  qed
  show "mapping p4 a b c l s' = (if take (Suc (length r)) [a, b, c] = r @ [i] \<and> length r = 2
       then if present (g l) then Some (g l) else None else mapping p4 a b c l s)"
  proof (cases "take (Suc (length r)) [a, b, c] = r @ [i]")
    case True
    consider "r = []" "i = a" | "r = [a]" "i = b" | "r = [a, b]" "i = c"
      using True rok(2) by (cases r; cases "tl r"; cases "tl (tl r)") auto
    then show ?thesis
    proof cases
      case 1
      then have "walk_tables p4 [a, b] s' = None" using W(1) [OF pd(1)] by simp
      then show ?thesis using 1 before [OF True] by (simp add: mapping_def)
    next
      case 2
      then have w: "walk_tables p4 [a, b] s' = Some n" "walk_tables p4 [a, b, c] s' = None" using W(1) [OF pd(1)] W(1) [OF pd(2)] by simp_all
      have "rd n c s' = g c" using G(12) [OF G(5) idx(3)] W(2) [OF rok(1)] G(2) by auto
      then have "\<not> present (rd n c s')" using G(11) [OF _ idx(3)] 2 by simp
      then show ?thesis using 2 w before [OF True] by (simp add: mapping_def)
    next
      case 3
      then have w: "walk_tables p4 [a, b] s' = Some t" "walk_tables p4 [a, b, c] s' = Some n"
        using W(1) [OF pd(1)] W(1) [OF pd(2)] G(2) by simp_all
      have al: "page_aligned t" using space_okD(3) [OF ok rok(1) G(2)] by (simp add: table_ok_def)
      have "rd t c s' = e" "rd n l s' = g l" using G(12) [OF al idx(3)] G(12) [OF G(5) idx(4)] W(2) [OF rok(1)] G(2) 3 by auto
      moreover have "\<not> (present e \<and> huge e)" using G(4) by (auto simp: child_def split: if_splits)
      ultimately show ?thesis using 3 w by (auto simp: mapping_def simp del: walk_tables.simps)
    qed
  next
    case False
    have "take (Suc (length r)) [a, b] \<noteq> r @ [i]"
    proof
      assume t: "take (Suc (length r)) [a, b] = r @ [i]"
      have "length (take (Suc (length r)) [a, b]) = length (r @ [i])" by (simp only: t)
      then have "Suc (length r) \<le> 2" by simp
      then show False using t False by (cases r; cases "tl r") auto
    qed
    then have w: "walk_tables p4 [a, b] s' = walk_tables p4 [a, b] s" "walk_tables p4 [a, b, c] s' = walk_tables p4 [a, b, c] s"
      using W(1) [OF pd(1)] W(1) [OF pd(2)] False by simp_all
    have "rd pd' c s' = rd pd' c s" if "walk_tables p4 [a, b] s = Some pd'" for pd'
    proof -
      have "pd' = t \<Longrightarrow> [a, b] = r" using space_okD(4) [OF ok pd(1) rok(1) that] G(2) by simp
      then show ?thesis
        using G(12) [of pd' c] idx(3) space_okD(3) [OF ok pd(1) that] W(2) [OF pd(1)] that False by (auto simp: table_ok_def)
    qed
    moreover have "rd pt l s' = rd pt l s" if "walk_tables p4 [a, b, c] s = Some pt" for pt
    proof -
      have "pt \<noteq> t" using space_okD(4) [OF ok pd(2) rok(1) that] G(2) rok(2) by auto
      then show ?thesis
        using G(12) [of pt l] idx(4) space_okD(3) [OF ok pd(2) that] W(2) [OF pd(2)] that by (auto simp: table_ok_def)
    qed
    ultimately show ?thesis using False w by (simp add: mapping_def del: walk_tables.simps split: option.split)
  qed
qed

text \<open>
  The frames that are in use but hold no table of the space: the pages of processes, and the kernel's own
  memory. \<open>undisturbed\<close> says that a step kept all of them as they were.
\<close>

definition outside :: "u64 \<Rightarrow> vmm_state \<Rightarrow> u64 \<Rightarrow> bool" where
  "outside p4 s t \<longleftrightarrow> page_aligned t \<and> pmm_view (vm_pmm s) (frame_of t) \<noteq> Free \<and> (\<forall>p. path_ok p \<longrightarrow> walk_tables p4 p s \<noteq> Some t)"

definition undisturbed :: "u64 \<Rightarrow> vmm_state \<Rightarrow> vmm_state \<Rightarrow> bool" where
  "undisturbed p4 s s' \<longleftrightarrow> (\<forall>t. outside p4 s t \<longrightarrow> outside p4 s' t \<and> (\<forall>j < 512. rd t j s' = rd t j s))"

lemma undisturbed_refl: "undisturbed p4 s s"
  by (simp add: undisturbed_def)

lemma undisturbed_trans: "undisturbed p4 s s' \<Longrightarrow> undisturbed p4 s' s'' \<Longrightarrow> undisturbed p4 s s''"
  by (simp add: undisturbed_def)

lemma grown_undisturbed:
  assumes ok: "space_ok p4 s" and g: "grown p4 s r t i n e g s'"
  shows "undisturbed p4 s s'"
  unfolding undisturbed_def
proof (intro allI impI)
  note G = grownD [OF g] and W = walk_grown [OF ok g]
  fix t' assume o: "outside p4 s t'"
  then have d: "page_aligned t'" "pmm_view (vm_pmm s) (frame_of t') \<noteq> Free" "\<And>p. path_ok p \<Longrightarrow> walk_tables p4 p s \<noteq> Some t'"
    unfolding outside_def by blast+
  have ne: "t' \<noteq> n" "t' \<noteq> t" using d(2,3) G(2,8) path_ok_append [OF G(1)] by auto
  have "walk_tables p4 p s' \<noteq> Some t'" if "path_ok p" for p using W(1) [OF that] d(3) [OF that] ne(1) by simp
  then show "outside p4 s' t' \<and> (\<forall>j<512. rd t' j s' = rd t' j s)"
    using d ne G(9) G(12) [OF d(1)] by (auto simp: outside_def)
qed

lemma low_bits:
  assumes "page_aligned n" "k AND NOT 0xFFF = 0"
  shows "n AND k = (0 :: u64)"
proof -
  have "n AND k = (n AND NOT 0xFFF) AND k" using assms(1) unfolding page_base by simp
  also have "\<dots> = n AND (k AND NOT 0xFFF)" by (simp only: and.assoc and.commute and.left_commute)
  finally show ?thesis unfolding assms(2) by simp
qed

lemma child_entry:
  assumes "page_aligned n" "f AND 7 = f" "present f"
  shows "child (n OR f) = Some n"
proof -
  have f: "f AND NOT 0xFFF = 0" "f AND 0x80 = 0" by (subst assms(2) [symmetric], simp add: and.assoc)+
  have "n AND 1 = 0" "n AND 0x80 = 0" by (rule low_bits [OF assms(1)], simp)+
  then have "present (n OR f)" "\<not> huge (n OR f)"
    using assms(3) f(2) by (simp_all add: present_def huge_def PAGE_PRESENT_def PAGE_HUGE_def bit.conj_disj_distrib2)
  moreover have "(n OR f) AND NOT 0xFFF = n" using f(1) assms(1) by (simp add: bit.conj_disj_distrib2 page_base)
  ultimately show ?thesis by (simp add: child_def)
qed

lemma hang_table:
  assumes ok: "space_ok p4 s" and r: "path_ok (r @ [i])" "walk_tables p4 r s = Some t" "child (rd t i s) = None"
    and a: "vm_alloc s = (n, s1)" "n \<noteq> 0" and f: "f AND 7 = f" "present f"
    and fill: "vm_pmm s2 = vm_pmm s1" "\<And>t' j. page_aligned t' \<Longrightarrow> j < 512 \<Longrightarrow> rd t' j s2 = (if t' = n then g j else rd t' j s1)"
    and g: "length r < 2 \<Longrightarrow> (\<And>j. j < 512 \<Longrightarrow> \<not> present (g j))"
  shows "grown p4 s r t i n (n OR f) g (wr t i (n OR f) s2)"
proof -
  note A = alloc_result [OF space_okD(1,2) [OF ok] a(1)]
  have n: "page_aligned n" "n AND PTE_PHYS_MASK = n" "pmm_view (vm_pmm s) (frame_of n) = Free"
    "pmm_view (vm_pmm s1) = (pmm_view (vm_pmm s))(frame_of n := Owned 1)" using A(4) [OF a(2)] by blast+
  have t: "page_aligned t" "i < 512" using space_okD(3) [OF ok path_ok_append [OF r(1)] r(2)] r(1) by (simp_all add: table_ok_def path_ok_def)
  have "rd t' j s1 = rd t' j s" for t' j using A(1) by (simp add: rd_def)
  then show ?thesis
    unfolding grown_def using r child_entry [OF n(1) f] n a(2) A(2) fill g t by (simp add: rd_wr)
qed

end
