(* ===== verification/Vmm_Map.thy ===== *)
theory Vmm_Map
  imports Vmm_Props
begin

text \<open>
  The operations of \<open>kernel/vmm.c\<close> on one page, over the view of \<open>Vmm_Props\<close>: mapping a page, the copy on a
  write to a shared page, and the check that precedes every write of the kernel to user memory.
\<close>

section \<open>Mapping a page\<close>

lemma table_index_less: "table_index k v < 512"
proof -
  have "drop_bit k v AND 0x1FF \<le> (0x1FF :: u64)" by (rule word_and_le1)
  then show ?thesis by (simp add: table_index_def word_le_nat_alt)
qed

definition same_maps :: "u64 \<Rightarrow> vmm_state \<Rightarrow> vmm_state \<Rightarrow> bool" where
  "same_maps p4 s s' \<longleftrightarrow> (\<forall>a < 512. \<forall>b < 512. \<forall>c < 512. \<forall>l < 512. mapping p4 a b c l s' = mapping p4 a b c l s)"

lemma same_maps_refl: "same_maps p4 s s"
  by (simp add: same_maps_def)

lemma same_maps_trans: "same_maps p4 s s' \<Longrightarrow> same_maps p4 s' s'' \<Longrightarrow> same_maps p4 s s''"
  by (simp add: same_maps_def)

text \<open>A step towards the page table: it keeps the space, its mappings and all other memory, and either the next table exists or no frame is free.\<close>

definition reaches :: "u64 \<Rightarrow> vmm_state \<Rightarrow> nat list \<Rightarrow> bool \<Rightarrow> vmm_state \<Rightarrow> bool" where
  "reaches p4 s q b s' \<longleftrightarrow> space_ok p4 s' \<and> same_maps p4 s s' \<and> undisturbed p4 s s' \<and>
     (\<forall>p t. path_ok p \<longrightarrow> walk_tables p4 p s = Some t \<longrightarrow> walk_tables p4 p s' = Some t) \<and>
     (if b then walk_tables p4 q s' \<noteq> None else \<forall>i. pmm_view (vm_pmm s') i \<noteq> Free)"

lemma reachesD:
  assumes "reaches p4 s q b s'"
  shows "space_ok p4 s'" "same_maps p4 s s'" "undisturbed p4 s s'"
    "path_ok p \<Longrightarrow> walk_tables p4 p s = Some t \<Longrightarrow> walk_tables p4 p s' = Some t" "b \<Longrightarrow> walk_tables p4 q s' \<noteq> None"
  using assms unfolding reaches_def by (metis (full_types))+

lemma no_memory:
  assumes ok: "space_ok p4 s" and a: "vm_alloc s = (0, s1)"
  shows "reaches p4 s q False s1"
proof -
  note A = alloc_result [OF space_okD(1,2) [OF ok] a]
  have v: "pmm_view (vm_pmm s1) = pmm_view (vm_pmm s)" "\<forall>i. pmm_view (vm_pmm s) i \<noteq> Free" using A(3) by simp_all
  have r: "rd t i s1 = rd t i s" for t i using A(1) by (simp add: rd_def)
  then have w: "walk_tables p4 p s1 = walk_tables p4 p s" for p by (intro walk_cong) simp
  have "space_ok p4 s1" using ok A(2) unfolding space_ok_def table_ok_def v(1) w r by blast
  then show ?thesis using v(2) unfolding reaches_def same_maps_def undisturbed_def outside_def mapping_def w r v(1) by simp
qed

lemma grown_reaches:
  assumes ok: "space_ok p4 s" and g: "grown p4 s r t i n e g s'"
    and keep: "length r = 2 \<Longrightarrow> (\<And>l. l < 512 \<Longrightarrow>
      (if present (g l) then Some (g l) else None) = (if present (rd t i s) then Some (split_entry (rd t i s) l) else None))"
  shows "reaches p4 s (r @ [i]) True s'"
proof -
  have "mapping p4 a b c l s' = mapping p4 a b c l s" if idx: "a < 512" "b < 512" "c < 512" "l < 512" for a b c l
    using mapping_grown [OF ok g idx] keep [OF _ idx(4)] by (cases "length r = 2") auto
  moreover have "walk_tables p4 (r @ [i]) s' = Some n" using walk_grown(1) [OF ok g grownD(1) [OF g]] by simp
  moreover have "walk_tables p4 p s' = Some t'" if p: "path_ok p" "walk_tables p4 p s = Some t'" for p t'
  proof -
    have "take (Suc (length r)) p \<noteq> r @ [i]"
    proof
      assume "take (Suc (length r)) p = r @ [i]"
      then obtain q where "p = r @ i # q" by (metis append_take_drop_id append.assoc append_Cons append_Nil)
      then show False using p(2) grownD(2,3) [OF g] by (simp add: walk_append)
    qed
    then show ?thesis using walk_grown(1) [OF ok g p(1)] p(2) by simp
  qed
  ultimately show ?thesis
    using grown_ok [OF ok g] grown_undisturbed [OF ok g] by (simp add: reaches_def same_maps_def)
qed

lemma ensure_table_reaches:
  assumes ok: "space_ok p4 s" and r: "path_ok (r @ [i])" "walk_tables p4 r s = Some t"
    and small: "present (rd t i s) \<Longrightarrow> \<not> huge (rd t i s)" and run: "ensure_table t i s = (b, s')"
  shows "reaches p4 s (r @ [i]) b s'"
proof (cases "present (rd t i s)")
  case True
  then have "b" "s' = s" using run by (simp_all add: ensure_table_def)
  moreover have "walk_tables p4 (r @ [i]) s \<noteq> None" using True small r(2) by (simp add: walk_append child_def)
  ultimately show ?thesis using ok by (simp add: reaches_def same_maps_refl undisturbed_refl)
next
  case False
  obtain n s1 where a: "vm_alloc s = (n, s1)" by fastforce
  show ?thesis
  proof (cases "n = 0")
    case True
    then show ?thesis using False run a no_memory [OF ok] by (simp add: ensure_table_def)
  next
    case nz: False
    have n: "page_aligned n" using alloc_result(4) [OF space_okD(1,2) [OF ok] a nz] by blast
    have res: "b" "s' = wr t i (n OR 7) (clear_page n s1)"
      using False run a nz by (simp_all add: ensure_table_def PAGE_PRESENT_def PAGE_WRITABLE_def PAGE_USER_def)
    have "grown p4 s r t i n (n OR 7) (\<lambda>_. 0) s'"
      unfolding res(2) by (rule hang_table [OF ok r _ a nz])
        (use False in \<open>simp_all add: child_def rd_clear n present_def PAGE_PRESENT_def\<close>)
    then show ?thesis using grown_reaches [OF ok] False res(1) by (simp add: present_def)
  qed
qed

lemma present_split: "present e \<Longrightarrow> present (split_entry e i)"
  by (simp add: split_entry_def present_def PAGE_PRESENT_def PAGE_HUGE_def bit.conj_disj_distrib2 and.assoc or_eq_0_iff)

lemma split_reaches:
  assumes ok: "space_ok p4 s" and r: "path_ok (r @ [i])" "length r = 2" "walk_tables p4 r s = Some t"
    and big: "present (rd t i s)" "huge (rd t i s)" and run: "split_huge_pd_entry t i s = (b, s')"
  shows "reaches p4 s (r @ [i]) b s'"
proof -
  obtain n s1 where a: "vm_alloc s = (n, s1)" by fastforce
  show ?thesis
  proof (cases "n = 0")
    case True
    then show ?thesis using run a no_memory [OF ok] by (simp add: split_huge_pd_entry_def Let_def)
  next
    case nz: False
    have n: "page_aligned n" using alloc_result(4) [OF space_okD(1,2) [OF ok] a nz] by blast
    let ?f = "rd t i s AND 7"
    let ?s2 = "fold (\<lambda>j. wr n j (split_entry (rd t i s) j)) [0..<512] (clear_page n s1)"
    have res: "b" "s' = wr t i (n OR ?f) ?s2"
      using run a nz by (simp_all add: split_huge_pd_entry_def Let_def PAGE_PRESENT_def PAGE_WRITABLE_def PAGE_USER_def)
    have fill: "vm_pmm ?s2 = vm_pmm s1" "rd t' j ?s2 = (if t' = n then split_entry (rd t i s) j else rd t' j s1)" if "page_aligned t'" "j < 512" for t' j
      using that n by (simp_all add: rd_fill rd_clear)
    have "present ?f" using big(1) by (simp add: present_def PAGE_PRESENT_def and.assoc)
    then have "grown p4 s r t i n (n OR ?f) (split_entry (rd t i s)) s'"
      unfolding res(2) using big r(2)
      by (intro hang_table [OF ok r(1,3) _ a nz]) (simp_all add: child_def fill(1) [OF n, of 0] fill(2) and.assoc)
    then show ?thesis using grown_reaches [OF ok] big(1) present_split res(1) by simp
  qed
qed

lemma next_table_walk:
  assumes "walk_tables p4 (r @ [i]) s \<noteq> None" "walk_tables p4 r s = Some t"
  shows "walk_tables p4 (r @ [i]) s = Some (next_table t i s)"
  using assms by (auto simp: walk_append next_table_def child_def split: if_splits)

text \<open>The state behind a page table entry that has been rewritten: reads of tables differ in that entry only.\<close>

definition leaf_step :: "u64 \<Rightarrow> vmm_state \<Rightarrow> u64 \<Rightarrow> nat \<Rightarrow> u64 \<Rightarrow> vmm_state \<Rightarrow> bool" where
  "leaf_step p4 s pt l v s' \<longleftrightarrow> pmm_inv (vm_pmm s') \<and> pmm_view (vm_pmm s') 0 \<noteq> Free \<and>
     (\<forall>p t. path_ok p \<longrightarrow> walk_tables p4 p s = Some t \<longrightarrow> pmm_view (vm_pmm s') (frame_of t) \<noteq> Free \<and>
        (\<forall>i < 512. rd t i s' = (if t = pt \<and> i = l then v else rd t i s)))"

lemma leaf_stepD:
  assumes "leaf_step p4 s pt l v s'"
  shows "pmm_inv (vm_pmm s')" "pmm_view (vm_pmm s') 0 \<noteq> Free"
    "path_ok p \<Longrightarrow> walk_tables p4 p s = Some t \<Longrightarrow> pmm_view (vm_pmm s') (frame_of t) \<noteq> Free"
    "path_ok p \<Longrightarrow> walk_tables p4 p s = Some t \<Longrightarrow> i < 512 \<Longrightarrow> rd t i s' = (if t = pt \<and> i = l then v else rd t i s)"
  using assms unfolding leaf_step_def by blast+

lemma walk_leaf:
  assumes ok: "space_ok p4 s" and pt: "path_ok q" "length q = 3" "walk_tables p4 q s = Some pt"
    and st: "leaf_step p4 s pt l v s'" and p: "path_ok p"
  shows "walk_tables p4 p s' = walk_tables p4 p s"
proof (rule walk_cong)
  fix n t assume n: "n < length p" and t: "walk_tables p4 (take n p) s = Some t"
  have tok: "path_ok (take n p)" using path_ok_take [OF p] .
  have "t \<noteq> pt" using space_okD(4) [OF ok tok pt(1) t] pt(2,3) n p by (auto simp: path_ok_def)
  moreover have "p ! n < 512" using p n by (simp add: path_ok_def)
  ultimately show "rd t (p ! n) s' = rd t (p ! n) s" using leaf_stepD(4) [OF st tok t] by simp
qed

lemma leaf_ok:
  assumes ok: "space_ok p4 s" and pt: "path_ok q" "length q = 3" "walk_tables p4 q s = Some pt" and st: "leaf_step p4 s pt l v s'"
  shows "space_ok p4 s'"
  unfolding space_ok_def
proof (intro conjI allI impI)
  note W = walk_leaf [OF ok pt st] and L = leaf_stepD [OF st]
  show "pmm_inv (vm_pmm s')" "pmm_view (vm_pmm s') 0 \<noteq> Free" by (rule L)+
  show "table_ok t s'" if "path_ok p" "walk_tables p4 p s' = Some t" for p t
    using that space_okD(3) [OF ok that(1)] L(3) [OF that(1)] W [OF that(1)] by (simp add: table_ok_def)
  show "p = p'" if "path_ok p" "path_ok p'" "walk_tables p4 p s' = Some t" "walk_tables p4 p' s' = Some t" for p p' t
    using that space_okD(4) [OF ok that(1,2)] by (simp add: W)
  show "\<not> huge (rd t i s')" if p: "path_ok p" "length p \<le> 1" "i < 512" "walk_tables p4 p s' = Some t" "present (rd t i s')" for p t i
  proof -
    have w: "walk_tables p4 p s = Some t" using p(4) W [OF p(1)] by simp
    then have "t \<noteq> pt" using space_okD(4) [OF ok p(1) pt(1) w] pt(2,3) p(2) by auto
    then show ?thesis using L(4) [OF p(1) w p(3)] space_okD(5) [OF ok p(1-3) w] p(5) by simp
  qed
qed

lemma mapping_leaf:
  assumes ok: "space_ok p4 s" and idx: "a < 512" "b < 512" "c < 512" and pt: "walk_tables p4 [a, b, c] s = Some pt"
    and st: "leaf_step p4 s pt l v s'" and idx': "a' < 512" "b' < 512" "c' < 512" "l' < 512"
  shows "mapping p4 a' b' c' l' s' =
    (if a' = a \<and> b' = b \<and> c' = c \<and> l' = l then if present v then Some v else None else mapping p4 a' b' c' l' s)"
proof -
  have q: "path_ok [a, b, c]" "path_ok [a', b']" "path_ok [a', b', c']" using idx idx' by (simp_all add: path_ok_def)
  note W = walk_leaf [OF ok q(1) _ pt st, simplified] and L = leaf_stepD(4) [OF st]
  have pd: "rd t c' s' = rd t c' s" if "walk_tables p4 [a', b'] s = Some t" for t
  proof -
    have "t \<noteq> pt" using space_okD(4) [OF ok q(2,1) that] pt by auto
    then show ?thesis using L [OF q(2) that idx'(3)] by simp
  qed
  have leaf: "rd t l' s' = (if a' = a \<and> b' = b \<and> c' = c \<and> l' = l then v else rd t l' s)" if t: "walk_tables p4 [a', b', c'] s = Some t" for t
  proof -
    have "t = pt \<longleftrightarrow> a' = a \<and> b' = b \<and> c' = c" using space_okD(4) [OF ok q(3,1) t] pt t by auto
    then show ?thesis using L [OF q(3) t idx'(4)] by simp
  qed
  show ?thesis
  proof (cases "walk_tables p4 [a', b', c'] s")
    case None
    then have "\<not> (a' = a \<and> b' = b \<and> c' = c)" using pt by auto
    then show ?thesis using None pd W [OF q(2)] W [OF q(3)] by (auto simp: mapping_def simp del: walk_tables.simps split: option.split)
  next
    case (Some t)
    then obtain d where d: "walk_tables p4 [a', b'] s = Some d" "child (rd d c' s) = Some t"
      using walk_append [of p4 "[a', b']" "[c']" s] by (auto split: option.splits bind_splits)
    then have "\<not> (present (rd d c' s) \<and> huge (rd d c' s))" by (auto simp: child_def split: if_splits)
    then show ?thesis using Some d(1) pd leaf W [OF q(2)] W [OF q(3)] by (auto simp: mapping_def simp del: walk_tables.simps)
  qed
qed

text \<open>What an address space maps the page of a virtual address to, and when two addresses are in the same page.\<close>

definition page_map :: "u64 \<Rightarrow> u64 \<Rightarrow> vmm_state \<Rightarrow> u64 option" where
  "page_map p4 v s = mapping p4 (table_index 39 v) (table_index 30 v) (table_index 21 v) (table_index 12 v) s"

definition same_page :: "u64 \<Rightarrow> u64 \<Rightarrow> bool" where
  "same_page v w \<longleftrightarrow> take_bit 36 (drop_bit 12 v) = take_bit 36 (drop_bit 12 w)"

lemma shift_range: "(\<forall>j < m. P (k + j)) \<longleftrightarrow> (\<forall>n. k \<le> n \<and> n < k + m \<longrightarrow> P n)" for k m :: nat
  by (metis le_add_diff_inverse le_add1 nat_add_left_cancel_less)

lemma field_eq:
  fixes v w :: u64
  assumes "m \<le> 64"
  shows "take_bit m (drop_bit k v) = take_bit m (drop_bit k w) \<longleftrightarrow> (\<forall>n. k \<le> n \<and> n < k + m \<longrightarrow> bit v n = bit w n)"
proof -
  have "take_bit m (drop_bit k v) = take_bit m (drop_bit k w) \<longleftrightarrow> (\<forall>j < m. bit v (k + j) = bit w (k + j))"
    using assms by (simp add: bit_eq_iff bit_take_bit_iff bit_drop_bit_eq) (meson order_less_le_trans)
  then show ?thesis unfolding shift_range [of m "\<lambda>n. bit v n = bit w n"] .
qed

lemma table_index_eq: "table_index k v = table_index k w \<longleftrightarrow> (\<forall>n. k \<le> n \<and> n < k + 9 \<longrightarrow> bit v n = bit w n)"
proof -
  have "table_index k v = table_index k w \<longleftrightarrow> take_bit 9 (drop_bit k v) = take_bit 9 (drop_bit k w)"
    by (simp add: table_index_def take_bit_eq_mask mask_eq_exp_minus_1 word_unat_eq_iff)
  then show ?thesis by (simp add: field_eq)
qed

lemma same_page_indices:
  "same_page v w \<longleftrightarrow> table_index 39 v = table_index 39 w \<and> table_index 30 v = table_index 30 w \<and>
     table_index 21 v = table_index 21 w \<and> table_index 12 v = table_index 12 w"
proof -
  have "same_page v w \<longleftrightarrow> (\<forall>n. 12 \<le> n \<and> n < 48 \<longrightarrow> bit v n = bit w n)"
    by (simp add: same_page_def field_eq)
  moreover have "(12 \<le> n \<and> n < 48) \<longleftrightarrow> (39 \<le> n \<and> n < 39 + 9) \<or> (30 \<le> n \<and> n < 30 + 9) \<or> (21 \<le> n \<and> n < 21 + 9) \<or> (12 \<le> n \<and> n < 12 + 9)" for n :: nat
    by auto
  ultimately show ?thesis unfolding table_index_eq by blast
qed

lemma find_page_entry_walk:
  assumes ok: "space_ok p4 s"
  shows "find_page_entry p4 v s = map_option (\<lambda>pt. slot_addr pt (table_index 12 v))
           (walk_tables p4 [table_index 39 v, table_index 30 v, table_index 21 v] s)"
proof -
  let ?a = "table_index 39 v" let ?b = "table_index 30 v" let ?c = "table_index 21 v"
  have phys: "e AND PTE_PHYS_MASK = e AND NOT 0xFFF" if "path_ok p" "walk_tables p4 p s = Some (e AND NOT 0xFFF)" for p e
  proof -
    have "(e AND NOT 0xFFF) AND PTE_PHYS_MASK = e AND NOT 0xFFF" using space_okD(3) [OF ok that] by (simp add: table_ok_def)
    then show ?thesis by (simp add: and.assoc PTE_PHYS_MASK_def)
  qed
  have nz: "p4 \<noteq> 0" using space_okD(3) [OF ok, of "[]" p4] by (auto simp: path_ok_def table_ok_def)
  have idx: "path_ok []" "path_ok [?a]" "path_ok [?a, ?b]" "path_ok [?a, ?b, ?c]" by (simp_all add: path_ok_def table_index_less)
  let ?e4 = "rd p4 ?a s"
  show ?thesis
  proof (cases "present ?e4")
    case e4: True
    define d where "d = ?e4 AND NOT 0xFFF"
    have "\<not> huge ?e4" using space_okD(5) [OF ok idx(1) _ table_index_less _ e4] by simp
    then have wa: "walk_tables p4 [?a] s = Some d" using e4 by (simp add: child_def d_def)
    have pa: "?e4 AND PTE_PHYS_MASK = d" using phys [OF idx(2)] wa by (simp add: d_def)
    let ?e3 = "rd d ?b s"
    show ?thesis
    proof (cases "present ?e3")
      case e3: True
      define d' where "d' = ?e3 AND NOT 0xFFF"
      have "\<not> huge ?e3" using space_okD(5) [OF ok idx(2) _ table_index_less wa e3] by simp
      then have wb: "walk_tables p4 [?a, ?b] s = Some d'" using wa e3 walk_append [of p4 "[?a]" "[?b]" s] by (simp add: child_def d'_def)
      have pb: "?e3 AND PTE_PHYS_MASK = d'" using phys [OF idx(3)] wb by (simp add: d'_def)
      have wc: "walk_tables p4 [?a, ?b, ?c] s = child (rd d' ?c s)"
        using wb walk_append [of p4 "[?a, ?b]" "[?c]" s] by (simp split: option.split)
      then have "rd d' ?c s AND PTE_PHYS_MASK = pt" if "child (rd d' ?c s) = Some pt" for pt
        using that phys [OF idx(4), of "rd d' ?c s"] by (auto simp: child_def split: if_splits)
      then show ?thesis
        unfolding wc using nz e4 e3 pa pb by (auto simp: find_page_entry_def Let_def child_def)
    next
      case False
      then have "walk_tables p4 [?a, ?b, ?c] s = None" using wa walk_append [of p4 "[?a]" "[?b, ?c]" s] by (simp add: child_def)
      then show ?thesis using False e4 pa nz by (simp add: find_page_entry_def Let_def)
    qed
  next
    case False
    then have "walk_tables p4 [?a, ?b, ?c] s = None" by (simp add: child_def)
    then show ?thesis using False by (simp add: find_page_entry_def Let_def)
  qed
qed

lemma leaf_write:
  assumes ok: "space_ok p4 s" and p: "path_ok p" "walk_tables p4 p s = Some pt" and len: "length p = 3" and l: "l < 512"
  shows "leaf_step p4 s pt l v (wr pt l v s)" "undisturbed p4 s (wr pt l v s)"
proof -
  have al: "page_aligned t" if "path_ok q" "walk_tables p4 q s = Some t" for q t
    using space_okD(3) [OF ok that] by (simp add: table_ok_def)
  have r: "rd t i (wr pt l v s) = (if t = pt \<and> i = l then v else rd t i s)" if "page_aligned t" "i < 512" for t i
    using that al [OF p] l by (simp add: rd_wr)
  have fr: "pmm_view (vm_pmm s) (frame_of t) \<noteq> Free" if "path_ok q" "walk_tables p4 q s = Some t" for q t
    using space_okD(3) [OF ok that] by (simp add: table_ok_def)
  show st: "leaf_step p4 s pt l v (wr pt l v s)"
    unfolding leaf_step_def using space_okD(1,2) [OF ok] fr r al by auto
  have "walk_tables p4 q (wr pt l v s) = walk_tables p4 q s" if "path_ok q" for q
    using walk_leaf [OF ok p(1) len p(2) st that] .
  then show "undisturbed p4 s (wr pt l v s)"
    unfolding undisturbed_def outside_def using r p by auto
qed

lemma reaches_trans: "reaches p4 s q True s1 \<Longrightarrow> reaches p4 s1 q' b s2 \<Longrightarrow> reaches p4 s q' b s2"
  unfolding reaches_def by (auto intro: same_maps_trans undisturbed_trans)

lemma reaches_fail: "reaches p4 s q False s1 \<Longrightarrow> reaches p4 s q' False s1"
  by (simp add: reaches_def)

lemma directory_reaches:
  assumes ok: "space_ok p4 s" and r: "path_ok [a, b, c]" "walk_tables p4 [a, b] s = Some t"
    and run: "(if present (rd t c s) \<and> huge (rd t c s) then split_huge_pd_entry t c s else (True, s)) = (x, s1)"
      "ensure_table t c s1 = (y, s2)"
  shows "reaches p4 s [a, b, c] (x \<and> y) (if x then s2 else s1)"
proof (cases "present (rd t c s) \<and> huge (rd t c s)")
  case True
  then have split: "reaches p4 s [a, b, c] x s1" using split_reaches [OF ok, of "[a, b]" c t] r run(1) by (simp del: walk_tables.simps)
  show ?thesis
  proof (cases x)
    case x: True
    then have one: "space_ok p4 s1" "walk_tables p4 [a, b, c] s1 \<noteq> None" using split by (simp_all add: reaches_def del: walk_tables.simps)
    obtain n where w: "walk_tables p4 [a, b] s1 = Some n" "child (rd n c s1) \<noteq> None"
      using one(2) walk_append [of p4 "[a, b]" "[c]" s1] by (auto split: option.splits bind_splits)
    moreover have "path_ok [a, b]" using r(1) by (simp add: path_ok_def)
    then have "walk_tables p4 [a, b] s1 = Some t" using split r(2) unfolding reaches_def by blast
    ultimately have "n = t" by simp
    then have "y" "s2 = s1" using w(2) run(2) by (simp_all add: child_def ensure_table_def split: if_splits)
    then show ?thesis using x split by simp
  qed (use split in \<open>simp add: reaches_def\<close>)
next
  case False
  then have "x" "s1 = s" using run(1) by (simp_all only: if_False prod.inject)
  then show ?thesis using ensure_table_reaches [OF ok, of "[a, b]" c t y s2] r run(2) False by (simp del: walk_tables.simps)
qed

lemma map_page_tables:
  assumes ok: "space_ok p4 s" and idx: "a = table_index 39 v" "b = table_index 30 v" "c = table_index 21 v"
  shows "\<exists>x s1. reaches p4 s [a, b, c] x s1 \<and>
    vmm_map_page p4 v phys flags s = (if x then wr (the (walk_tables p4 [a, b, c] s1)) (table_index 12 v) (phys OR flags) s1 else s1)"
proof -
  have path: "path_ok []" "path_ok [a]" "path_ok [a, b]" "path_ok [a, b, c]" by (simp_all add: path_ok_def idx table_index_less)
  have small: "present (rd t i s) \<Longrightarrow> \<not> huge (rd t i s)"
    if "space_ok p4 s" "path_ok p" "length p \<le> 1" "i < 512" "walk_tables p4 p s = Some t" for p t i s using space_okD(5) [OF that] .
  obtain x1 s1 where e1: "ensure_table p4 a s = (x1, s1)" by fastforce
  have r1: "reaches p4 s [a] x1 s1" using ensure_table_reaches [OF ok _ _ _ e1, of "[]"] path(2) small [OF ok path(1)] by (simp add: idx table_index_less)
  show ?thesis
  proof (cases x1)
    case True
    define d where "d = next_table p4 a s1"
    have ok1: "space_ok p4 s1" and w1: "walk_tables p4 [a] s1 = Some d"
      using r1 True next_table_walk [of p4 "[]" a s1 p4] by (simp_all add: reaches_def d_def del: walk_tables.simps(2))
    obtain x2 s2 where e2: "ensure_table d b s1 = (x2, s2)" by fastforce
    have r2: "reaches p4 s1 [a, b] x2 s2"
      using ensure_table_reaches [OF ok1 _ w1 _ e2] path(3) small [OF ok1 path(2) _ _ w1] by (simp add: idx table_index_less)
    show ?thesis
    proof (cases x2)
      case x2: True
      define d' where "d' = next_table d b s2"
      have ok2: "space_ok p4 s2" using r2 by (simp add: reaches_def)
      have "walk_tables p4 [a] s2 = Some d" using r2 w1 path(2) unfolding reaches_def by blast
      then have w2: "walk_tables p4 [a, b] s2 = Some d'"
        using r2 x2 next_table_walk [of p4 "[a]" b s2 d] by (simp add: reaches_def d'_def del: walk_tables.simps(2))
      obtain x3 s3 where e3: "(if present (rd d' c s2) \<and> huge (rd d' c s2) then split_huge_pd_entry d' c s2 else (True, s2)) = (x3, s3)"
        by fastforce
      obtain x4 s4 where e4: "ensure_table d' c s3 = (x4, s4)" by fastforce
      have r3: "reaches p4 s2 [a, b, c] (x3 \<and> x4) (if x3 then s4 else s3)" by (rule directory_reaches [OF ok2 path(4) w2 e3 e4])
      have all: "reaches p4 s [a, b, c] (x3 \<and> x4) (if x3 then s4 else s3)"
        using reaches_trans [OF r1 [unfolded eqTrueI [OF True]] reaches_trans [OF r2 [unfolded eqTrueI [OF x2]] r3]] .
      have nt: "walk_tables p4 [a, b, c] s4 = Some (next_table d' c s4)" if x: "x3" "x4"
      proof -
        have "walk_tables p4 [a, b] s4 = Some d'" using reachesD(4) [OF r3 path(3) w2] x by simp
        then show ?thesis using reachesD(5) [OF r3] x next_table_walk [of p4 "[a, b]" c s4 d'] by (simp del: walk_tables.simps(2))
      qed
      have e1': "ensure_table p4 a s = (True, s1)" and e2': "ensure_table d b s1 = (True, s2)" using e1 e2 True x2 by simp_all
      have "vmm_map_page p4 v phys flags s =
          (if x3 then if x4 then wr (next_table d' c s4) (table_index 12 v) (phys OR flags) s4 else s4 else s3)"
        by (cases x3; cases x4; use e3 e4 in \<open>simp only: vmm_map_page_def Let_def idx [symmetric] e1' e2' prod.case bool.case if_True if_False
          d_def [symmetric] d'_def [symmetric]\<close>)
      then show ?thesis
        using all nt by (intro exI [of _ "x3 \<and> x4"] exI [of _ "if x3 then s4 else s3"]) (simp del: walk_tables.simps(2))
    next
      case False
      then have "reaches p4 s [a, b, c] False s2" using reaches_fail r2 reaches_trans r1 True by simp
      then show ?thesis using e1 e2 True False
        by (intro exI [of _ False] exI [of _ s2]) (simp add: vmm_map_page_def Let_def idx [symmetric] d_def [symmetric])
    qed
  next
    case False
    then show ?thesis using e1 reaches_fail r1 by (intro exI [of _ False] exI [of _ s1]) (simp add: vmm_map_page_def Let_def idx [symmetric])
  qed
qed

lemma map_page_result:
  assumes ok: "space_ok p4 s" and s': "s' = vmm_map_page p4 v phys flags s"
  shows "space_ok p4 s' \<and> undisturbed p4 s s' \<and>
    ((\<forall>w. page_map p4 w s' = (if same_page w v then if present (phys OR flags) then Some (phys OR flags) else None else page_map p4 w s)) \<or>
     (\<forall>w. page_map p4 w s' = page_map p4 w s) \<and> (\<forall>i. pmm_view (vm_pmm s') i \<noteq> Free))"
proof -
  let ?a = "table_index 39 v" let ?b = "table_index 30 v" let ?c = "table_index 21 v" let ?l = "table_index 12 v"
  obtain x s1 where r: "reaches p4 s [?a, ?b, ?c] x s1"
    and run: "s' = (if x then wr (the (walk_tables p4 [?a, ?b, ?c] s1)) ?l (phys OR flags) s1 else s1)"
    using map_page_tables [OF ok refl refl refl] s' by blast
  have one: "space_ok p4 s1" "same_maps p4 s s1" "undisturbed p4 s s1" using r unfolding reaches_def by blast+
  have same: "page_map p4 w s1 = page_map p4 w s" for w using one(2) by (simp add: page_map_def same_maps_def table_index_less)
  show ?thesis
  proof (cases x)
    case True
    then obtain pt where pt: "walk_tables p4 [?a, ?b, ?c] s1 = Some pt" using r unfolding reaches_def by auto
    have path: "path_ok [?a, ?b, ?c]" by (simp add: path_ok_def table_index_less)
    note st = leaf_write [OF one(1) path pt _ table_index_less, of 12 v "phys OR flags", simplified]
    have s'_eq: "s' = wr pt ?l (phys OR flags) s1" using run True pt by (simp del: walk_tables.simps)
    have "page_map p4 w s' = (if same_page w v then if present (phys OR flags) then Some (phys OR flags) else None else page_map p4 w s1)" for w
      unfolding s'_eq page_map_def same_page_indices
      by (rule mapping_leaf [OF one(1) _ _ _ pt st(1)]) (simp_all add: table_index_less)
    moreover have "space_ok p4 s'" unfolding s'_eq by (rule leaf_ok [OF one(1) path _ pt st(1)]) simp
    ultimately show ?thesis using same undisturbed_trans [OF one(3) st(2)] s'_eq by simp
  next
    case False
    then show ?thesis using r run one same by (simp add: reaches_def)
  qed
qed

end
