(* ===== verification/Vmm_Cow.thy ===== *)
theory Vmm_Cow
  imports Vmm_Map
begin

text \<open>
  Writes to shared pages: the handler of a fault on a page marked with \<open>PAGE_COW\<close>, and the check of a range of
  user memory before the kernel writes to it. Both make the page private without changing what any
  address of the space reads as.
\<close>

lemma refcount_view:
  assumes "pmm_inv p"
  shows "unat (pmm_block_refcount a p) =
    (if page_aligned a then case pmm_view p (frame_of a) of Owned n \<Rightarrow> n | _ \<Rightarrow> 0 else 0)"
proof -
  have I: "unat (total_blocks p) \<le> PMM_BLOCKS" "\<And>i. i \<in> free_set p \<Longrightarrow> pmm_refcounts p ! i = 0"
    "\<And>i. i < PMM_BLOCKS \<Longrightarrow> pmm_refcounts p ! i \<noteq> 0 \<Longrightarrow> i < unat (total_blocks p)"
    using assms unfolding pmm_inv_def by blast+
  show ?thesis
  proof (cases "page_aligned a \<and> frame_of a < unat (total_blocks p)")
    case True
    then have c: "pmm_block_refcount a p = pmm_refcounts p ! frame_of a"
      by (simp add: pmm_block_refcount_def page_aligned_iff aligned_unat total_guard frame_of_div)
    show ?thesis
    proof (cases "pmm_view p (frame_of a)")
      case Free
      then show ?thesis using c True I(2) [of "frame_of a"] unfolding pmm_view_Free [symmetric] by simp
    qed (use c True I(1) in \<open>auto simp: pmm_view_def split: if_splits\<close>)
  next
    case False
    then have "unat (pmm_block_refcount a p) = 0"
      by (auto simp: pmm_block_refcount_def page_aligned_iff aligned_unat total_guard)
    moreover have "\<not> page_aligned a \<or> (\<forall>n. pmm_view p (frame_of a) \<noteq> Owned n)"
      using False I(3) [of "frame_of a"] by (auto simp: pmm_view_def split: if_splits)
    ultimately show ?thesis by (auto split: frame_status.split)
  qed
qed

text \<open>What the code needs of \<open>PAGE_COW\<close>: a flag bit of an entry, and none of the three bits the processor checks.\<close>

definition cow_bit :: "u64 \<Rightarrow> bool" where
  "cow_bit cow \<longleftrightarrow> cow AND NOT 0xFFF = 0 \<and> cow AND 7 = 0"

text \<open>The entry the handler writes for the page \<open>n\<close>.\<close>

definition private_entry :: "u64 \<Rightarrow> u64 \<Rightarrow> u64 \<Rightarrow> u64" where
  "private_entry cow n e = n OR ((e AND 0xFFF) AND NOT cow) OR PAGE_PRESENT OR PAGE_WRITABLE"

lemma private_entry_bits:
  assumes n: "page_aligned n" "n AND PTE_PHYS_MASK = n" and cow: "cow_bit cow"
  shows "private_entry cow n e AND PTE_PHYS_MASK = n" "present (private_entry cow n e)"
    "private_entry cow n e AND PAGE_WRITABLE \<noteq> 0" "user (private_entry cow n e) \<longleftrightarrow> user e" "private_entry cow n e AND cow = 0"
proof -
  let ?f = "(e AND 0xFFF) AND NOT cow"
  note dist = private_entry_def PAGE_PRESENT_def PAGE_WRITABLE_def PAGE_USER_def bit.conj_disj_distrib2
  have c: "cow AND NOT 0xFFF = 0" "cow AND 7 = 0" using cow by (simp_all add: cow_bit_def)
  have k: "k AND cow = 0" if "k AND 7 = k" for k :: u64
  proof -
    have "(k AND 7) AND cow = k AND (cow AND 7)" by (simp only: and.assoc and.commute and.left_commute)
    then show ?thesis using that c(2) by simp
  qed
  have "?f AND PTE_PHYS_MASK = (e AND NOT cow) AND (0xFFF AND PTE_PHYS_MASK)" by (simp only: and.assoc and.commute and.left_commute)
  then have "?f AND PTE_PHYS_MASK = 0" by (simp add: PTE_PHYS_MASK_def)
  then show "private_entry cow n e AND PTE_PHYS_MASK = n" using n(2) by (simp add: dist PTE_PHYS_MASK_def)
  show "present (private_entry cow n e)" "private_entry cow n e AND PAGE_WRITABLE \<noteq> 0"
    by (simp_all add: dist present_def or_eq_0_iff)
  have "?f AND 4 = e AND ((0xFFF AND 4) AND NOT cow)" by (simp only: and.assoc and.commute and.left_commute)
  moreover have "4 AND (cow OR NOT cow) = (4 AND cow) OR (4 AND NOT cow)" by (rule bit.conj_disj_distrib)
  then have "4 AND NOT cow = 4" using k [of 4] by simp
  ultimately have "?f AND 4 = e AND 4" by simp
  moreover have "n AND 4 = 0" by (rule low_bits [OF n(1)]) simp
  ultimately show "user (private_entry cow n e) \<longleftrightarrow> user e" by (simp add: dist user_def)
  have "?f AND cow = (e AND 0xFFF) AND (cow AND NOT cow)" by (simp only: and.assoc and.commute and.left_commute)
  moreover have "n AND cow = 0" by (rule low_bits [OF n(1) c(1)])
  ultimately show "private_entry cow n e AND cow = 0" using k [of 3] by (simp add: dist)
qed


section \<open>The fault handler\<close>

text \<open>A copy of page \<open>old\<close> for the entry \<open>l\<close> of the page table \<open>pt\<close>, as far as it keeps the space in order.\<close>

lemma private_copy:
  assumes ok: "space_ok p4 s" and q: "path_ok q" "length q = 3" "walk_tables p4 q s = Some pt" and l: "l < 512"
    and out: "outside p4 s old" and own: "pmm_view (vm_pmm s) (frame_of old) = Owned k" "1 < k"
    and a: "vm_alloc s = (n, s1)" "n \<noteq> 0" and s2: "s2 = vm_free old (copy_page n old s1)"
  shows "leaf_step p4 s pt l v (wr pt l v s2)" "undisturbed p4 s (wr pt l v s2)" "rd pt l s2 = rd pt l s"
    "j < 512 \<Longrightarrow> rd n j (wr pt l v s2) = rd old j s" "pmm_view (vm_pmm s2) (frame_of n) = Owned 1" "outside p4 (wr pt l v s2) n"
proof -
  note A = alloc_result [OF space_okD(1,2) [OF ok] a(1)]
  have n: "page_aligned n" "pmm_view (vm_pmm s) (frame_of n) = Free"
    "pmm_view (vm_pmm s1) = (pmm_view (vm_pmm s))(frame_of n := Owned 1)" using A(4) [OF a(2)] by blast+
  have old: "page_aligned old" "\<And>p. path_ok p \<Longrightarrow> walk_tables p4 p s \<noteq> Some old" using out unfolding outside_def by blast+
  have nf: "frame_of n \<noteq> frame_of old" "n \<noteq> old" using n(2) own(1) by auto
  have tab: "page_aligned t" "t \<noteq> n" "pmm_view (vm_pmm s) (frame_of t) \<noteq> Free" if "path_ok p" "walk_tables p4 p s = Some t" for p t
    using space_okD(3) [OF ok that] n(2) by (auto simp: table_ok_def)
  have r1: "rd t i s1 = rd t i s" for t i using A(1) by (simp add: rd_def)
  have r2: "rd t i s2 = (if t = n then rd old i s else rd t i s)" if "page_aligned t" "i < 512" for t i
    using rd_copy(1) [OF n(1) old(1) nf(2) order.refl that, of s1] that(2) r1 by (simp add: s2 vm_free_def copy_page_def)
  have p1: "vm_pmm (copy_page n old s1) = vm_pmm s1" using rd_copy(2) [OF n(1) old(1) nf(2) order.refl] by (simp add: copy_page_def)
  have inv: "pmm_inv (vm_pmm s2)" using pmm.release_invar A(2) p1 by (simp add: s2 vm_free_def)
  have view: "pmm_view (vm_pmm s2) = (pmm_view (vm_pmm s))(frame_of n := Owned 1, frame_of old := Owned (k - 1))"
    using pmm.release_view [OF A(2), of old] own old(1) nf(1) n(3) p1 by (simp add: s2 vm_free_def)
  have used: "pmm_view (vm_pmm s2) i \<noteq> Free" if "pmm_view (vm_pmm s) i \<noteq> Free" for i using that by (simp add: view)
  show r3: "rd pt l s2 = rd pt l s" using r2 [OF tab(1) [OF q(1,3)] l] tab(2) [OF q(1,3)] by simp
  have r4: "rd t i (wr pt l v s2) = (if t = pt \<and> i = l then v else rd t i s2)" if "page_aligned t" "i < 512" for t i
    using that tab(1) [OF q(1,3)] l by (simp add: rd_wr)
  show st: "leaf_step p4 s pt l v (wr pt l v s2)"
    unfolding leaf_step_def using inv used space_okD(2) [OF ok] tab r2 r4 by auto
  have w: "walk_tables p4 p (wr pt l v s2) = walk_tables p4 p s" if "path_ok p" for p by (rule walk_leaf [OF ok q st that])
  show "undisturbed p4 s (wr pt l v s2)"
    unfolding undisturbed_def outside_def using w used r2 r4 q n(2) by auto
  show "j < 512 \<Longrightarrow> rd n j (wr pt l v s2) = rd old j s" using r2 r4 n(1) tab(2) [OF q(1,3)] by auto
  show one: "pmm_view (vm_pmm s2) (frame_of n) = Owned 1" using nf(1) by (simp add: view)
  show "outside p4 (wr pt l v s2) n" unfolding outside_def using w n(1) one tab(2) by auto
qed


text \<open>The user pages of a space are not its tables.\<close>

definition user_pages_ok :: "u64 \<Rightarrow> vmm_state \<Rightarrow> bool" where
  "user_pages_ok p4 s \<longleftrightarrow> (\<forall>w e. page_map p4 w s = Some e \<longrightarrow> user e \<longrightarrow> outside p4 s (e AND PTE_PHYS_MASK))"

definition space_of :: "u64 \<Rightarrow> vmm_state \<Rightarrow> bool" where
  "space_of p4 s \<longleftrightarrow> space_ok p4 s \<and> user_pages_ok p4 s"

text \<open>The page of \<open>v\<close> is mapped, for writing and for nobody else, to a page that reads like the page of \<open>e\<close>.\<close>

definition made_private :: "u64 \<Rightarrow> u64 \<Rightarrow> u64 \<Rightarrow> vmm_state \<Rightarrow> u64 \<Rightarrow> vmm_state \<Rightarrow> bool" where
  "made_private cow p4 v s e s' \<longleftrightarrow>
     (\<exists>e'. (\<forall>w. page_map p4 w s' = (if same_page w v then Some e' else page_map p4 w s)) \<and>
        present e' \<and> user e' \<and> e' AND PAGE_WRITABLE \<noteq> 0 \<and> e' AND cow = 0 \<and>
        unat (pmm_block_refcount (e' AND PTE_PHYS_MASK) (vm_pmm s')) \<le> 1 \<and> outside p4 s' (e' AND PTE_PHYS_MASK) \<and>
        (\<forall>j < 512. rd (e' AND PTE_PHYS_MASK) j s' = rd (e AND PTE_PHYS_MASK) j s))"

lemma mapped_page:
  assumes ok: "space_ok p4 s" and entry: "find_page_entry p4 v s = Some entry" and pr: "present (vm_mem s entry)"
  obtains pt where "walk_tables p4 [table_index 39 v, table_index 30 v, table_index 21 v] s = Some pt"
    "entry = slot_addr pt (table_index 12 v)" "page_map p4 v s = Some (vm_mem s entry)"
proof -
  let ?p = "[table_index 39 v, table_index 30 v, table_index 21 v]"
  obtain pt where pt: "walk_tables p4 ?p s = Some pt" "entry = slot_addr pt (table_index 12 v)"
    using entry unfolding find_page_entry_walk [OF ok] by auto
  obtain d where d: "walk_tables p4 [table_index 39 v, table_index 30 v] s = Some d" "child (rd d (table_index 21 v) s) = Some pt"
    using pt(1) walk_append [of p4 "[table_index 39 v, table_index 30 v]" "[table_index 21 v]" s] by (auto split: option.splits bind_splits)
  then have "\<not> (present (rd d (table_index 21 v) s) \<and> huge (rd d (table_index 21 v) s))" by (auto simp: child_def split: if_splits)
  then have "page_map p4 v s = Some (vm_mem s entry)"
    using pt d(1) pr unfolding page_map_def mapping_def rd_def by (auto simp del: walk_tables.simps)
  then show ?thesis using that pt by blast
qed

lemma cow_fault_result:
  assumes sp: "space_of p4 s" and cow: "cow_bit cow" and run: "vmm_handle_cow_fault cow p4 v s = (b, s')"
    and e: "page_map p4 v s = Some e" "user e"
  shows "space_ok p4 s' \<and> undisturbed p4 s s' \<and>
    (if b then made_private cow p4 v s e s' else \<forall>w. page_map p4 w s' = page_map p4 w s)"
proof -
  have ok: "space_ok p4 s" using sp by (simp add: space_of_def)
  show ?thesis
  proof (cases "\<exists>entry. find_page_entry p4 v s = Some entry \<and> present (vm_mem s entry) \<and> vm_mem s entry AND cow \<noteq> 0")
    case False
    then have "b = False" "s' = s" using run by (auto simp: vmm_handle_cow_fault_def split: option.splits)
    then show ?thesis using ok by (simp add: undisturbed_refl)
  next
    case True
    then obtain entry where en: "find_page_entry p4 v s = Some entry" "present (vm_mem s entry)" "vm_mem s entry AND cow \<noteq> 0" by blast
    obtain pt where pt: "walk_tables p4 [table_index 39 v, table_index 30 v, table_index 21 v] s = Some pt"
      "entry = slot_addr pt (table_index 12 v)" "page_map p4 v s = Some (vm_mem s entry)" using mapped_page [OF ok en(1,2)] .
    have mem: "vm_mem s entry = e" using pt(3) e by simp
    let ?l = "table_index 12 v" let ?old = "e AND PTE_PHYS_MASK"
    have path: "path_ok [table_index 39 v, table_index 30 v, table_index 21 v]" by (simp add: path_ok_def table_index_less)
    have out: "outside p4 s ?old" using sp e unfolding space_of_def user_pages_ok_def by blast
    have al: "page_aligned ?old" "?old AND PTE_PHYS_MASK = ?old" using out by (simp_all add: outside_def and.assoc)
    have step: "space_ok p4 t \<and> (\<forall>w. page_map p4 w t = (if same_page w v then Some x else page_map p4 w s))"
      if "leaf_step p4 s pt ?l x t" "present x" for x t
      using leaf_ok [OF ok path _ pt(1) that(1)] mapping_leaf [OF ok _ _ _ pt(1) that(1)] that(2)
      by (auto simp: page_map_def same_page_indices table_index_less)
    show ?thesis
    proof (cases "pmm_block_refcount ?old (vm_pmm s) > 1")
      case shared: True
      obtain k where k: "pmm_view (vm_pmm s) (frame_of ?old) = Owned k" "1 < k"
        using shared refcount_view [OF space_okD(1) [OF ok], of ?old] al(1)
        by (auto simp: word_less_nat_alt split: frame_status.splits)
      obtain n s1 where a: "vm_alloc s = (n, s1)" by fastforce
      show ?thesis
      proof (cases "n = 0")
        case True
        then have "b = False" "s' = s1" using run en mem shared a by (simp_all add: vmm_handle_cow_fault_def Let_def)
        then show ?thesis using reachesD(1-3) [OF no_memory [OF ok], of s1] a True
          by (simp add: page_map_def same_maps_def table_index_less)
      next
        case nz: False
        define s2 where "s2 = vm_free ?old (copy_page n ?old s1)"
        define x where "x = private_entry cow n e"
        have len: "length [table_index 39 v, table_index 30 v, table_index 21 v] = 3" by simp
        note C = private_copy [OF ok path len pt(1) table_index_less [of 12 v] out k a nz s2_def]
        have "vm_mem s2 entry = e" using C(3) mem pt(2) by (simp add: rd_def)
        then have res: "b" "s' = wr pt ?l x s2" using run en mem shared a nz pt(2)
          by (simp_all add: vmm_handle_cow_fault_def Let_def wr_def x_def private_entry_def s2_def)
        have n: "page_aligned n" "n AND PTE_PHYS_MASK = n" using alloc_result(4) [OF space_okD(1,2) [OF ok] a nz] by blast+
        note bits = private_entry_bits [OF n cow, of e, folded x_def]
        have "pmm_inv (vm_pmm s2)" using leaf_stepD(1) [OF C(1)] by simp
        then have "unat (pmm_block_refcount n (vm_pmm s2)) \<le> 1" using refcount_view [of "vm_pmm s2" n] C(5) by simp
        then have "made_private cow p4 v s e s'"
          unfolding made_private_def using step [OF C(1) bits(2)] bits e(2) res(2) C(4,6)
          by (intro exI [of _ x]) auto
        then show ?thesis using C(2) step [OF C(1) bits(2)] res by simp
      qed
    next
      case False
      define x where "x = private_entry cow ?old e"
      have res: "b" "s' = wr pt ?l x s" using run en mem False pt(2)
        by (simp_all add: vmm_handle_cow_fault_def Let_def wr_def x_def private_entry_def)
      note st = leaf_write [OF ok path pt(1) _ table_index_less, of 12 v x, simplified]
      note bits = private_entry_bits [OF al cow, of e, folded x_def]
      have same: "rd ?old j s' = rd ?old j s" "outside p4 s' ?old" if "j < 512" for j using st(2) out that unfolding undisturbed_def res(2) by auto
      have "unat (pmm_block_refcount ?old (vm_pmm s)) \<le> 1" using False by (simp add: word_less_nat_alt)
      then have "made_private cow p4 v s e s'"
        unfolding made_private_def using step [OF st(1) bits(2)] bits e(2) same(1) same(2) [of 0] res(2)
        by (intro exI [of _ x]) auto
      then show ?thesis using st(2) step [OF st(1) bits(2)] res by simp
    qed
  qed
qed


section \<open>Ranges\<close>

text \<open>A page the kernel may write to on behalf of the process, and the memory the process sees.\<close>

definition writable :: "u64 \<Rightarrow> u64 \<Rightarrow> vmm_state \<Rightarrow> bool" where
  "writable p4 w s \<longleftrightarrow> (\<exists>e. page_map p4 w s = Some e \<and> user e \<and> e AND PAGE_WRITABLE \<noteq> 0)"

definition same_contents :: "u64 \<Rightarrow> vmm_state \<Rightarrow> vmm_state \<Rightarrow> bool" where
  "same_contents p4 s s' \<longleftrightarrow> (\<forall>w e. page_map p4 w s = Some e \<longrightarrow> user e \<longrightarrow>
     (\<exists>e'. page_map p4 w s' = Some e' \<and> user e' \<and> (\<forall>j < 512. rd (e' AND PTE_PHYS_MASK) j s' = rd (e AND PTE_PHYS_MASK) j s)))"

lemma same_contents_refl: "same_contents p4 s s"
  by (simp add: same_contents_def)

lemma same_contents_trans:
  assumes "same_contents p4 s s'" "same_contents p4 s' s''"
  shows "same_contents p4 s s''"
  unfolding same_contents_def
proof (intro allI impI)
  fix w e assume e: "page_map p4 w s = Some e" "user e"
  then obtain e' where e': "page_map p4 w s' = Some e'" "user e'" "\<And>j. j < 512 \<Longrightarrow> rd (e' AND PTE_PHYS_MASK) j s' = rd (e AND PTE_PHYS_MASK) j s"
    using assms(1) unfolding same_contents_def by blast
  then obtain e'' where "page_map p4 w s'' = Some e''" "user e''" "\<And>j. j < 512 \<Longrightarrow> rd (e'' AND PTE_PHYS_MASK) j s'' = rd (e' AND PTE_PHYS_MASK) j s'"
    using assms(2) unfolding same_contents_def by blast
  then show "\<exists>e'. page_map p4 w s'' = Some e' \<and> user e' \<and> (\<forall>j<512. rd (e' AND PTE_PHYS_MASK) j s'' = rd (e AND PTE_PHYS_MASK) j s)"
    using e'(3) by auto
qed

definition prepared :: "u64 \<Rightarrow> vmm_state \<Rightarrow> vmm_state \<Rightarrow> bool" where
  "prepared p4 s s' \<longleftrightarrow> space_of p4 s' \<and> undisturbed p4 s s' \<and> same_contents p4 s s' \<and> (\<forall>w. writable p4 w s \<longrightarrow> writable p4 w s')"

lemma prepared_refl: "space_of p4 s \<Longrightarrow> prepared p4 s s"
  by (simp add: prepared_def undisturbed_refl same_contents_refl)

lemma prepared_trans: "prepared p4 s s' \<Longrightarrow> prepared p4 s' s'' \<Longrightarrow> prepared p4 s s''"
  unfolding prepared_def by (blast intro: undisturbed_trans same_contents_trans)

lemma same_page_map: "same_page w v \<Longrightarrow> page_map p4 w s = page_map p4 v s"
  by (simp add: page_map_def same_page_indices)

lemma cow_fault_prepared:
  assumes sp: "space_of p4 s" and cow: "cow_bit cow" and run: "vmm_handle_cow_fault cow p4 v s = (b, s')"
    and e: "page_map p4 v s = Some e" "user e"
  shows "prepared p4 s s'" "b \<Longrightarrow> writable p4 v s'"
proof -
  note R = cow_fault_result [OF assms]
  have ok': "space_ok p4 s'" and un: "undisturbed p4 s s'" using R by blast+
  have out: "outside p4 s' (x AND PTE_PHYS_MASK) \<and> (\<forall>j < 512. rd (x AND PTE_PHYS_MASK) j s' = rd (x AND PTE_PHYS_MASK) j s)"
    if "page_map p4 w s = Some x" "user x" for w x
    using sp that un unfolding space_of_def user_pages_ok_def undisturbed_def by blast
  show "prepared p4 s s'"
  proof (cases b)
    case True
    then obtain e' where e': "\<And>w. page_map p4 w s' = (if same_page w v then Some e' else page_map p4 w s)"
      "user e'" "e' AND PAGE_WRITABLE \<noteq> 0" "outside p4 s' (e' AND PTE_PHYS_MASK)"
      "\<And>j. j < 512 \<Longrightarrow> rd (e' AND PTE_PHYS_MASK) j s' = rd (e AND PTE_PHYS_MASK) j s"
      using R unfolding made_private_def by auto
    have "user_pages_ok p4 s'" unfolding user_pages_ok_def using e'(1,4) out by auto
    moreover have "same_contents p4 s s'" unfolding same_contents_def using e' out e(1) same_page_map [of _ v p4 s] by auto
    moreover have "\<forall>w. writable p4 w s \<longrightarrow> writable p4 w s'" unfolding writable_def using e'(1-3) by auto
    ultimately show ?thesis using ok' un by (simp add: prepared_def space_of_def)
  next
    case False
    then have m: "page_map p4 w s' = page_map p4 w s" for w using R by simp
    have "user_pages_ok p4 s'" unfolding user_pages_ok_def using m out by auto
    moreover have "same_contents p4 s s'" unfolding same_contents_def using m out by auto
    ultimately show ?thesis using ok' un m by (simp add: prepared_def space_of_def writable_def)
  qed
  show "b \<Longrightarrow> writable p4 v s'" using R unfolding made_private_def writable_def by (auto simp: same_page_def)
qed

lemma prepare_pages_first:
  assumes sp: "space_of p4 s" and cow: "cow_bit cow" and run: "prepare_pages cow p4 n page s = (b, s')"
  shows "\<exists>x s1. prepared p4 s s1 \<and> (x \<longrightarrow> writable p4 page s1) \<and>
    (b, s') = (if x then case n of 0 \<Rightarrow> (True, s1) | Suc m \<Rightarrow> prepare_pages cow p4 m (page + 4096) s1 else (False, s1))"
proof (cases "\<exists>entry. find_page_entry p4 page s = Some entry \<and> vm_mem s entry AND (PAGE_PRESENT OR PAGE_USER) = PAGE_PRESENT OR PAGE_USER")
  case False
  then have "(b, s') = (False, s)" using run by (subst (asm) prepare_pages.simps) (auto split: option.splits)
  then show ?thesis using prepared_refl [OF sp] by (intro exI [of _ False] exI [of _ s]) simp
next
  case True
  then obtain entry where en: "find_page_entry p4 page s = Some entry" "vm_mem s entry AND (PAGE_PRESENT OR PAGE_USER) = PAGE_PRESENT OR PAGE_USER"
    by blast
  have pu: "present (vm_mem s entry)" "user (vm_mem s entry)"
  proof -
    let ?e = "vm_mem s entry"
    have five: "?e AND 5 = 5" using en(2) by (simp add: PAGE_PRESENT_def PAGE_USER_def)
    have "?e AND 1 = (?e AND 5) AND 1" "?e AND 4 = (?e AND 5) AND 4" by (simp_all add: and.assoc)
    then show "present ?e" "user ?e" by (simp_all add: five present_def user_def PAGE_PRESENT_def PAGE_USER_def)
  qed
  have m: "page_map p4 page s = Some (vm_mem s entry)" using mapped_page [OF _ en(1) pu(1)] sp by (auto simp: space_of_def)
  show ?thesis
  proof (cases "vm_mem s entry AND PAGE_WRITABLE = 0")
    case True
    obtain x s1 where f: "vmm_handle_cow_fault cow p4 page s = (x, s1)" by fastforce
    have "(b, s') = (if x then case n of 0 \<Rightarrow> (True, s1) | Suc m \<Rightarrow> prepare_pages cow p4 m (page + 4096) s1 else (False, s1))"
      using run True en f by (subst (asm) prepare_pages.simps) (cases x; simp)
    then show ?thesis using cow_fault_prepared [OF sp cow f m pu(2)] by blast
  next
    case False
    then have "(b, s') = (case n of 0 \<Rightarrow> (True, s) | Suc m \<Rightarrow> prepare_pages cow p4 m (page + 4096) s)"
      using run en by (subst (asm) prepare_pages.simps) simp
    moreover have "writable p4 page s" using m pu(2) False by (simp add: writable_def)
    ultimately show ?thesis using prepared_refl [OF sp] by (intro exI [of _ True] exI [of _ s]) simp
  qed
qed

lemma prepare_pages_result:
  assumes "space_of p4 s" and cow: "cow_bit cow" and "prepare_pages cow p4 n page s = (b, s')"
  shows "prepared p4 s s' \<and> (b \<longrightarrow> (\<forall>k \<le> n. writable p4 (page + 4096 * of_nat k) s'))"
  using assms(1,3)
proof (induction n arbitrary: page s)
  case 0
  then show ?case using prepare_pages_first [OF 0(1) cow 0(2)] by (auto split: if_splits)
next
  case (Suc n)
  obtain x s1 where one: "prepared p4 s s1" "x \<longrightarrow> writable p4 page s1"
    and rest: "(b, s') = (if x then prepare_pages cow p4 n (page + 4096) s1 else (False, s1))"
    using prepare_pages_first [OF Suc.prems(1) cow Suc.prems(2)] unfolding nat.case by blast
  show ?case
  proof (cases x)
    case True
    have I: "prepared p4 s1 s'" "b \<Longrightarrow> k \<le> n \<Longrightarrow> writable p4 (page + 4096 + 4096 * of_nat k) s'" for k
      using Suc.IH [of s1 "page + 4096"] one(1) rest True by (simp_all add: prepared_def)
    have "writable p4 (page + 4096 * of_nat k) s'" if "b" "k \<le> Suc n" for k
    proof (cases k)
      case 0
      then show ?thesis using one(2) True I(1) by (simp add: prepared_def)
    next
      case (Suc i)
      then show ?thesis using I(2) [of i] that by (simp add: algebra_simps)
    qed
    then show ?thesis using prepared_trans [OF one(1) I(1)] by blast
  next
    case False
    then show ?thesis using rest one(1) by simp
  qed
qed


lemma same_page_base: "same_page a (a AND NOT 0xFFF)"
proof -
  have d: "unat (drop_bit 12 x) = unat x div 4096" for x :: u64 by (simp add: drop_bit_eq_div unat_div_distrib)
  have "unat (drop_bit 12 (a AND NOT 0xFFF)) = unat (drop_bit 12 a)" unfolding d unat_page_down by simp
  then have "drop_bit 12 (a AND NOT 0xFFF) = drop_bit 12 a" by (simp only: word_unat_eq_iff)
  then show ?thesis by (simp only: same_page_def)
qed

lemma page_in_range:
  fixes v a stop :: u64
  assumes "unat v \<le> unat a" "unat a \<le> unat stop"
  shows "\<exists>k \<le> unat ((stop AND NOT 0xFFF) - (v AND NOT 0xFFF)) div 4096. same_page a ((v AND NOT 0xFFF) + 4096 * of_nat k)"
proof -
  define k where "k = unat a div 4096 - unat v div 4096"
  have b: "unat (v AND NOT 0xFFF) = unat v div 4096 * 4096" "unat (stop AND NOT 0xFFF) = unat stop div 4096 * 4096"
    "unat (a AND NOT 0xFFF) = unat a div 4096 * 4096" by (rule unat_page_down)+
  have le: "unat v div 4096 \<le> unat a div 4096" "unat a div 4096 \<le> unat stop div 4096" using assms by (simp_all add: div_le_mono)
  have "unat ((stop AND NOT 0xFFF) - (v AND NOT 0xFFF)) = (unat stop div 4096 - unat v div 4096) * 4096"
    using b le by (simp add: unat_sub word_le_nat_alt diff_mult_distrib)
  then have k: "k \<le> unat ((stop AND NOT 0xFFF) - (v AND NOT 0xFFF)) div 4096" using diff_le_mono [OF le(2)] by (simp add: k_def)
  have sum: "unat v div 4096 * 4096 + 4096 * k = unat a div 4096 * 4096" using le by (simp add: k_def diff_mult_distrib2 algebra_simps)
  have "unat a div 4096 * 4096 < 2 ^ 64" using unat_less [of a] div_times_less_eq_dividend [of "unat a" 4096] by simp
  then have lt: "4096 * k < 2 ^ 64" "unat v div 4096 * 4096 + 4096 * k < 2 ^ 64" using sum by linarith+
  have "unat (4096 * of_nat k :: u64) = 4096 * k" using lt(1) by (subst unat_mult_small) (simp_all add: unat_of_nat_small)
  then have "unat ((v AND NOT 0xFFF) + 4096 * of_nat k) = unat (a AND NOT 0xFFF)" using lt(2) b sum by (subst unat_add_small) simp_all
  then have "(v AND NOT 0xFFF) + 4096 * of_nat k = a AND NOT 0xFFF" by (simp add: word_unat_eq_iff)
  then show ?thesis using k same_page_base [of a] by (intro exI [of _ k]) simp
qed

lemma prepare_write_result:
  assumes sp: "space_of p4 s" and cow: "cow_bit cow" and run: "vmm_prepare_user_write cow p4 v len s = (b, s')"
  shows "prepared p4 s s' \<and> (b \<longrightarrow> (\<forall>a. unat v \<le> unat a \<and> unat a < unat v + unat len \<longrightarrow> writable p4 a s'))"
proof -
  let ?stop = "v + len - 1"
  consider "len = 0" | "len \<noteq> 0" "p4 = 0 \<or> ?stop < v \<or> v < AOS_USER_SPACE_START \<or> ?stop \<ge> 0x0000800000000000"
    | "len \<noteq> 0" "\<not> ?stop < v" "prepare_pages cow p4 (unat ((?stop AND NOT 0xFFF) - (v AND NOT 0xFFF)) div 4096) (v AND NOT 0xFFF) s = (b, s')"
    using run unfolding vmm_prepare_user_write_def Let_def by (auto split: if_splits)
  then show ?thesis
  proof cases
    case 3
    note P = prepare_pages_result [OF sp cow 3(3)]
    define d where "d = len - 1"
    have d: "unat d = unat len - 1" "?stop = v + d" using 3(1) by (simp_all add: d_def unat_pred)
    have "unat v + unat d < 2 ^ 64" using 3(2) no_olen_add_nat [of v d] unfolding d(2) by (simp add: not_less)
    then have "unat ?stop = unat v + unat d" unfolding d(2) by (simp add: unat_add_small)
    then have stop: "unat ?stop = unat v + unat len - 1" using d(1) 3(1) by (simp add: unat_gt_0 Suc_leI)
    have "writable p4 a s'" if a: "unat v \<le> unat a" "unat a < unat v + unat len" and "b" for a
    proof -
      have "unat a \<le> unat ?stop" using a(2) stop by linarith
      then obtain k where k: "k \<le> unat ((?stop AND NOT 0xFFF) - (v AND NOT 0xFFF)) div 4096" "same_page a ((v AND NOT 0xFFF) + 4096 * of_nat k)"
        using page_in_range [OF a(1)] by blast
      have "writable p4 ((v AND NOT 0xFFF) + 4096 * of_nat k) s'" using P \<open>b\<close> k(1) by blast
      then show ?thesis using same_page_map [OF k(2)] by (simp add: writable_def)
    qed
    then show ?thesis using P by blast
  qed (use run prepared_refl [OF sp] in \<open>auto simp: vmm_prepare_user_write_def\<close>)
qed


section \<open>An address space\<close>

text \<open>One page of user memory at \<open>AOS_USER_SPACE_START\<close>, shared and marked with bit 9, in low frames.\<close>

definition sample_space :: vmm_state where
  "sample_space = \<lparr>vm_mem = (\<lambda>_. 0)(0x1010 := 0x2007, 0x2000 := 0x3007, 0x3000 := 0x4007, 0x4000 := 0x5205),
     vm_pmm = pmm_init sample_boot\<rparr>"

lemma sample_frames: "i < 256 \<Longrightarrow> pmm_view (pmm_init sample_boot) i = Reserved" "pmm_inv (pmm_init sample_boot)"
  using pmm_reachable_inv [OF pmm_reachable.boot [of sample_boot]] by (auto simp: boot_reserved_def)

lemma sample_rd:
  assumes "i < 512"
  shows "rd 0x1000 i sample_space = (if i = 2 then 0x2007 else 0)" "rd 0x2000 i sample_space = (if i = 0 then 0x3007 else 0)"
    "rd 0x3000 i sample_space = (if i = 0 then 0x4007 else 0)" "rd 0x4000 i sample_space = (if i = 0 then 0x5205 else 0)"
proof -
  have "slot_addr t i = a \<longleftrightarrow> unat t + 8 * i = unat a" if "page_aligned t" for t a
    using unat_slot_addr [OF that assms] by (auto simp: word_unat_eq_iff)
  then show "rd 0x1000 i sample_space = (if i = 2 then 0x2007 else 0)" "rd 0x2000 i sample_space = (if i = 0 then 0x3007 else 0)"
    "rd 0x3000 i sample_space = (if i = 0 then 0x4007 else 0)" "rd 0x4000 i sample_space = (if i = 0 then 0x5205 else 0)"
    using assms by (auto simp: rd_def sample_space_def page_aligned_def)
qed

lemma sample_walk:
  assumes "path_ok p" "walk_tables 0x1000 p sample_space = Some t"
  shows "(p, t) \<in> {([], 0x1000), ([2], 0x2000), ([2, 0], 0x3000), ([2, 0, 0], 0x4000)}"
proof -
  have z: "child 0 = None" and c: "child 0x2007 = Some 0x2000" "child 0x3007 = Some 0x3000" "child 0x4007 = Some 0x4000"
    by (simp_all add: child_def present_def huge_def PAGE_PRESENT_def PAGE_HUGE_def)
  consider "p = []" | a where "p = [a]" | a b where "p = [a, b]" | a b c where "p = [a, b, c]"
    using assms(1) by (cases p; cases "tl p"; cases "tl (tl p)"; cases "tl (tl (tl p))") (auto simp: path_ok_def)
  then show ?thesis
    using assms by cases (auto simp: path_ok_def sample_rd z c split: if_splits)
qed

lemma sample_ok: "space_ok 0x1000 sample_space"
  unfolding space_ok_def
proof (intro conjI allI impI)
  note W = sample_walk
  show "pmm_inv (vm_pmm sample_space)" "pmm_view (vm_pmm sample_space) 0 \<noteq> Free"
    using sample_frames by (simp_all add: sample_space_def)
  show "table_ok t sample_space" if "path_ok p" "walk_tables 0x1000 p sample_space = Some t" for p t
    using W [OF that] sample_frames(1) by (auto simp: table_ok_def page_aligned_def PTE_PHYS_MASK_def frame_of_def sample_space_def)
  show "p = q" if "path_ok p" "path_ok q" "walk_tables 0x1000 p sample_space = Some t" "walk_tables 0x1000 q sample_space = Some t" for p q t
    using W [OF that(1,3)] W [OF that(2,4)] by auto
  show "\<not> huge (rd t i sample_space)" if "path_ok p" "length p \<le> 1" "i < 512" "walk_tables 0x1000 p sample_space = Some t" for p t i
    using W [OF that(1,4)] that(2,3) by (auto simp: sample_rd huge_def PAGE_HUGE_def)
qed

lemma sample_map: "page_map 0x1000 w sample_space = (if same_page w AOS_USER_SPACE_START then Some 0x5205 else None)"
proof -
  have i: "table_index 39 AOS_USER_SPACE_START = 2" "table_index 30 AOS_USER_SPACE_START = 0"
    "table_index 21 AOS_USER_SPACE_START = 0" "table_index 12 AOS_USER_SPACE_START = 0"
    by (simp_all add: table_index_def AOS_USER_SPACE_START_def drop_bit_eq_div)
  have "child 0 = None" "child 0x2007 = Some 0x2000" "child 0x3007 = Some 0x3000" "child 0x4007 = Some 0x4000" "present 0x5205" "\<not> present 0" "\<not> huge 0x4007"
    by (simp_all add: child_def present_def huge_def PAGE_PRESENT_def PAGE_HUGE_def)
  then show ?thesis
    unfolding same_page_indices i page_map_def mapping_def by (auto simp: sample_rd table_index_less)
qed

lemma sample_space_of: "space_of 0x1000 sample_space"
proof -
  have "outside 0x1000 sample_space 0x5000"
    using sample_walk sample_frames(1) [of 5] by (fastforce simp: outside_def page_aligned_def frame_of_def sample_space_def)
  then show ?thesis using sample_ok by (simp add: space_of_def user_pages_ok_def sample_map PTE_PHYS_MASK_def)
qed

end
