(* ===== verification/Vmm_System.thy ===== *)
theory Vmm_System
  imports Vmm_Cow
begin

text \<open>
  All operations of \<open>kernel/vmm.c\<close> in any order, starting from the memory map of the boot loader, and the
  properties of address spaces.
\<close>

section \<open>Reachable states\<close>

inductive vmm_reachable :: "boot_info \<Rightarrow> vmm_state \<Rightarrow> bool" for b where
  boot: "vm_pmm s = pmm_init b \<Longrightarrow> vmm_reachable b s"
| store: "vmm_reachable b s \<Longrightarrow> vmm_reachable b (s\<lparr>vm_mem := m\<rparr>)"
| map_page: "vmm_reachable b s \<Longrightarrow> vmm_reachable b (vmm_map_page p4 v phys flags s)"
| unmap_page: "vmm_reachable b s \<Longrightarrow> vmm_reachable b (snd (vmm_unmap_page p4 v s))"
| cow_fault: "vmm_reachable b s \<Longrightarrow> vmm_reachable b (snd (vmm_handle_cow_fault cow p4 v s))"
| prepare: "vmm_reachable b s \<Longrightarrow> vmm_reachable b (snd (vmm_prepare_user_write cow p4 v len s))"
| protect: "vmm_reachable b s \<Longrightarrow> vmm_reachable b (snd (vmm_protect_page cow p4 v flags s))"
| create: "vmm_reachable b s \<Longrightarrow> vmm_reachable b (snd (vmm_create_user_space kernel_p4 p4 s))"
| destroy: "vmm_reachable b s \<Longrightarrow> vmm_reachable b (vmm_destroy_user_space kernel_p4 p4 s)"
| free_space: "vmm_reachable b s \<Longrightarrow> vmm_reachable b (vmm_free_user_space p4 s)"
| copy: "vmm_reachable b s \<Longrightarrow> vmm_reachable b (snd (vmm_copy_p4 cow kernel_p4 p4 s))"

text \<open>The physical memory manager has only been used through its own operations.\<close>

abbreviation frames_sound :: "boot_info \<Rightarrow> vmm_state \<Rightarrow> bool" where
  "frames_sound b s \<equiv> pmm_reachable b (vm_pmm s)"

lemma fold_keeps: "P s \<Longrightarrow> (\<And>i s. P s \<Longrightarrow> P (f i s)) \<Longrightarrow> P (fold f xs s)"
  by (induction xs arbitrary: s) simp_all

lemma try_loop_keeps: "P s \<Longrightarrow> (\<And>i s. P s \<Longrightarrow> P (snd (body i s))) \<Longrightarrow> P (snd (try_loop body xs s))"
proof (induction xs arbitrary: s)
  case (Cons i xs)
  have "P (snd (body i s))" using Cons.prems by blast
  then show ?case using Cons.IH [OF _ Cons.prems(2)] by (auto split: prod.split bool.split)
qed simp

lemma vm_alloc_sound: "frames_sound b s \<Longrightarrow> vm_alloc s = (n, s') \<Longrightarrow> frames_sound b s'"
  using pmm_reachable.alloc [of b "vm_pmm s"] by (auto simp: vm_alloc_def split: prod.splits)

lemma vm_free_sound: "frames_sound b s \<Longrightarrow> frames_sound b (vm_free a s)"
  by (simp add: vm_free_def pmm_reachable.free)

lemma fold_pmm: "(\<And>i s. vm_pmm (f i s) = vm_pmm s) \<Longrightarrow> vm_pmm (fold f xs s) = vm_pmm s"
  by (induction xs arbitrary: s) simp_all

lemma fill_pmm [simp]:
  "vm_pmm (fold (\<lambda>i. wr t i (f i)) xs s) = vm_pmm s" "vm_pmm (clear_page t s) = vm_pmm s" "vm_pmm (copy_page d t s) = vm_pmm s"
  unfolding clear_page_def copy_page_def by (rule fold_pmm, simp)+

lemma private_copy_sound: "frames_sound b s \<Longrightarrow> vm_alloc s = (n, s') \<Longrightarrow> frames_sound b (vm_free a (copy_page d t s'))"
  by (simp add: vm_free_sound vm_alloc_sound)

lemmas page_sound = vm_alloc_sound private_copy_sound

lemma ensure_table_sound: "frames_sound b s \<Longrightarrow> frames_sound b (snd (ensure_table t i s))"
  by (auto simp: ensure_table_def intro: page_sound split: prod.split)

lemma split_huge_sound: "frames_sound b s \<Longrightarrow> frames_sound b (snd (split_huge_pd_entry t i s))"
  by (auto simp: split_huge_pd_entry_def Let_def intro: page_sound split: prod.split)

lemma try_sound:
  "frames_sound b (snd r) \<Longrightarrow> (\<And>s. frames_sound b s \<Longrightarrow> frames_sound b (k s)) \<Longrightarrow>
   frames_sound b (case r of (False, s) \<Rightarrow> s | (True, s) \<Rightarrow> k s)"
  by (auto split: prod.split bool.split)

lemma map_page_sound: "frames_sound b s \<Longrightarrow> frames_sound b (vmm_map_page p4 v phys flags s)"
  unfolding vmm_map_page_def Let_def
  by (intro try_sound ensure_table_sound) (simp_all add: split_huge_sound)

lemma unmap_page_sound: "frames_sound b s \<Longrightarrow> frames_sound b (snd (vmm_unmap_page p4 v s))"
  by (simp add: vmm_unmap_page_def Let_def)

lemma cow_fault_sound: "frames_sound b s \<Longrightarrow> frames_sound b (snd (vmm_handle_cow_fault cow p4 v s))"
  unfolding vmm_handle_cow_fault_def Let_def by (auto split: option.split prod.split intro: page_sound)

lemma prepare_pages_sound: "frames_sound b s \<Longrightarrow> frames_sound b (snd (prepare_pages cow p4 n page s))"
proof (induction n arbitrary: page s)
  case 0
  then show ?case using cow_fault_sound [OF 0, of cow p4 page]
    by (subst prepare_pages.simps) (auto split: option.split prod.split bool.split)
next
  case (Suc n)
  then show ?case using cow_fault_sound [OF Suc.prems, of cow p4 page]
    by (subst prepare_pages.simps) (auto split: option.split prod.split bool.split)
qed

lemma prepare_sound: "frames_sound b s \<Longrightarrow> frames_sound b (snd (vmm_prepare_user_write cow p4 v len s))"
  by (simp add: vmm_prepare_user_write_def Let_def prepare_pages_sound)

lemma protect_sound: "frames_sound b s \<Longrightarrow> frames_sound b (snd (vmm_protect_page cow p4 v flags s))"
  unfolding vmm_protect_page_def Let_def by (auto split: option.split prod.split intro: page_sound)

lemma create_sound: "frames_sound b s \<Longrightarrow> frames_sound b (snd (vmm_create_user_space kernel_p4 p4 s))"
  unfolding vmm_create_user_space_def Let_def
  by (auto split: prod.split intro!: fold_keeps [where P = "frames_sound b"] intro: page_sound)


lemma release_table_sound: "frames_sound b s \<Longrightarrow> frames_sound b (release_table parent i t s)"
  by (simp add: release_table_def vm_free_sound)

lemma free_pt_sound: "frames_sound b s \<Longrightarrow> frames_sound b (free_pt_slot pt l s)"
  by (simp add: free_pt_slot_def vm_free_sound)

lemma free_pd_sound: "frames_sound b s \<Longrightarrow> frames_sound b (free_pd_slot pd k s)"
  unfolding free_pd_slot_def Let_def
  by (simp add: vm_free_sound release_table_sound fold_keeps [where P = "frames_sound b"] free_pt_sound)

lemma free_pdpt_sound: "frames_sound b s \<Longrightarrow> frames_sound b (free_pdpt_slot pdpt j s)"
  unfolding free_pdpt_slot_def Let_def
  by (simp add: release_table_sound fold_keeps [where P = "frames_sound b"] free_pd_sound)

lemma free_pml4_sound: "frames_sound b s \<Longrightarrow> frames_sound b (free_pml4_slot p4 i s)"
  unfolding free_pml4_slot_def Let_def
  by (simp add: release_table_sound fold_keeps [where P = "frames_sound b"] free_pdpt_sound)

lemma free_space_sound: "frames_sound b s \<Longrightarrow> frames_sound b (vmm_free_user_space p4 s)"
  by (simp add: vmm_free_user_space_def fold_keeps [where P = "frames_sound b"] free_pml4_sound)

lemma destroy_sound: "frames_sound b s \<Longrightarrow> frames_sound b (vmm_destroy_user_space kernel_p4 p4 s)"
  by (simp add: vmm_destroy_user_space_def Let_def free_space_sound vm_free_sound)

lemma copy_table_sound:
  assumes "frames_sound b s" "\<And>t d i s. frames_sound b s \<Longrightarrow> frames_sound b (snd (body t d i s))"
  shows "frames_sound b (snd (copy_table body src dst i s))"
  unfolding copy_table_def Let_def using assms
  by (auto split: prod.split intro!: try_loop_keeps [where P = "frames_sound b"] intro: page_sound)

lemma copy_pt_sound: "frames_sound b s \<Longrightarrow> frames_sound b (snd (copy_pt_slot cow src dst l s))"
  using pmm_reachable.retain [of b "vm_pmm s" "rd src l s AND PTE_PHYS_MASK"]
  by (auto simp: copy_pt_slot_def Let_def split: prod.split bool.split)

lemma copy_pd_sound: "frames_sound b s \<Longrightarrow> frames_sound b (snd (copy_pd_slot cow src dst k s))"
  by (simp add: copy_pd_slot_def copy_table_sound copy_pt_sound)

lemma copy_pdpt_sound: "frames_sound b s \<Longrightarrow> frames_sound b (snd (copy_pdpt_slot cow src dst j s))"
  by (simp add: copy_pdpt_slot_def copy_table_sound copy_pd_sound)

lemma copy_p4_slot_sound: "frames_sound b s \<Longrightarrow> frames_sound b (snd (copy_p4_slot cow src dst i s))"
  by (simp add: copy_p4_slot_def copy_table_sound copy_pdpt_sound)

lemma copy_p4_sound:
  assumes "frames_sound b s"
  shows "frames_sound b (snd (vmm_copy_p4 cow kernel_p4 src s))"
proof -
  obtain n s1 where a: "vm_alloc s = (n, s1)" by fastforce
  then have s1: "frames_sound b s1" by (rule vm_alloc_sound [OF assms])
  then have "frames_sound b (snd (try_loop (copy_p4_slot cow src n) [0..<512] (clear_page n s1)))"
    by (intro try_loop_keeps [where P = "frames_sound b"]) (simp_all add: copy_p4_slot_sound)
  then show ?thesis using a s1 by (auto simp: vmm_copy_p4_def destroy_sound split: prod.split bool.split)
qed

lemma reachable_sound: "vmm_reachable b s \<Longrightarrow> frames_sound b s"
  by (induction rule: vmm_reachable.induct)
    (simp_all add: pmm_reachable.boot map_page_sound unmap_page_sound cow_fault_sound prepare_sound protect_sound create_sound
      destroy_sound free_space_sound copy_p4_sound)

section \<open>Properties\<close>





text \<open>
  C14. Before the kernel writes to user memory: when \<open>vmm_prepare_user_write\<close> succeeds for \<open>len\<close> bytes at \<open>v\<close>,
  every address of the range is in a user page that is mapped for writing, and in every case each
  user page of the space is still mapped and reads as before.
\<close>

theorem vmm_prepare_user_write_safe:
  assumes "space_of p4 s" and "cow_bit cow" and "vmm_prepare_user_write cow p4 v len s = (ok, s')"
  shows "space_of p4 s' \<and> undisturbed p4 s s' \<and> same_contents p4 s s' \<and>
    (ok \<longrightarrow> (\<forall>a. unat v \<le> unat a \<and> unat a < unat v + unat len \<longrightarrow> writable p4 a s'))"
  using prepare_write_result [OF assms] by (simp add: prepared_def)

theorem vmm_prepare_user_write_safe_witness:
  "let r = vmm_prepare_user_write 0x200 0x1000 (AOS_USER_SPACE_START + 8) 100 sample_space
   in same_contents 0x1000 sample_space (snd r) \<and> (fst r \<longrightarrow> writable 0x1000 (AOS_USER_SPACE_START + 20) (snd r))"
proof -
  have "unat (AOS_USER_SPACE_START + 8) \<le> unat (AOS_USER_SPACE_START + 20)"
    "unat (AOS_USER_SPACE_START + 20) < unat (AOS_USER_SPACE_START + 8) + unat (100 :: u64)" by (simp_all add: AOS_USER_SPACE_START_def)
  then show ?thesis
    using vmm_prepare_user_write_safe [OF sample_space_of _ prod.collapse [symmetric], of "0x200" "AOS_USER_SPACE_START + 8" 100]
    by (auto simp: Let_def cow_bit_def)
qed



end
