(* ===== verification/Spec2Isabelle.thy ===== *)
theory Spec2Isabelle
  imports Tty Partition Vfs_Links Credentials_Props Sha256_Vectors Vmm_System
begin

text \<open>
  A verification of the AOS kernel, a small 64-bit operating system in C. The theories model the parts of
  the kernel that keep state of their own and can be read without the hardware below them: physical
  and virtual memory, input and terminal, block devices and partitions, the three file systems that are
  complete in the kernel, the virtual file system above them, and password hashes. Paths below are relative
  to \<open>src/\<close>.

  \<^bold>\<open>The program.\<close> At boot \<open>kernel/main.c\<close> hands the boot information to the physical memory manager
  (\<open>kernel/pmm.c\<close>), finds the initial RAM disk (\<open>kernel/initrd.c\<close>) and the disks (\<open>kernel/blkdev.c\<close> over
  driver functions), loads the partition table (\<open>kernel/partition.c\<close>) and mounts the AOSFS volumes it
  finds (\<open>kernel/aosfs.c\<close>), the temporary file system (\<open>kernel/tmpfs.c\<close>) and the mount table
  (\<open>kernel/vfs.c\<close>). Address spaces of processes are page tables in frames of the physical memory manager
  (\<open>kernel/vmm.c\<close>). Passwords are stored as the salted hashes of \<open>kernel/credentials.c\<close>. Keyboard and pointer events pass through the queues of \<open>kernel/input.c\<close> to the
  terminal of \<open>kernel/tty.c\<close>.

  \<^bold>\<open>Conventions.\<close> C integers are words of their width, or natural numbers with \<open>mod 2 ^ 64\<close> written out
  where the code can wrap. A structure is a record, a static array a list, and a component's static
  variables are one state record that every operation takes and returns. A return code is a truth value
  or an option, an output parameter part of the result, a pointer that may be null an option. C strings
  are strings without the final zero, with \<open>copy_string\<close> for the bounded copies the code makes. Physical
  memory is a function from addresses to bytes, and the state behind a driver is a type parameter.

  \<^bold>\<open>The theories.\<close>

  \<^item> \<open>Prelude\<close>: words, bytes, bounded string copies, little-endian encoding, lists as arrays, the
    collections of rewrite rules. \<open>Slots\<close>: tables with an in-use flag, searched from the front, and the
    finite map they represent. \<open>Paths\<close>: slash-separated paths as lists of components. \<open>Fifo\<close>: a ring
    buffer as a bounded queue (locale \<open>bounded_fifo\<close>).
  \<^item> \<open>Pmm\<close>: \<open>kernel/pmm.c\<close>, the bitmap and reference counts of 4 KiB frames (locale \<open>frame_allocator\<close>). A
    frame that belongs to the kernel image, to the first MiB or to a boot module is never handed out,
    allocation and reference counting refine a map from frames to counts, and the figures for free and
    used memory are exact.
  \<^item> \<open>Vmm\<close>: the model of \<open>kernel/vmm.c\<close>. \<open>Vmm_Props\<close>: the tables of an address space as a tree of distinct
    frames, and what hanging a new table into it does. \<open>Vmm_Map\<close>: mapping a page changes that page only.
    \<open>Vmm_Cow\<close>: a write to a shared page makes it private with the same contents, and the check before a
    write of the kernel to user memory. \<open>Vmm_System\<close>: all operations in any order keep the frames well formed.
  \<^item> \<open>Input\<close>, \<open>Tty\<close>: \<open>kernel/input.c\<close> and \<open>kernel/tty.c\<close>. Characters arrive in order, pointer motion is
    conserved when events are merged, a line is read as soon as it is complete, and text is shown
    unchanged.
  \<^item> \<open>Blkdev\<close>: \<open>kernel/blkdev.c\<close>. A device is one flat array of bytes whatever the alignment of an access
    (locales \<open>byte_device\<close> for drivers, \<open>byte_store\<close> for what is built on devices).
  \<^item> \<open>Partition\<close>: \<open>kernel/partition.c\<close>. Tables are read back as written, planned partitions do not
    overlap.
  \<^item> \<open>Vfs_Node\<close>: the node type of \<open>include/vfs.h\<close> and the contract of a file store (locale
    \<open>file_store\<close>). \<open>Tmpfs\<close>: \<open>kernel/tmpfs.c\<close> refines a tree of files. \<open>Initrd\<close>: \<open>kernel/initrd.c\<close>
    finds exactly the members of a cpio archive.
  \<^item> \<open>Aosfs\<close>: the model of \<open>kernel/aosfs.c\<close>. \<open>Aosfs_Volume\<close>: the invariant that ties the table in memory to
    the bytes on the device. \<open>Aosfs_Files\<close>: what each operation does to the files of one volume.
    \<open>Aosfs_Mount\<close>: mounting and formatting. \<open>Aosfs_System\<close>: the eight volumes together, the specification
    of the calls as a step relation on trees of files, sequences of calls. \<open>Aosfs_Props\<close>: the properties.
  \<^item> \<open>Vfs\<close>: the model of \<open>kernel/vfs.c\<close>. \<open>Vfs_Props\<close>: normalisation of paths and the mount table.
    \<open>Vfs_Links\<close>: symbolic links, and that queries change nothing.
  \<^item> \<open>Credentials\<close>: the model of \<open>kernel/credentials.c\<close>. \<open>Credentials_Props\<close>: the streaming hash equals the
    hash of the whole message, and a stored hash accepts its password. \<open>Sha256_Vectors\<close>: the model computes
    the published digest of a test message.

  \<^bold>\<open>Bounds.\<close> Loops of the code that run over a table or a buffer are recursive functions with a
  termination proof, without fuel. The walk along the headers of the initial RAM disk ends because every
  step moves towards its end, and the number of symbolic links a lookup follows is bounded by the code
  itself (\<open>VFS_SYMLINK_LIMIT\<close>). The concrete systems that witness the hypotheses of the properties have a
  memory-backed device of 8 MiB with one AOSFS volume.

  \<^bold>\<open>Parameters.\<close> Block drivers are functions on a hardware state with the laws of \<open>byte_device\<close> as
  hypotheses; the memory-backed devices of the kernel satisfy them. The wait for a key in the terminal
  acts on the queues. The FAT32 and ext4 drivers are functions the virtual file system calls. The page flag
  \<open>PAGE_COW\<close>, which the sources use and do not define, is an argument of the operations that test it, with
  the hypothesis that it is a flag bit apart from the three the processor checks.

  \<^bold>\<open>Not modelled.\<close> Code whose effect is on hardware (interrupts, segments, timer, disk, network, USB and
  display drivers, assembly), the FAT32 and ext4 drivers, processes and the system call layer, the network
  stacks, the installer and the user programs. Messages on the serial line are left out everywhere.
\<close>

end
